(* ===== verification/Prelude.thy ===== *)
theory Prelude
  imports Main "HOL-Library.AList" "HOL-Library.List_Lexorder" "HOL-Library.Char_ord"
begin

text \<open>
  Shared vocabulary of the development: the types that stand for Go's strings, byte slices,
  maps and error results, the lemma collections the component theories use, the interface of
  a strict total order (every conflict rule of the program rests on one), and generic facts on
  lists and association lists.

  A Go string and a \<open>[]byte\<close> are both sequences of bytes, and \<open>char\<close> is the library's
  type of bytes, so both are \<open>string\<close>; comparison of Go strings is the bytewise
  lexicographic order, which \<open>List_Lexorder\<close> and \<open>Char_ord\<close> provide as \<open><\<close>.
\<close>

type_synonym bytes = string

text \<open>
  A Go map that was decoded from JSON, or that the code iterates over, is an association list.
  A key that occurs twice is shadowed by its first occurrence; iteration and length look only
  at the visible entries, so every association list denotes exactly one finite map.
\<close>

type_synonym ('k, 'v) gomap = "('k \<times> 'v) list"

definition gm_entries :: "('k, 'v) gomap \<Rightarrow> ('k \<times> 'v) list" where
  "gm_entries m = AList.clearjunk m"

definition gm_len :: "('k, 'v) gomap \<Rightarrow> nat" where
  "gm_len m = length (gm_entries m)"

definition gm_all :: "('k \<Rightarrow> 'v \<Rightarrow> bool) \<Rightarrow> ('k, 'v) gomap \<Rightarrow> bool" where
  "gm_all P m \<longleftrightarrow> list_all (\<lambda>(k, v). P k v) (gm_entries m)"

text \<open>Reading a missing key of a Go map gives the zero value of the element type.\<close>

definition gm_get :: "'v \<Rightarrow> ('k, 'v) gomap \<Rightarrow> 'k \<Rightarrow> 'v" where
  "gm_get zero m k = (case map_of m k of None \<Rightarrow> zero | Some v \<Rightarrow> v)"

named_theorems gomap_simps
named_theorems codec_simps
named_theorems clock_simps

lemma set_gm_entries [gomap_simps]: "(k, v) \<in> set (gm_entries m) \<longleftrightarrow> map_of m k = Some v"
  by (metis distinct_clearjunk gm_entries_def map_of_clearjunk map_of_eq_Some_iff)

lemma map_of_gm_entries [simp]: "map_of (gm_entries m) = map_of m"
  by (simp add: gm_entries_def map_of_clearjunk)

lemma distinct_gm_entries [simp]: "distinct (map fst (gm_entries m))"
  by (simp add: gm_entries_def distinct_clearjunk)

lemma gm_all_iff [gomap_simps]: "gm_all P m \<longleftrightarrow> (\<forall>k v. map_of m k = Some v \<longrightarrow> P k v)"
  unfolding gm_all_def list_all_iff by (auto simp: set_gm_entries)

lemma gm_len_card: "gm_len m = card (dom (map_of m))"
proof -
  have "set (map fst (gm_entries m)) = dom (map_of m)"
    by (metis dom_map_of_conv_image_fst map_of_gm_entries set_map)
  moreover have "card (set (map fst (gm_entries m))) = length (map fst (gm_entries m))"
    by (rule distinct_card) simp
  ultimately show ?thesis by (simp add: gm_len_def)
qed

text \<open>
  A map that has a value for each of finitely many keys and as many entries as there are keys
  has no other key: the reasoning behind \<open>len(m) != len(db.Scopes)\<close>.
\<close>

lemma gm_len_exact:
  assumes "distinct ks" and "gm_len m = length ks" and "\<forall>k \<in> set ks. map_of m k \<noteq> None"
  shows "dom (map_of m) = set ks"
proof -
  have "set ks \<subseteq> dom (map_of m)" using assms(3) by auto
  moreover have "card (dom (map_of m)) = card (set ks)"
    using assms(1,2) by (simp add: gm_len_card distinct_card)
  moreover have "finite (dom (map_of m))" by (rule finite_dom_map_of)
  ultimately show ?thesis by (metis card_subset_eq)
qed

text \<open>A map as its entries in the order of the keys.\<close>

lemma distinct_insort_fst [simp]:
  "distinct (map fst (insort_key fst p ps)) \<longleftrightarrow> fst p \<notin> fst ` set ps \<and> distinct (map fst ps)"
  by (induction ps) (auto simp: set_insort_key)

lemma distinct_sort_fst [simp]: "distinct (map fst (sort_key fst ps)) = distinct (map fst ps)"
  by (induction ps) auto

lemma map_of_sort_fst: "distinct (map fst ps) \<Longrightarrow> map_of (sort_key fst ps) = map_of ps"
  by (intro map_of_eqI) (auto simp: map_of_eq_Some_iff dest: map_of_SomeD intro: map_of_is_SomeI)

subsection \<open>Error results\<close>

text \<open>
  A Go function that returns \<open>(T, error)\<close> is modelled with the sum type: \<open>Inl\<close> holds
  the error, \<open>Inr\<close> the value. \<open>result_all\<close> is a loop over a slice that returns at the
  first error and threads the state.
\<close>

fun fold_err :: "('a \<Rightarrow> 's \<Rightarrow> 'e + 's) \<Rightarrow> 'a list \<Rightarrow> 's \<Rightarrow> 'e + 's" where
  "fold_err f [] s = Inr s"
| "fold_err f (x # xs) s = (case f x s of Inl e \<Rightarrow> Inl e | Inr s' \<Rightarrow> fold_err f xs s')"

lemma fold_err_append:
  "fold_err f (xs @ ys) s = (case fold_err f xs s of Inl e \<Rightarrow> Inl e | Inr s' \<Rightarrow> fold_err f ys s')"
  by (induction xs arbitrary: s) (auto split: sum.splits)

lemma fold_err_invariant:
  assumes "fold_err f xs s = Inr s'" and "P s"
    and "\<And>x t t'. x \<in> set xs \<Longrightarrow> P t \<Longrightarrow> f x t = Inr t' \<Longrightarrow> P t'"
  shows "P s'"
  using assms
proof (induction xs arbitrary: s)
  case Nil
  then show ?case by simp
next
  case (Cons x xs)
  from Cons.prems(1) obtain t where t: "f x s = Inr t" and r: "fold_err f xs t = Inr s'"
    by (auto split: sum.splits)
  have "P t" using Cons.prems(2,3) t by auto
  with r Cons.prems(3) show ?case by (auto intro: Cons.IH)
qed

lemma fold_err_unit: "fold_err f xs () = Inr () \<longleftrightarrow> (\<forall>x \<in> set xs. f x () = Inr ())"
  by (induction xs) (auto split: sum.splits)

lemma fold_err_Inl: "fold_err f xs s = Inl e \<Longrightarrow> \<exists>x \<in> set xs. \<exists>t. f x t = Inl e"
  by (induction xs arbitrary: s) (auto split: sum.splits)

lemma sum_unit_iff: "(\<forall>e. r \<noteq> Inl e) \<longleftrightarrow> r = Inr ()"
  by (cases r) auto

subsection \<open>Lists\<close>

lemma lex_append_eq:
  fixes xs ys :: "'a :: order list"
  assumes "length xs = length ys"
  shows "xs @ us < ys @ vs \<longleftrightarrow> xs < ys \<or> (xs = ys \<and> us < vs)"
  using assms by (induction xs ys rule: list_induct2) auto

lemma lex_same_prefix [simp]:
  fixes xs :: "'a :: order list"
  shows "xs @ us < xs @ vs \<longleftrightarrow> us < vs"
  by (induction xs) auto

lemma filter_all_id: "list_all P xs \<Longrightarrow> filter P xs = xs"
  by (induction xs) auto

subsection \<open>Strict total orders\<close>

text \<open>
  The interface behind every conflict rule: a strict total order. The lemmas are proved once
  and hold for the clock order of the replica, the order of hybrid timestamps and the order
  of the holders of a unique value.
\<close>

locale strict_order =
  fixes lt :: "'a \<Rightarrow> 'a \<Rightarrow> bool"
  assumes irrefl: "\<not> lt x x"
    and trans: "lt x y \<Longrightarrow> lt y z \<Longrightarrow> lt x z"
    and total: "x \<noteq> y \<Longrightarrow> lt x y \<or> lt y x"
begin

lemma asym: "lt x y \<Longrightarrow> \<not> lt y x"
  using irrefl trans by blast

lemma not_lt_iff: "\<not> lt x y \<longleftrightarrow> y = x \<or> lt y x"
  using total irrefl asym by blast

lemma not_lt_trans: "\<not> lt y x \<Longrightarrow> \<not> lt z y \<Longrightarrow> \<not> lt z x"
  using not_lt_iff trans by metis

lemma trichotomy: "lt x y \<or> x = y \<or> lt y x"
  using total by blast

lemma least_unique: "\<forall>y \<in> S. \<not> lt y x \<Longrightarrow> x \<in> S \<Longrightarrow> \<forall>y \<in> S. \<not> lt y x' \<Longrightarrow> x' \<in> S \<Longrightarrow> x = x'"
  using total by blast

end

subsection \<open>Canonical text encodings\<close>

text \<open>
  The interface of a text form with exactly one encoding per value: decoding an encoded value
  gives it back, and whatever decodes is the encoding of its value. Timestamps, file names and
  hashes of the sync protocol promise it.
\<close>

locale codec =
  fixes enc :: "'a \<Rightarrow> string"
    and dec :: "string \<Rightarrow> 'a option"
    and valid :: "'a \<Rightarrow> bool"
  assumes dec_enc: "valid x \<Longrightarrow> dec (enc x) = Some x"
    and enc_dec: "dec s = Some x \<Longrightarrow> valid x \<and> enc x = s"
begin

lemma dec_iff: "dec s = Some x \<longleftrightarrow> valid x \<and> s = enc x"
  using dec_enc enc_dec by blast

lemma enc_inj: "valid x \<Longrightarrow> valid y \<Longrightarrow> enc x = enc y \<longleftrightarrow> x = y"
  using dec_enc by (metis option.inject)

lemma dec_inj: "dec s = Some x \<Longrightarrow> dec t = Some x \<Longrightarrow> s = t"
  using enc_dec by blast

end

text \<open>An encoding whose bytewise order is the order of the values.\<close>

locale ordered_codec = codec enc dec valid + strict_order lt
  for enc :: "'a \<Rightarrow> string" and dec :: "string \<Rightarrow> 'a option" and valid :: "'a \<Rightarrow> bool"
    and lt :: "'a \<Rightarrow> 'a \<Rightarrow> bool" +
  assumes enc_less: "valid x \<Longrightarrow> valid y \<Longrightarrow> enc x < enc y \<longleftrightarrow> lt x y"
begin

lemma dec_less: "dec s = Some x \<Longrightarrow> dec t = Some y \<Longrightarrow> s < t \<longleftrightarrow> lt x y"
  using enc_dec enc_less by metis

lemma dec_le: "dec s = Some x \<Longrightarrow> dec t = Some y \<Longrightarrow> s \<le> t \<longleftrightarrow> \<not> lt y x"
  using dec_less by (metis leD leI)

end

end
