(* ===== verification/GoLib.thy ===== *)
theory GoLib
  imports Prelude
begin

text \<open>
  The parts of Go's standard library the modelled code rests on, on byte strings: fixed-width
  and minimal positional notation (\<open>fmt.Sprintf\<close> with \<open>%0wd\<close> and \<open>%0wx\<close>,
  \<open>strconv.FormatUint\<close>, \<open>strconv.ParseUint\<close>), prefix and suffix tests, the character
  classes of the regular expressions, and 64-bit wrap-around.
\<close>

abbreviation byte_of :: "char \<Rightarrow> nat" where
  "byte_of c \<equiv> of_char c"

definition u64 :: "nat \<Rightarrow> nat" where
  "u64 n = n mod 2 ^ 64"

text \<open>Two's complement wrap-around of Go's \<open>int64\<close>.\<close>

definition i64 :: "int \<Rightarrow> int" where
  "i64 x = (x + 2 ^ 63) mod 2 ^ 64 - 2 ^ 63"

lemma i64_id: "- (2 ^ 63) \<le> x \<Longrightarrow> x < 2 ^ 63 \<Longrightarrow> i64 x = x"
  by (simp add: i64_def)

lemma u64_id: "n < 2 ^ 64 \<Longrightarrow> u64 n = n"
  by (simp add: u64_def)

text \<open>Go's integer division and remainder truncate towards zero.\<close>

definition go_div :: "int \<Rightarrow> int \<Rightarrow> int" where
  "go_div a b = sgn a * sgn b * (\<bar>a\<bar> div \<bar>b\<bar>)"

definition go_mod :: "int \<Rightarrow> int \<Rightarrow> int" where
  "go_mod a b = a - b * go_div a b"

lemma go_div_nonneg: "0 \<le> a \<Longrightarrow> 0 < b \<Longrightarrow> go_div a b = a div b"
  by (cases "a = 0") (auto simp: go_div_def)

lemma go_mod_nonneg: "0 \<le> a \<Longrightarrow> 0 < b \<Longrightarrow> go_mod a b = a mod b"
  by (simp add: go_mod_def go_div_nonneg minus_mult_div_eq_mod)

subsection \<open>Character classes\<close>

definition in_range :: "char \<Rightarrow> char \<Rightarrow> char \<Rightarrow> bool" where
  "in_range lo hi c \<longleftrightarrow> byte_of lo \<le> byte_of c \<and> (byte_of c :: nat) \<le> byte_of hi"

definition is_dec :: "char \<Rightarrow> bool" where
  "is_dec = in_range CHR ''0'' CHR ''9''"

definition is_low :: "char \<Rightarrow> bool" where
  "is_low = in_range CHR ''a'' CHR ''z''"

definition is_up :: "char \<Rightarrow> bool" where
  "is_up = in_range CHR ''A'' CHR ''Z''"

definition is_lhex :: "char \<Rightarrow> bool" where
  "is_lhex c \<longleftrightarrow> is_dec c \<or> in_range CHR ''a'' CHR ''f'' c"

subsection \<open>Digits\<close>

definition digit_char :: "nat \<Rightarrow> char" where
  "digit_char d = char_of (if d < 10 then 48 + d else 87 + d)"

definition digit_val :: "char \<Rightarrow> nat option" where
  "digit_val c =
     (let n = byte_of c
      in if is_dec c then Some (n - 48)
         else if is_low c then Some (n - 87)
         else if is_up c then Some (n - 55)
         else None)"

lemma byte_digit_char: "d < 36 \<Longrightarrow> byte_of (digit_char d) = (if d < 10 then 48 + d else 87 + d)"
  by (auto simp: digit_char_def)

lemma digit_val_char [simp]: "d < 36 \<Longrightarrow> digit_val (digit_char d) = Some d"
  by (simp add: digit_val_def Let_def is_dec_def is_low_def in_range_def byte_digit_char)

lemma digit_char_less:
  "d < 36 \<Longrightarrow> e < 36 \<Longrightarrow> digit_char d < digit_char e \<longleftrightarrow> d < e"
  by (auto simp: less_char_def byte_digit_char)

lemma digit_char_inj: "d < 36 \<Longrightarrow> e < 36 \<Longrightarrow> digit_char d = digit_char e \<longleftrightarrow> d = e"
  by (metis digit_val_char option.inject)

lemma digit_char_0 [simp]: "digit_char 0 = CHR ''0''"
  by code_simp

lemma is_dec_digit: "is_dec (digit_char d) \<longleftrightarrow> d < 10" if "d < 36"
  using that by (auto simp: is_dec_def in_range_def byte_digit_char)

lemma is_lhex_digit: "is_lhex (digit_char d)" if "d < 16"
  using that by (auto simp: is_lhex_def is_dec_def in_range_def byte_digit_char)

lemma char_of_byte: "byte_of c = n \<Longrightarrow> c = char_of (n :: nat)"
  by (metis char_of_char)

lemma is_decE:
  assumes "is_dec c"
  obtains d where "d < 10" "c = digit_char d"
proof -
  let ?d = "byte_of c - 48 :: nat"
  have "48 \<le> (byte_of c :: nat)" "(byte_of c :: nat) \<le> 57"
    using assms by (auto simp: is_dec_def in_range_def)
  then have "?d < 10" "c = digit_char ?d"
    by (auto simp: digit_char_def)
  then show ?thesis by (rule that)
qed

lemma is_lhexE:
  assumes "is_lhex c" obtains d where "d < 16" "c = digit_char d"
proof (cases "is_dec c")
  case True
  then obtain d where "d < 10" "c = digit_char d" by (rule is_decE)
  then show ?thesis by (intro that [of d]) auto
next
  case False
  let ?d = "byte_of c - 87 :: nat"
  have "97 \<le> (byte_of c :: nat)" "(byte_of c :: nat) \<le> 102"
    using assms False by (auto simp: is_lhex_def in_range_def)
  then have "?d < 16" "\<not> ?d < 10" "87 + ?d = byte_of c" by auto
  moreover from this have "c = digit_char ?d"
    by (simp add: digit_char_def)
  ultimately show ?thesis using that by blast
qed

subsection \<open>Positional notation\<close>

fun fix_digits :: "nat \<Rightarrow> nat \<Rightarrow> nat \<Rightarrow> string" where
  "fix_digits b 0 v = []"
| "fix_digits b (Suc n) v = digit_char (v div b ^ n) # fix_digits b n (v mod b ^ n)"

lemma fix_digits_numeral:
  "fix_digits b (numeral k) v =
     digit_char (v div b ^ pred_numeral k) # fix_digits b (pred_numeral k) (v mod b ^ pred_numeral k)"
  by (simp add: numeral_eq_Suc)

function min_digits :: "nat \<Rightarrow> nat \<Rightarrow> string" where
  "min_digits b v =
     (if b < 2 \<or> v < b then [digit_char v] else min_digits b (v div b) @ [digit_char (v mod b)])"
  by pat_completeness auto
termination
  by (relation "measure snd") auto

declare min_digits.simps [simp del]

definition pad_zero :: "nat \<Rightarrow> string \<Rightarrow> string" where
  "pad_zero w s = replicate (w - length s) CHR ''0'' @ s"

definition fmt_uint :: "nat \<Rightarrow> nat \<Rightarrow> nat \<Rightarrow> string" where
  "fmt_uint b w v = pad_zero w (min_digits b v)"

fun parse_digits :: "nat \<Rightarrow> nat \<Rightarrow> string \<Rightarrow> nat option" where
  "parse_digits b acc [] = Some acc"
| "parse_digits b acc (c # cs) =
     (case digit_val c of
        None \<Rightarrow> None
      | Some d \<Rightarrow> if d < b then parse_digits b (acc * b + d) cs else None)"

text \<open>\<open>strconv.ParseUint(s, b, bits)\<close> for an explicit base: \<open>None\<close> is the syntax or range
  error.\<close>

definition parse_uint :: "nat \<Rightarrow> nat \<Rightarrow> string \<Rightarrow> nat option" where
  "parse_uint b bits s =
     (if s = [] then None
      else case parse_digits b 0 s of
             None \<Rightarrow> None
           | Some v \<Rightarrow> if v < 2 ^ bits then Some v else None)"

lemma length_fix_digits [simp]: "length (fix_digits b n v) = n"
  by (induction n arbitrary: v) auto

lemma fix_digits_snoc:
  assumes "2 \<le> b" and "v < b ^ Suc n"
  shows "fix_digits b (Suc n) v = fix_digits b n (v div b) @ [digit_char (v mod b)]"
  using assms(2)
proof (induction n arbitrary: v)
  case 0
  then show ?case by simp
next
  case (Suc n)
  let ?r = "v mod b ^ Suc n"
  have r: "?r = b * (v div b mod b ^ n) + v mod b"
    using mod_mult2_eq [of v b "b ^ n"] by simp
  have "?r < b ^ Suc n" using assms(1) by simp
  then have "fix_digits b (Suc n) ?r = fix_digits b n (?r div b) @ [digit_char (?r mod b)]"
    by (rule Suc.IH)
  moreover have "?r div b = v div b mod b ^ n" "?r mod b = v mod b"
    using r assms(1) by (auto simp del: power_Suc)
  moreover have "v div b ^ Suc n = v div b div b ^ n"
    by (simp add: div_mult2_eq)
  ultimately show ?case by (simp del: power_Suc)
qed

lemma length_min_digits_le:
  "2 \<le> b \<Longrightarrow> v < b ^ Suc n \<Longrightarrow> length (min_digits b v) \<le> Suc n"
proof (induction n arbitrary: v)
  case 0
  then show ?case by (simp add: min_digits.simps [of b v])
next
  case (Suc n)
  have "v div b < b ^ Suc n"
    using Suc.prems by (simp add: less_mult_imp_div_less mult.commute)
  with Suc show ?case by (simp add: min_digits.simps [of b v])
qed

lemma fmt_uint_fix_Suc:
  assumes "2 \<le> b" and "v < b ^ Suc n"
  shows "fmt_uint b (Suc n) v = fix_digits b (Suc n) v"
  using assms(2)
proof (induction n arbitrary: v)
  case 0
  with assms(1) show ?case by (simp add: fmt_uint_def pad_zero_def min_digits.simps [of b v])
next
  case (Suc n)
  show ?case
  proof (cases "v < b")
    case True
    have zero: "fix_digits b k 0 = replicate k CHR ''0''" for k
      by (induction k) auto
    have "v div b = 0" "v mod b = v" using True by auto
    with fix_digits_snoc [OF assms(1) Suc.prems] True assms(1) show ?thesis
      by (simp add: fmt_uint_def pad_zero_def min_digits.simps [of b v] zero del: fix_digits.simps)
  next
    case False
    have q: "v div b < b ^ Suc n"
      using Suc.prems by (simp add: less_mult_imp_div_less mult.commute)
    have "fmt_uint b (Suc (Suc n)) v = fmt_uint b (Suc n) (v div b) @ [digit_char (v mod b)]"
      using False assms(1) by (simp add: fmt_uint_def pad_zero_def min_digits.simps [of b v])
    with Suc.IH [OF q] fix_digits_snoc [OF assms(1) Suc.prems] show ?thesis by simp
  qed
qed

lemma fmt_uint_fix: "0 < w \<Longrightarrow> 2 \<le> b \<Longrightarrow> v < b ^ w \<Longrightarrow> fmt_uint b w v = fix_digits b w v"
  by (metis Suc_pred fmt_uint_fix_Suc)

lemma length_fmt_uint: "0 < w \<Longrightarrow> 2 \<le> b \<Longrightarrow> v < b ^ w \<Longrightarrow> length (fmt_uint b w v) = w"
  by (simp add: fmt_uint_fix)

text \<open>Wider numbers are printed with more digits than the field width.\<close>

lemma length_min_digits_ge:
  "2 \<le> b \<Longrightarrow> b ^ n \<le> v \<Longrightarrow> n < length (min_digits b v)"
proof (induction n arbitrary: v)
  case 0
  then show ?case by (simp add: min_digits.simps [of b v])
next
  case (Suc n)
  have "b \<le> b ^ Suc n" using Suc.prems(1) by simp
  then have "\<not> v < b" using Suc.prems(2) by linarith
  moreover have "b ^ n \<le> v div b"
    using Suc.prems by (simp add: less_eq_div_iff_mult_less_eq mult.commute)
  ultimately show ?case using Suc.IH [of "v div b"] Suc.prems(1)
    by (simp add: min_digits.simps [of b v])
qed

lemma length_fmt_uint_ge:
  "2 \<le> b \<Longrightarrow> b ^ n \<le> v \<Longrightarrow> n < length (fmt_uint b n v)"
  using length_min_digits_ge [of b n v] by (simp add: fmt_uint_def pad_zero_def)

lemma fix_digits_less:
  assumes "2 \<le> b" "b \<le> 36" "u < b ^ n" "v < b ^ n"
  shows "fix_digits b n u < fix_digits b n v \<longleftrightarrow> u < v"
  using assms(3,4)
proof (induction n arbitrary: u v)
  case 0
  then show ?case by simp
next
  case (Suc n)
  let ?p = "b ^ n"
  have p: "0 < ?p" using assms(1) by simp
  have d: "u div ?p < b" "v div ?p < b"
    using Suc.prems by (auto simp: less_mult_imp_div_less)
  have IH: "fix_digits b n (u mod ?p) < fix_digits b n (v mod ?p) \<longleftrightarrow> u mod ?p < v mod ?p"
    using p by (intro Suc.IH) auto
  have "u < v \<longleftrightarrow> u div ?p < v div ?p \<or> u div ?p = v div ?p \<and> u mod ?p < v mod ?p"
    by (metis div_le_mono div_mult_mod_eq linorder_not_less nat_add_left_cancel_less nat_less_le)
  then show ?case using d assms(2) IH by (simp add: digit_char_less digit_char_inj)
qed

lemma fix_digits_inj:
  "2 \<le> b \<Longrightarrow> b \<le> 36 \<Longrightarrow> u < b ^ n \<Longrightarrow> v < b ^ n \<Longrightarrow> fix_digits b n u = fix_digits b n v \<longleftrightarrow> u = v"
  by (metis fix_digits_less less_irrefl linorder_less_linear)

lemma parse_fix_digits:
  assumes "2 \<le> b" "b \<le> 36"
  shows "v < b ^ n \<Longrightarrow> parse_digits b acc (fix_digits b n v) = Some (acc * b ^ n + v)"
proof (induction n arbitrary: v acc)
  case 0
  then show ?case by simp
next
  case (Suc n)
  let ?p = "b ^ n"
  have d: "v div ?p < b" using Suc.prems by (auto simp: less_mult_imp_div_less)
  have "v mod ?p < ?p" using assms(1) by simp
  from Suc.IH [OF this] d assms(2) show ?case
    by (simp add: algebra_simps mod_mult_div_eq)
qed

lemma min_digits_fix:
  assumes "2 \<le> b"
  shows "\<exists>n. v < b ^ Suc n \<and> min_digits b v = fix_digits b (Suc n) v"
  using assms
proof (induction b v rule: min_digits.induct)
  case (1 b v)
  show ?case
  proof (cases "v < b")
    case True
    with 1(2) show ?thesis by (intro exI [of _ 0]) (simp add: min_digits.simps [of b v])
  next
    case False
    then obtain n where n: "v div b < b ^ Suc n" "min_digits b (v div b) = fix_digits b (Suc n) (v div b)"
      using 1 by auto
    from n(1) have "v < b ^ Suc (Suc n)"
      using 1(2) by (simp add: div_less_iff_less_mult mult.commute)
    with n(2) False 1(2) show ?thesis
      using fix_digits_snoc [of b v "Suc n"] by (intro exI [of _ "Suc n"]) (simp add: min_digits.simps [of b v])
  qed
qed

lemma min_digits_eq_fix:
  assumes "2 \<le> b" "b ^ n \<le> v" "v < b ^ Suc n"
  shows "min_digits b v = fix_digits b (Suc n) v"
proof -
  obtain k where k: "v < b ^ Suc k" "min_digits b v = fix_digits b (Suc k) v"
    using min_digits_fix [OF assms(1)] by blast
  have "length (min_digits b v) \<le> Suc n" "n < length (min_digits b v)"
    using length_min_digits_le [OF assms(1,3)] length_min_digits_ge [OF assms(1,2)] by auto
  then have "length (min_digits b v) = Suc n" by simp
  moreover have "length (min_digits b v) = Suc k" using k(2) by (simp only: length_fix_digits)
  ultimately show ?thesis using k(2) by simp
qed

lemma parse_min_digits:
  "2 \<le> b \<Longrightarrow> b \<le> 36 \<Longrightarrow> parse_digits b 0 (min_digits b v) = Some v"
  using min_digits_fix [of b v] parse_fix_digits [of b v _ 0] by fastforce

lemma min_digits_nonempty [simp]: "min_digits b v \<noteq> []"
  by (subst min_digits.simps) simp

lemma parse_uint_min:
  "2 \<le> b \<Longrightarrow> b \<le> 36 \<Longrightarrow> v < 2 ^ bits \<Longrightarrow> parse_uint b bits (min_digits b v) = Some v"
  by (simp add: parse_uint_def parse_min_digits)

text \<open>A string of digits of base \<open>b\<close> is the fixed-width form of the number it denotes.\<close>

lemma digits_are_fix:
  assumes "2 \<le> b" "b \<le> 36" and "list_all (\<lambda>c. \<exists>d < b. c = digit_char d) s"
  shows "\<exists>v < b ^ length s. s = fix_digits b (length s) v"
  using assms(3)
proof (induction s)
  case Nil
  then show ?case by simp
next
  case (Cons c s)
  then obtain d v where d: "d < b" "c = digit_char d"
    and v: "v < b ^ length s" "s = fix_digits b (length s) v" by auto
  let ?p = "b ^ length s" let ?v = "d * ?p + v"
  have "0 < ?p" using assms(1) by simp
  then have "?v div ?p = d" "?v mod ?p = v" using v(1) by auto
  then have "c # s = fix_digits b (length (c # s)) ?v" using d(2) v(2) by simp
  moreover have "?v < b ^ length (c # s)"
  proof -
    have "?v < Suc d * ?p" using v(1) by simp
    also have "\<dots> \<le> b * ?p" using d(1) by (intro mult_right_mono) auto
    finally show ?thesis by simp
  qed
  ultimately show ?case by blast
qed

lemma dec_fix: "list_all is_dec s \<Longrightarrow> \<exists>v < 10 ^ length s. s = fix_digits 10 (length s) v"
  by (rule digits_are_fix) (auto simp: list_all_iff elim: is_decE)

lemma lhex_fix: "list_all is_lhex s \<Longrightarrow> \<exists>v < 16 ^ length s. s = fix_digits 16 (length s) v"
  by (rule digits_are_fix) (auto simp: list_all_iff elim: is_lhexE)

lemma fix_digits_dec: "v < 10 ^ n \<Longrightarrow> list_all is_dec (fix_digits 10 n v)"
proof (induction n arbitrary: v)
  case (Suc n)
  then have "v div 10 ^ n < 10" by (auto simp: less_mult_imp_div_less)
  with Suc.IH [of "v mod 10 ^ n"] show ?case by (simp add: is_dec_digit)
qed simp

lemma fix_digits_lhex: "v < 16 ^ n \<Longrightarrow> list_all is_lhex (fix_digits 16 n v)"
proof (induction n arbitrary: v)
  case (Suc n)
  then have "v div 16 ^ n < 16" by (auto simp: less_mult_imp_div_less)
  with Suc.IH [of "v mod 16 ^ n"] show ?case by (simp add: is_lhex_digit)
qed simp

text \<open>Digits without a leading zero are the minimal form of a positive number.\<close>

lemma min_digits_dec:
  assumes "list_all is_dec d" "d \<noteq> []" "hd d \<noteq> CHR ''0''"
  shows "\<exists>n. 0 < n \<and> n < 10 ^ length d \<and> d = min_digits 10 n"
proof -
  obtain k where k: "length d = Suc k" using assms(2) by (cases d) auto
  obtain v where v: "v < 10 ^ Suc k" "d = fix_digits 10 (Suc k) v"
    using dec_fix [OF assms(1)] k by auto
  have "v div 10 ^ k \<noteq> 0" using assms(3) v(2) digit_char_0 by (metis fix_digits.simps(2) list.sel(1))
  then have ge: "10 ^ k \<le> v" by (meson div_eq_0_iff linorder_not_less)
  then have "0 < v" by (meson less_le_trans zero_less_numeral zero_less_power)
  with min_digits_eq_fix [OF _ ge v(1)] v k show ?thesis by (intro exI [of _ v]) simp
qed

lemma min_digits_shape:
  assumes "0 < n" "n < 10 ^ k"
  shows "list_all is_dec (min_digits 10 n)" "hd (min_digits 10 n) \<noteq> CHR ''0''"
    "length (min_digits 10 n) \<le> k"
proof -
  obtain j where j: "n < 10 ^ Suc j" "min_digits 10 n = fix_digits 10 (Suc j) n"
    using min_digits_fix [of 10 n] by auto
  then show "list_all is_dec (min_digits 10 n)" by (simp only: fix_digits_dec)
  have "k \<noteq> 0" using assms by (cases k) auto
  then obtain i where "k = Suc i" by (cases k) auto
  with assms(2) show "length (min_digits 10 n) \<le> k"
    using length_min_digits_le [of 10 n i] by simp
  have "10 ^ j \<le> n"
  proof (rule ccontr)
    assume "\<not> 10 ^ j \<le> n"
    then have "n < 10 ^ j" by simp
    moreover have "j \<noteq> 0" using calculation assms(1) by (cases j) auto
    then obtain i where "j = Suc i" by (cases j) auto
    ultimately have "length (min_digits 10 n) \<le> j" using length_min_digits_le [of 10 n i] by simp
    with j(2) show False by (simp only: length_fix_digits)
  qed
  then have "n div 10 ^ j \<noteq> 0" "n div 10 ^ j < 10"
    using j(1) by (auto simp: div_eq_0_iff less_mult_imp_div_less)
  then have "digit_char (n div 10 ^ j) \<noteq> CHR ''0''"
    using digit_char_inj [of "n div 10 ^ j" 0] by simp
  with j(2) show "hd (min_digits 10 n) \<noteq> CHR ''0''" by simp
qed

lemma parse_uint_fix:
  "2 \<le> b \<Longrightarrow> b \<le> 36 \<Longrightarrow> 0 < n \<Longrightarrow> v < b ^ n \<Longrightarrow> v < 2 ^ bits \<Longrightarrow>
   parse_uint b bits (fix_digits b n v) = Some v"
  using parse_fix_digits [of b v n 0] by (cases n) (auto simp: parse_uint_def)

subsection \<open>Prefixes and fixed pieces of a string\<close>

text \<open>\<open>strings.CutPrefix\<close>: the rest after the prefix, or \<open>None\<close>.\<close>

fun cut_prefix :: "string \<Rightarrow> string \<Rightarrow> string option" where
  "cut_prefix [] s = Some s"
| "cut_prefix (p # ps) [] = None"
| "cut_prefix (p # ps) (c # cs) = (if p = c then cut_prefix ps cs else None)"

text \<open>
  One factor \<open>[class]{n}\<close> of a regular expression: the first \<open>n\<close> characters, all of the
  class, and the rest.
\<close>

definition take_class :: "(char \<Rightarrow> bool) \<Rightarrow> nat \<Rightarrow> string \<Rightarrow> (string \<times> string) option" where
  "take_class P n s =
     (if n \<le> length s \<and> list_all P (take n s) then Some (take n s, drop n s) else None)"

text \<open>
  A factor \<open>[class]+\<close>. In every regular expression modelled here the next character of the
  expression is outside the class, so the greedy match is the only possible one.
\<close>

definition span_class :: "(char \<Rightarrow> bool) \<Rightarrow> string \<Rightarrow> (string \<times> string) option" where
  "span_class P s = (if takeWhile P s = [] then None else Some (takeWhile P s, dropWhile P s))"

lemma cut_prefix_iff [codec_simps]: "cut_prefix p s = Some r \<longleftrightarrow> s = p @ r"
  by (induction p s rule: cut_prefix.induct) auto

lemma cut_prefix_append [simp]: "cut_prefix p (p @ r) = Some r"
  by (simp add: cut_prefix_iff)

lemma take_class_iff [codec_simps]:
  "take_class P n s = Some (a, r) \<longleftrightarrow> s = a @ r \<and> length a = n \<and> list_all P a"
  by (auto simp: take_class_def min_def)

lemma take_class_append: "length a = n \<Longrightarrow> list_all P a \<Longrightarrow> take_class P n (a @ r) = Some (a, r)"
  by (simp add: take_class_iff)

lemma span_class_Some:
  "span_class P s = Some (a, r) \<Longrightarrow> s = a @ r \<and> a \<noteq> [] \<and> list_all P a"
  by (auto simp: span_class_def list_all_iff split: if_splits dest: set_takeWhileD)

lemma span_class_append:
  assumes "a \<noteq> []" "list_all P a" "r = [] \<or> \<not> P (hd r)"
  shows "span_class P (a @ r) = Some (a, r)"
proof -
  have "takeWhile P r = []" "dropWhile P r = r"
    using assms(3) by (cases r; simp)+
  then show ?thesis using assms(1,2)
    by (simp add: span_class_def list_all_iff takeWhile_append dropWhile_append)
qed

end
