(* ===== verification/Wire.thy ===== *)
theory Wire
  imports GoLib
begin

text \<open>
  The encodings of \<open>server/internal/sync/wire/wire.go\<close>: strict base64url without padding,
  the \<open>sha256:\<close> form of hashes, public keys and detached signatures. SHA-256 and Ed25519 are
  the fields of \<open>crypto\<close>, a parameter of every definition that uses them.
\<close>

record crypto =
  sha256 :: "bytes \<Rightarrow> bytes"
  ed_public :: "bytes \<Rightarrow> bytes"
  ed_sign :: "bytes \<Rightarrow> bytes \<Rightarrow> bytes"
  ed_verify :: "bytes \<Rightarrow> bytes \<Rightarrow> bytes \<Rightarrow> bool"

text \<open>
  What the code relies on: digests have 32 bytes, public keys 32, signatures 64, and a signature
  verifies under the public key of the key that made it.
\<close>

definition crypto_ok :: "('c) crypto_scheme \<Rightarrow> bool" where
  "crypto_ok C \<longleftrightarrow> (\<forall>m. length (sha256 C m) = 32) \<and> (\<forall>k. length (ed_public C k) = 32)
     \<and> (\<forall>k m. length (ed_sign C k m) = 64)
     \<and> (\<forall>k m. ed_verify C (ed_public C k) m (ed_sign C k m))"

text \<open>A concrete instance, for applying the theorems: padding in place of hashing.\<close>

definition pad_to :: "nat \<Rightarrow> bytes \<Rightarrow> bytes" where
  "pad_to n m = take n (m @ replicate n (CHR 0x00))"

definition toy_crypto :: crypto where
  "toy_crypto = \<lparr>sha256 = pad_to 32, ed_public = pad_to 32,
     ed_sign = \<lambda>k m. pad_to 32 k @ pad_to 32 m, ed_verify = \<lambda>p m s. s = p @ pad_to 32 m\<rparr>"

lemma length_pad_to [simp]: "length (pad_to n m) = n"
  by (simp add: pad_to_def)

lemma toy_crypto_ok: "crypto_ok toy_crypto"
  by (simp add: crypto_ok_def toy_crypto_def)

subsection \<open>Base64url without padding\<close>

definition b64_char :: "nat \<Rightarrow> char" where
  "b64_char v = char_of (if v < 26 then 65 + v else if v < 52 then 71 + v else if v < 62 then v - 4
     else if v = 62 then 45 else 95 :: nat)"

definition b64_val :: "char \<Rightarrow> nat option" where
  "b64_val c =
     (let n = byte_of c
      in if is_up c then Some (n - 65)
         else if is_low c then Some (n - 71)
         else if is_dec c then Some (n + 4)
         else if n = 45 then Some 62
         else if n = 95 then Some 63
         else None)"

fun enc64 :: "bytes \<Rightarrow> string" where
  "enc64 [] = []"
| "enc64 [a] =
     (let x = byte_of a in [b64_char (x div 4), b64_char (x mod 4 * 16)])"
| "enc64 [a, b] =
     (let x = byte_of a; y = byte_of b
      in [b64_char (x div 4), b64_char (x mod 4 * 16 + y div 16), b64_char (y mod 16 * 4)])"
| "enc64 (a # b # c # r) =
     (let x = byte_of a; y = byte_of b; z = byte_of c
      in b64_char (x div 4) # b64_char (x mod 4 * 16 + y div 16)
         # b64_char (y mod 16 * 4 + z div 64) # b64_char (z mod 64) # enc64 r)"

text \<open>
  \<open>RawURLEncoding.Strict()\<close> on text without line breaks: full groups of four characters, then
  an optional partial group whose unused bits must be zero.
\<close>

fun dec64 :: "string \<Rightarrow> bytes option" where
  "dec64 [] = Some []"
| "dec64 [a] = None"
| "dec64 [a, b] =
     (case (b64_val a, b64_val b) of
        (Some x, Some y) \<Rightarrow> if y mod 16 = 0 then Some [char_of (x * 4 + y div 16)] else None
      | _ \<Rightarrow> None)"
| "dec64 [a, b, c] =
     (case (b64_val a, b64_val b, b64_val c) of
        (Some x, Some y, Some z) \<Rightarrow>
          if z mod 4 = 0 then Some [char_of (x * 4 + y div 16), char_of (y mod 16 * 16 + z div 4)]
          else None
      | _ \<Rightarrow> None)"
| "dec64 (a # b # c # d # r) =
     (case (b64_val a, b64_val b, b64_val c, b64_val d, dec64 r) of
        (Some x, Some y, Some z, Some w, Some bs) \<Rightarrow>
          Some (char_of (x * 4 + y div 16) # char_of (y mod 16 * 16 + z div 4)
                # char_of (z mod 4 * 64 + w) # bs)
      | _ \<Rightarrow> None)"

definition is_newline :: "char \<Rightarrow> bool" where
  "is_newline c \<longleftrightarrow> byte_of c = (10 :: nat) \<or> byte_of c = (13 :: nat)"

definition EncodeB64 :: "bytes \<Rightarrow> string" where
  "EncodeB64 b = enc64 b"

text \<open>The decoder of \<open>encoding/base64\<close> skips line breaks wherever they occur.\<close>

definition DecodeB64 :: "string \<Rightarrow> bytes option" where
  "DecodeB64 s = dec64 (filter (\<lambda>c. \<not> is_newline c) s)"

lemma byte_b64_char: "v < 64 \<Longrightarrow> byte_of (b64_char v) =
    (if v < 26 then 65 + v else if v < 52 then 71 + v else if v < 62 then v - 4
     else if v = 62 then 45 else (95 :: nat))"
  by (auto simp: b64_char_def)

lemma b64_val_char [simp]: "v < 64 \<Longrightarrow> b64_val (b64_char v) = Some v"
  by (simp add: b64_val_def Let_def is_up_def is_low_def is_dec_def in_range_def byte_b64_char) linarith

lemma b64_valD:
  assumes "b64_val c = Some v"
  shows "v < 64 \<and> b64_char v = c"
proof -
  have "(if v < 26 then 65 + v else if v < 52 then 71 + v else if v < 62 then v - 4
     else if v = 62 then 45 else 95) = (byte_of c :: nat) \<and> v < 64"
    using assms by (auto simp: b64_val_def Let_def is_up_def is_low_def is_dec_def
        in_range_def split: if_splits)
  then show ?thesis by (simp only: b64_char_def char_of_char)
qed

lemma b64_char_no_newline: "v < 64 \<Longrightarrow> \<not> is_newline (b64_char v)"
  by (simp add: is_newline_def byte_b64_char) linarith

lemma byte_bound: "(byte_of c :: nat) < 256"
  by simp

lemma group_first: "q < 16 \<Longrightarrow> x div 4 * 4 + (x mod 4 * 16 + q) div 16 = (x :: nat)"
  by simp

lemma group_second:
  assumes "y < 256" "r < 4"
  shows "(x mod 4 * 16 + y div 16) mod 16 * 16 + (y mod 16 * 4 + r) div 4 = (y :: nat)"
proof -
  have "y div 16 < 16" using assms(1) by (simp add: less_mult_imp_div_less)
  then have "(x mod 4 * 16 + y div 16) mod 16 = y div 16" by simp
  moreover have "(y mod 16 * 4 + r) div 4 = y mod 16" using assms(2) by simp
  ultimately show ?thesis by (simp only: div_mult_mod_eq)
qed

lemma group_third:
  assumes "z < 256"
  shows "(y mod 16 * 4 + z div 64) mod 4 * 64 + z mod 64 = (z :: nat)"
proof -
  have "z div 64 < 4" using assms by (simp add: less_mult_imp_div_less)
  then have "(y mod 16 * 4 + z div 64) mod 4 = z div 64" by simp
  then show ?thesis by (simp only: div_mult_mod_eq)
qed

text \<open>The inverse direction: the bytes of a group determine its characters.\<close>

lemma join_first: "y < 64 \<Longrightarrow> (x * 4 + y div 16) div 4 = x \<and> (x * 4 + y div 16) mod 4 = (y div 16 :: nat)"
  by (simp add: less_mult_imp_div_less)

lemma join_second:
  "z < 64 \<Longrightarrow> (y mod 16 * 16 + z div 4) div 16 = y mod 16 \<and> (y mod 16 * 16 + z div 4) mod 16 = (z div 4 :: nat)"
  by (simp add: less_mult_imp_div_less)

lemma join_third: "w < 64 \<Longrightarrow> (z mod 4 * 64 + w) div 64 = z mod 4 \<and> (z mod 4 * 64 + w) mod 64 = (w :: nat)"
  by simp

lemma join_bytes:
  "x < 64 \<Longrightarrow> y < 64 \<Longrightarrow> (x * 4 + y div 16) mod 256 = (x * 4 + y div 16 :: nat)"
  "z < 64 \<Longrightarrow> (y mod 16 * 16 + z div 4) mod 256 = (y mod 16 * 16 + z div 4 :: nat)"
  "w < 64 \<Longrightarrow> (z mod 4 * 64 + w) mod 256 = (z mod 4 * 64 + w :: nat)"
proof -
  show "x < 64 \<Longrightarrow> y < 64 \<Longrightarrow> (x * 4 + y div 16) mod 256 = x * 4 + y div 16" by simp
  show "z < 64 \<Longrightarrow> (y mod 16 * 16 + z div 4) mod 256 = y mod 16 * 16 + z div 4" by simp
  show "w < 64 \<Longrightarrow> (z mod 4 * 64 + w) mod 256 = z mod 4 * 64 + w" by simp
qed

lemma zero_tail: "y mod 16 = 0 \<Longrightarrow> y div 16 * 16 = (y :: nat)" "z mod 4 = 0 \<Longrightarrow> z div 4 * 4 = (z :: nat)"
  by presburger+

lemma sextets: "x < 256 \<Longrightarrow> x div 4 < (64 :: nat)" "y < 256 \<Longrightarrow> x mod 4 * 16 + y div 16 < (64 :: nat)"
  "z < 256 \<Longrightarrow> y mod 16 * 4 + z div 64 < (64 :: nat)" "x mod 4 * 16 < (64 :: nat)" "y mod 16 * 4 < (64 :: nat)"
  by auto

lemma dec_enc64: "dec64 (enc64 b) = Some b"
proof (induction b rule: enc64.induct)
  case 1
  then show ?case by simp
next
  case (2 a)
  show ?case using group_first [of 0 "byte_of a"] by (simp add: Let_def sextets)
next
  case (3 a b)
  show ?case using group_first [of "byte_of b div 16" "byte_of a"]
      group_second [of "byte_of b" 0 "byte_of a"] byte_bound [of b]
    by (simp add: Let_def sextets less_mult_imp_div_less)
next
  case (4 a b c r)
  show ?case using group_first [of "byte_of b div 16" "byte_of a"]
      group_second [of "byte_of b" "byte_of c div 64" "byte_of a"] group_third [of "byte_of c" "byte_of b"]
      byte_bound [of b] byte_bound [of c] 4
    by (simp add: Let_def sextets less_mult_imp_div_less)
qed

lemma enc_dec64: "dec64 s = Some out \<Longrightarrow> enc64 out = s"
proof (induction s arbitrary: out rule: dec64.induct)
  case (3 a b)
  then obtain x y where v: "b64_val a = Some x" "b64_val b = Some y" "y mod 16 = 0"
    and bs: "out = [char_of (x * 4 + y div 16)]"
    by (auto split: option.splits if_splits)
  note x = b64_valD [OF v(1)] and y = b64_valD [OF v(2)]
  show ?case using bs x y v(3) join_first [of y x] zero_tail(1) [of y]
    by (simp add: Let_def join_bytes)
next
  case (4 a b c)
  then obtain x y z where v: "b64_val a = Some x" "b64_val b = Some y" "b64_val c = Some z" "z mod 4 = 0"
    and bs: "out = [char_of (x * 4 + y div 16), char_of (y mod 16 * 16 + z div 4)]"
    by (auto split: option.splits if_splits)
  note x = b64_valD [OF v(1)] and y = b64_valD [OF v(2)] and z = b64_valD [OF v(3)]
  show ?case using bs x y z v(4) join_first [of y x] join_second [of z y] zero_tail(2) [of z]
    by (simp add: Let_def join_bytes)
next
  case (5 a b c d r)
  then obtain x y z w bs where v: "b64_val a = Some x" "b64_val b = Some y" "b64_val c = Some z"
      "b64_val d = Some w" "dec64 r = Some bs"
    and bs: "out = char_of (x * 4 + y div 16) # char_of (y mod 16 * 16 + z div 4)
                # char_of (z mod 4 * 64 + w) # bs"
    by (auto split: option.splits)
  note x = b64_valD [OF v(1)] and y = b64_valD [OF v(2)] and z = b64_valD [OF v(3)] and w = b64_valD [OF v(4)]
  have "enc64 bs = r" using 5 v by blast
  then show ?case using bs x y z w join_first [of y x] join_second [of z y] join_third [of w z]
    by (simp add: Let_def join_bytes)
qed auto

definition is_b64 :: "char \<Rightarrow> bool" where
  "is_b64 c \<longleftrightarrow> b64_val c \<noteq> None"

lemma enc64_chars: "list_all is_b64 (enc64 b)"
  by (induction b rule: enc64.induct) (simp_all add: Let_def is_b64_def sextets)

lemma is_b64_no_newline: "is_b64 c \<Longrightarrow> \<not> is_newline c"
  using b64_valD b64_char_no_newline by (auto simp: is_b64_def)

lemma filter_enc64: "filter (\<lambda>c. \<not> is_newline c) (enc64 b) = enc64 b"
  using enc64_chars [of b] by (auto simp: list_all_iff filter_id_conv is_b64_no_newline)

interpretation b64: codec enc64 dec64 "\<lambda>_. True"
  by unfold_locales (auto simp: dec_enc64 enc_dec64)

lemma DecodeB64_iff [codec_simps]:
  "DecodeB64 s = Some b \<longleftrightarrow> filter (\<lambda>c. \<not> is_newline c) s = EncodeB64 b"
  using b64.dec_iff [of "filter (\<lambda>c. \<not> is_newline c) s" b] by (auto simp: DecodeB64_def EncodeB64_def)

lemma DecodeB64_Encode [simp]: "DecodeB64 (EncodeB64 b) = Some b"
  by (simp add: DecodeB64_iff) (simp add: EncodeB64_def filter_enc64)

lemma EncodeB64_inj [simp]: "EncodeB64 a = EncodeB64 b \<longleftrightarrow> a = b"
  by (simp add: EncodeB64_def b64.enc_inj)

subsection \<open>Hashes and keys\<close>

definition HashPrefix :: string where
  "HashPrefix = ''sha256:''"

definition FormatHash :: "bytes \<Rightarrow> string" where
  "FormatHash digest = HashPrefix @ EncodeB64 digest"

definition Hash :: "('c) crypto_scheme \<Rightarrow> bytes \<Rightarrow> string" where
  "Hash C data = FormatHash (sha256 C data)"

definition ParseHash :: "string \<Rightarrow> bytes option" where
  "ParseHash s =
     (case cut_prefix HashPrefix s of
        None \<Rightarrow> None
      | Some rest \<Rightarrow>
          (case DecodeB64 rest of
             None \<Rightarrow> None
           | Some b \<Rightarrow> if length b \<noteq> 32 then None else Some b))"

definition ParsePublicKey :: "string \<Rightarrow> bytes option" where
  "ParsePublicKey s =
     (case DecodeB64 s of
        None \<Rightarrow> None
      | Some b \<Rightarrow> if length b \<noteq> 32 then None else Some b)"

lemma ParseHash_Format: "length d = 32 \<Longrightarrow> ParseHash (FormatHash d) = Some d"
  by (simp add: ParseHash_def FormatHash_def)

lemma FormatHash_inj [simp]: "FormatHash a = FormatHash b \<longleftrightarrow> a = b"
  by (simp add: FormatHash_def)

lemma ParsePublicKey_Encode: "length p = 32 \<Longrightarrow> ParsePublicKey (EncodeB64 p) = Some p"
  by (simp add: ParsePublicKey_def)

lemma ParsePublicKey_length: "ParsePublicKey s = Some p \<Longrightarrow> length p = 32"
  by (auto simp: ParsePublicKey_def split: option.splits if_splits)

lemma FormatHash_nonempty [simp]: "FormatHash d \<noteq> []"
  by (simp add: FormatHash_def HashPrefix_def)

lemma Hash_nonempty [simp]: "Hash C d \<noteq> []"
  by (simp add: Hash_def)

subsection \<open>Trimming white space\<close>

text \<open>The UTF-8 encodings of the characters Go counts as white space.\<close>

definition space_runes :: "string list" where
  "space_runes =
     map (map char_of)
       ([[9], [10], [11], [12], [13], [32], [0xC2, 0x85], [0xC2, 0xA0], [0xE1, 0x9A, 0x80]]
        @ map (\<lambda>n. [0xE2, 0x80, 0x80 + n]) [0..<11]
        @ [[0xE2, 0x80, 0xA8], [0xE2, 0x80, 0xA9], [0xE2, 0x80, 0xAF], [0xE2, 0x81, 0x9F],
           [0xE3, 0x80, 0x80 :: nat]])"

definition drop_rune :: "string list \<Rightarrow> string \<Rightarrow> string option" where
  "drop_rune runes s =
     (case find (\<lambda>r. r \<noteq> [] \<and> take (length r) s = r) runes of
        None \<Rightarrow> None
      | Some r \<Rightarrow> Some (drop (length r) s))"

lemma drop_rune_shorter: "drop_rune runes s = Some t \<Longrightarrow> length t < length s"
  by (cases s) (auto simp: drop_rune_def find_Some_iff split: option.splits)

function trim_runes :: "string list \<Rightarrow> string \<Rightarrow> string" where
  "trim_runes runes s = (case drop_rune runes s of None \<Rightarrow> s | Some t \<Rightarrow> trim_runes runes t)"
  by pat_completeness auto
termination
  by (relation "measure (length \<circ> snd)") (auto simp: drop_rune_shorter)

declare trim_runes.simps [simp del]

definition TrimSpace :: "string \<Rightarrow> string" where
  "TrimSpace s = rev (trim_runes (map rev space_runes) (rev (trim_runes space_runes s)))"

subsection \<open>Detached signatures\<close>

definition wire_sign :: "('c) crypto_scheme \<Rightarrow> bytes \<Rightarrow> bytes \<Rightarrow> bytes" where
  "wire_sign C priv data = EncodeB64 (ed_sign C priv data)"

definition wire_verify :: "('c) crypto_scheme \<Rightarrow> bytes \<Rightarrow> bytes \<Rightarrow> bytes \<Rightarrow> bool" where
  "wire_verify C pub data sigFile =
     (case DecodeB64 (TrimSpace sigFile) of
        None \<Rightarrow> False
      | Some sig \<Rightarrow>
          if length sig \<noteq> 64 then False
          else if length pub \<noteq> 32 \<or> \<not> ed_verify C pub data sig then False
          else True)"

lemma drop_rune_None:
  assumes "s \<noteq> []" "\<forall>r \<in> set runes. r \<noteq> [] \<longrightarrow> hd r \<noteq> hd s"
  shows "drop_rune runes s = None"
proof -
  have "\<forall>r \<in> set runes. \<not> (r \<noteq> [] \<and> take (length r) s = r)"
    using assms by (metis hd_take length_greater_0_conv)
  then show ?thesis by (simp add: drop_rune_def find_None_iff split: option.splits)
qed

lemma space_rune_heads: "list_all (\<lambda>r. \<not> is_b64 (hd r)) space_runes"
  "list_all (\<lambda>r. \<not> is_b64 (hd r)) (map rev space_runes)"
  by code_simp+

lemma trim_stops:
  assumes "s = [] \<or> is_b64 (hd s)" "runes = space_runes \<or> runes = map rev space_runes"
  shows "trim_runes runes s = s"
proof -
  have "drop_rune runes s = None"
  proof (cases "s = []")
    case True
    then show ?thesis by (auto simp: drop_rune_def find_None_iff split: option.splits)
  next
    case False
    with assms show ?thesis
      using space_rune_heads unfolding list_all_iff by (intro drop_rune_None) metis+
  qed
  then show ?thesis by (simp add: trim_runes.simps)
qed

lemma trim_newlines: "s = [] \<or> is_b64 (hd s) \<Longrightarrow>
  trim_runes (map rev space_runes) (replicate n (CHR 0x0A) @ s) = s"
proof (induction n)
  case 0
  then show ?case by (simp add: trim_stops)
next
  case (Suc n)
  have e: "map rev space_runes = [CHR 0x09] # [CHR 0x0A] # map rev (drop 2 space_runes)"
    by code_simp
  have "drop_rune (map rev space_runes) (CHR 0x0A # t) = Some t" for t
    unfolding drop_rune_def e by simp
  with Suc show ?case by (simp add: trim_runes.simps)
qed

text \<open>
  A signature file that picked up line breaks at its end still verifies.
\<close>

lemma TrimSpace_encoded: "TrimSpace (EncodeB64 b @ replicate n (CHR 0x0A)) = EncodeB64 b" if "b \<noteq> []"
proof -
  have ne: "enc64 b \<noteq> []" using that by (cases b rule: enc64.cases) (auto simp: Let_def)
  then have "is_b64 (hd (enc64 b))" "is_b64 (hd (rev (enc64 b)))"
    using enc64_chars [of b] by (auto simp: list_all_iff hd_rev)
  with ne show ?thesis
    by (simp add: TrimSpace_def EncodeB64_def trim_stops trim_newlines)
qed

lemma wire_verify_sign:
  assumes "crypto_ok C"
  shows "wire_verify C (ed_public C k) m (wire_sign C k m @ replicate n (CHR 0x0A))"
proof -
  have "ed_sign C k m \<noteq> []" using assms by (metis crypto_ok_def list.size(3) zero_neq_numeral)
  with assms show ?thesis
    by (simp add: wire_verify_def wire_sign_def TrimSpace_encoded crypto_ok_def)
qed

text \<open>
  A text decodes to given bytes exactly when it is their encoding once line breaks are
  removed. So every value has one encoding without line breaks, and padding, the standard
  alphabet and stray bits are rejected; but texts with line breaks in them decode as well, so
  the encoding of a value is not unique.
\<close>

theorem b64_decode_exact:
  "(DecodeB64 s = Some b \<longleftrightarrow> filter (\<lambda>c. \<not> is_newline c) s = EncodeB64 b)
   \<and> DecodeB64 (EncodeB64 b) = Some b
   \<and> DecodeB64 (EncodeB64 b @ [CHR 0x0A]) = Some b"
  using DecodeB64_iff [of "EncodeB64 b @ [CHR 0x0A]" b] DecodeB64_iff [of s b] DecodeB64_iff [of "EncodeB64 b" b]
  by (simp add: is_newline_def)

end
