(* ===== verification/GoJson.thy ===== *)
theory GoJson
  imports Wire
begin

text \<open>
  JSON as \<open>encoding/json\<close> presents it to \<open>wire.DecodeStrict\<close>: a document is a value of
  \<open>json\<close>, the decoder's token stream is \<open>tokens\<close> of it, and \<open>checkDuplicateKeys\<close> is the
  loop of \<open>server/internal/sync/wire/wire.go\<close> over that stream. Reading the text of a document
  (the grammar of RFC 8259 and the check for valid UTF-8) is a parameter: \<open>json_text\<close> maps the
  bytes of a document that is exactly one JSON value to that value.

  The decoders below follow the rules by which \<open>json.Unmarshal\<close> stores a value in a Go variable:
  \<open>null\<close> leaves strings and numbers unchanged, object keys select struct fields first by exact
  name and otherwise ignoring case, and unknown fields are errors (\<open>DisallowUnknownFields\<close>).
\<close>

datatype json = JNull | JBool bool | JNum string | JStr string | JArr "json list"
  | JObj "(string \<times> json) list"

datatype token = TObjOpen | TObjClose | TArrOpen | TArrClose | TStr string | TScalar

fun tokens :: "json \<Rightarrow> token list"
  and tokens_items :: "json list \<Rightarrow> token list"
  and tokens_fields :: "(string \<times> json) list \<Rightarrow> token list" where
  "tokens JNull = [TScalar]"
| "tokens (JBool b) = [TScalar]"
| "tokens (JNum n) = [TScalar]"
| "tokens (JStr s) = [TStr s]"
| "tokens (JArr vs) = TArrOpen # tokens_items vs @ [TArrClose]"
| "tokens (JObj fs) = TObjOpen # tokens_fields fs @ [TObjClose]"
| "tokens_items [] = []"
| "tokens_items (v # vs) = tokens v @ tokens_items vs"
| "tokens_fields [] = []"
| "tokens_fields ((k, v) # fs) = TStr k # tokens v @ tokens_fields fs"

subsection \<open>checkDuplicateKeys\<close>

record frame =
  f_object :: bool
  f_keys :: "string list"
  f_key :: bool

datatype dup_error = SyntaxError | DuplicateKey string | StackPanic

text \<open>A value ended: the next token of an enclosing object is a key.\<close>

definition value_ended :: "frame list \<Rightarrow> frame list" where
  "value_ended stack =
     (case stack of
        [] \<Rightarrow> []
      | tp # rest \<Rightarrow> if f_object tp then tp\<lparr>f_key := True\<rparr> # rest else stack)"

text \<open>
  The loop over \<open>d.Token()\<close>; \<open>eof\<close> tells whether the stream ends with \<open>io.EOF\<close> or with a
  syntax error. Closing a frame of an empty stack would panic.
\<close>

fun dup_loop :: "bool \<Rightarrow> token list \<Rightarrow> frame list \<Rightarrow> dup_error + unit" where
  "dup_loop eof [] stack = (if eof then Inr () else Inl SyntaxError)"
| "dup_loop eof (tok # toks) stack =
     (case (stack, tok) of
        (tp # rest, TStr k) \<Rightarrow>
          if f_object tp \<and> f_key tp then
            (if List.member (f_keys tp) k then Inl (DuplicateKey k)
             else dup_loop eof toks (tp\<lparr>f_keys := k # f_keys tp, f_key := False\<rparr> # rest))
          else dup_loop eof toks (value_ended stack)
      | (_, TObjOpen) \<Rightarrow> dup_loop eof toks (\<lparr>f_object = True, f_keys = [], f_key = True\<rparr> # stack)
      | (_, TArrOpen) \<Rightarrow> dup_loop eof toks (\<lparr>f_object = False, f_keys = [], f_key = False\<rparr> # stack)
      | (_, TObjClose) \<Rightarrow>
          (case stack of [] \<Rightarrow> Inl StackPanic | _ # rest \<Rightarrow> dup_loop eof toks (value_ended rest))
      | (_, TArrClose) \<Rightarrow>
          (case stack of [] \<Rightarrow> Inl StackPanic | _ # rest \<Rightarrow> dup_loop eof toks (value_ended rest))
      | _ \<Rightarrow> dup_loop eof toks (value_ended stack))"

definition checkDuplicateKeys :: "bool \<Rightarrow> token list \<Rightarrow> dup_error + unit" where
  "checkDuplicateKeys eof toks = dup_loop eof toks []"

text \<open>The specification: no object of the value, at any depth, repeats a key.\<close>

fun no_dup :: "json \<Rightarrow> bool"
  and no_dup_items :: "json list \<Rightarrow> bool"
  and no_dup_fields :: "string list \<Rightarrow> (string \<times> json) list \<Rightarrow> bool" where
  "no_dup JNull = True"
| "no_dup (JBool b) = True"
| "no_dup (JNum n) = True"
| "no_dup (JStr s) = True"
| "no_dup (JArr vs) = no_dup_items vs"
| "no_dup (JObj fs) = no_dup_fields [] fs"
| "no_dup_items [] = True"
| "no_dup_items (v # vs) = (no_dup v \<and> no_dup_items vs)"
| "no_dup_fields ks [] = True"
| "no_dup_fields ks ((k, v) # fs) = (k \<notin> set ks \<and> no_dup v \<and> no_dup_fields (k # ks) fs)"

lemma no_dup_fields_keys: "no_dup_fields ks fs \<Longrightarrow> distinct (map fst fs) \<and> set (map fst fs) \<inter> set ks = {}"
proof (induction fs arbitrary: ks)
  case Nil
  then show ?case by simp
next
  case (Cons p fs)
  obtain k v where p: "p = (k, v)" by (cases p)
  with Cons.IH [of "k # ks"] Cons.prems show ?case by auto
qed

text \<open>Reading one value from a position where a value may start.\<close>

definition value_position :: "frame list \<Rightarrow> bool" where
  "value_position stack \<longleftrightarrow> (case stack of [] \<Rightarrow> True | tp # _ \<Rightarrow> \<not> (f_object tp \<and> f_key tp))"

definition is_dup :: "dup_error + unit \<Rightarrow> bool" where
  "is_dup r \<longleftrightarrow> (\<exists>k. r = Inl (DuplicateKey k))"

lemma frame_value_ended [simp]:
  "value_ended (\<lparr>f_object = False, f_keys = ks, f_key = b\<rparr> # st) = \<lparr>f_object = False, f_keys = ks, f_key = b\<rparr> # st"
  "value_ended (\<lparr>f_object = True, f_keys = ks, f_key = b\<rparr> # st) = \<lparr>f_object = True, f_keys = ks, f_key = True\<rparr> # st"
  by (simp_all add: value_ended_def)

lemma dup_loop_value:
  "value_position st \<Longrightarrow>
     (if no_dup v then dup_loop eof (tokens v @ ts) st = dup_loop eof ts (value_ended st)
      else is_dup (dup_loop eof (tokens v @ ts) st))"
  and dup_loop_items:
  "(if no_dup_items vs
    then dup_loop eof (tokens_items vs @ ts) (\<lparr>f_object = False, f_keys = [], f_key = False\<rparr> # st)
       = dup_loop eof ts (\<lparr>f_object = False, f_keys = [], f_key = False\<rparr> # st)
    else is_dup (dup_loop eof (tokens_items vs @ ts) (\<lparr>f_object = False, f_keys = [], f_key = False\<rparr> # st)))"
  and dup_loop_fields:
  "(if no_dup_fields ks fs
    then dup_loop eof (tokens_fields fs @ ts) (\<lparr>f_object = True, f_keys = ks, f_key = True\<rparr> # st)
       = dup_loop eof ts (\<lparr>f_object = True, f_keys = rev (map fst fs) @ ks, f_key = True\<rparr> # st)
    else is_dup (dup_loop eof (tokens_fields fs @ ts) (\<lparr>f_object = True, f_keys = ks, f_key = True\<rparr> # st)))"
proof (induction v and vs and ks fs arbitrary: ts st and ts st and ts st
    rule: no_dup_no_dup_items_no_dup_fields.induct)
  case (4 s)
  then show ?case
    by (auto simp: value_position_def split: list.splits)
next
  case (5 vs)
  then show ?case by (auto split: list.splits)
next
  case (6 fs)
  then show ?case by (auto split: list.splits)
next
  case (8 v vs)
  let ?f = "\<lparr>f_object = False, f_keys = [], f_key = False\<rparr>"
  show ?case
    using 8(1) [of "?f # st" "tokens_items vs @ ts"] 8(2) [of ts st]
    by (cases "no_dup v") (auto simp: value_position_def split: if_splits)
next
  case (10 ks k v fs)
  let ?f = "\<lparr>f_object = True, f_keys = k # ks, f_key = False\<rparr>"
  show ?case
    using 10(1) [of "?f # st" "tokens_fields fs @ ts"] 10(2) [of ts st]
    by (cases "k \<in> set ks"; cases "no_dup v")
       (auto simp: value_position_def is_dup_def split: if_splits)
qed (auto split: list.splits)

lemma checkDuplicateKeys_iff:
  "(checkDuplicateKeys True (tokens v) = Inr ()) = no_dup v"
  using dup_loop_value [of "[]" v True "[]"]
  by (auto simp: checkDuplicateKeys_def value_position_def value_ended_def is_dup_def split: if_splits)

text \<open>
  \<open>checkDuplicateKeys\<close> accepts a document if and only if no object in it, at any depth,
  repeats a key; otherwise it reports a duplicate key. Its frame stack never underflows.
\<close>

theorem checkDuplicateKeys_correct:
  "if no_dup v then checkDuplicateKeys True (tokens v) = Inr ()
   else \<exists>k. checkDuplicateKeys True (tokens v) = Inl (DuplicateKey k)"
  using dup_loop_value [of "[]" v True "[]"]
  by (simp add: checkDuplicateKeys_def value_position_def value_ended_def is_dup_def split: if_splits)

subsection \<open>Storing values\<close>

text \<open>
  A decoder maps the present contents of a variable and a JSON value to the new contents, or to
  \<open>None\<close> for a type error.
\<close>

type_synonym 'a decoder = "'a \<Rightarrow> json \<Rightarrow> 'a option"

definition dec_string :: "string decoder" where
  "dec_string cur v = (case v of JNull \<Rightarrow> Some cur | JStr s \<Rightarrow> Some s | _ \<Rightarrow> None)"

definition dec_bool :: "bool decoder" where
  "dec_bool cur v = (case v of JNull \<Rightarrow> Some cur | JBool b \<Rightarrow> Some b | _ \<Rightarrow> None)"

definition dec_uint64 :: "nat decoder" where
  "dec_uint64 cur v = (case v of JNull \<Rightarrow> Some cur | JNum n \<Rightarrow> parse_uint 10 64 n | _ \<Rightarrow> None)"

text \<open>\<open>strconv.ParseInt(n, 10, 64)\<close>, for JSON number texts.\<close>

definition parse_int64 :: "string \<Rightarrow> int option" where
  "parse_int64 n =
     (case n of
        [] \<Rightarrow> None
      | c # ds \<Rightarrow>
          if c = CHR ''-'' then
            (case parse_uint 10 64 ds of
               Some k \<Rightarrow> if k \<le> 2 ^ 63 then Some (- int k) else None
             | None \<Rightarrow> None)
          else
            (case parse_uint 10 64 n of
               Some k \<Rightarrow> if k < 2 ^ 63 then Some (int k) else None
             | None \<Rightarrow> None))"

definition dec_int :: "int decoder" where
  "dec_int cur v = (case v of JNull \<Rightarrow> Some cur | JNum n \<Rightarrow> parse_int64 n | _ \<Rightarrow> None)"

definition dec_ptr :: "'a \<Rightarrow> 'a decoder \<Rightarrow> 'a option decoder" where
  "dec_ptr zero d cur v =
     (case v of JNull \<Rightarrow> Some None
      | _ \<Rightarrow> map_option Some (d (case cur of None \<Rightarrow> zero | Some c \<Rightarrow> c) v))"

text \<open>
  Array elements are stored into the elements the slice already has, and into zero values
  beyond its length.
\<close>

fun dec_items :: "'a \<Rightarrow> 'a decoder \<Rightarrow> 'a list \<Rightarrow> json list \<Rightarrow> 'a list option" where
  "dec_items zero d cur [] = Some []"
| "dec_items zero d cur (v # vs) =
     (case d (case cur of [] \<Rightarrow> zero | c # _ \<Rightarrow> c) v of
        None \<Rightarrow> None
      | Some x \<Rightarrow>
          (case dec_items zero d (case cur of [] \<Rightarrow> [] | _ # cs \<Rightarrow> cs) vs of
             None \<Rightarrow> None
           | Some xs \<Rightarrow> Some (x # xs)))"

definition dec_slice :: "'a \<Rightarrow> 'a decoder \<Rightarrow> 'a list decoder" where
  "dec_slice zero d cur v =
     (case v of JNull \<Rightarrow> Some [] | JArr vs \<Rightarrow> dec_items zero d cur vs | _ \<Rightarrow> None)"

fun dec_entries :: "'a \<Rightarrow> 'a decoder \<Rightarrow> (string, 'a) gomap \<Rightarrow> (string \<times> json) list \<Rightarrow> (string, 'a) gomap option" where
  "dec_entries zero d m [] = Some m"
| "dec_entries zero d m ((k, v) # fs) =
     (case d zero v of None \<Rightarrow> None | Some x \<Rightarrow> dec_entries zero d (AList.update k x m) fs)"

text \<open>A Go map is nil or holds entries; decoding into an existing map adds to it.\<close>

definition dec_map :: "'a \<Rightarrow> 'a decoder \<Rightarrow> (string, 'a) gomap option decoder" where
  "dec_map zero d cur v =
     (case v of
        JNull \<Rightarrow> Some None
      | JObj fs \<Rightarrow> map_option Some (dec_entries zero d (case cur of None \<Rightarrow> [] | Some m \<Rightarrow> m) fs)
      | _ \<Rightarrow> None)"

text \<open>
  The name a field is compared under when no field has the exact name: letters without case,
  and the two non-ASCII characters (long s and the Kelvin sign) that fold to ASCII letters.
\<close>

definition to_lower :: "char \<Rightarrow> char" where
  "to_lower c = (if is_up c then char_of (byte_of c + 32 :: nat) else c)"

fun fold_name :: "string \<Rightarrow> string" where
  "fold_name (a # b # r) =
     (if byte_of a = (0xC5 :: nat) \<and> byte_of b = (0xBF :: nat) then CHR ''s'' # fold_name r
      else (case r of
              c # r' \<Rightarrow> if byte_of a = (0xE2 :: nat) \<and> byte_of b = (0x84 :: nat) \<and> byte_of c = (0xAA :: nat)
                        then CHR ''k'' # fold_name r'
                        else to_lower a # fold_name (b # r)
            | [] \<Rightarrow> to_lower a # fold_name (b # r)))"
| "fold_name [a] = [to_lower a]"
| "fold_name [] = []"

type_synonym 'r field_decoders = "(string \<times> 'r decoder) list"

definition find_field :: "'r field_decoders \<Rightarrow> string \<Rightarrow> 'r decoder option" where
  "find_field ds k =
     (case map_of ds k of
        Some d \<Rightarrow> Some d
      | None \<Rightarrow> map_option snd (find (\<lambda>(n, _). fold_name n = fold_name k) ds))"

fun dec_fields :: "'r field_decoders \<Rightarrow> 'r \<Rightarrow> (string \<times> json) list \<Rightarrow> 'r option" where
  "dec_fields ds r [] = Some r"
| "dec_fields ds r ((k, v) # fs) =
     (case find_field ds k of
        None \<Rightarrow> None
      | Some d \<Rightarrow> (case d r v of None \<Rightarrow> None | Some r' \<Rightarrow> dec_fields ds r' fs))"

definition dec_struct :: "'r field_decoders \<Rightarrow> 'r decoder" where
  "dec_struct ds cur v =
     (case v of JNull \<Rightarrow> Some cur | JObj fs \<Rightarrow> dec_fields ds cur fs | _ \<Rightarrow> None)"

text \<open>A struct field: how to read it, how to set it and how its type is decoded.\<close>

definition field :: "string \<Rightarrow> ('r \<Rightarrow> 'a) \<Rightarrow> ('a \<Rightarrow> 'r \<Rightarrow> 'r) \<Rightarrow> 'a decoder \<Rightarrow> string \<times> 'r decoder" where
  "field name get put d = (name, \<lambda>r v. map_option (\<lambda>x. put x r) (d (get r) v))"

text \<open>
  \<open>DecodeStrict\<close> into a variable with the zero value \<open>zero\<close>. The syntax errors, invalid UTF-8
  and trailing data are the documents \<open>json_text\<close> does not read.
\<close>

definition DecodeStrict :: "(bytes \<Rightarrow> json option) \<Rightarrow> 'a decoder \<Rightarrow> 'a \<Rightarrow> bytes \<Rightarrow> 'a option" where
  "DecodeStrict json_text d zero data =
     (case json_text data of
        None \<Rightarrow> None
      | Some v \<Rightarrow>
          (case checkDuplicateKeys True (tokens v) of
             Inl e \<Rightarrow> None
           | Inr _ \<Rightarrow> d zero v))"

lemma DecodeStrict_Some:
  "DecodeStrict json_text d zero data = Some x \<longleftrightarrow>
     (\<exists>v. json_text data = Some v \<and> no_dup v \<and> d zero v = Some x)"
  by (auto simp: DecodeStrict_def checkDuplicateKeys_iff [symmetric] split: option.splits sum.splits)

text \<open>
  The libraries the sync packages call beside the cryptographic primitives: reading JSON text,
  the syntax check of age recipients and of UUIDs.
\<close>

record libs = crypto +
  json_text :: "bytes \<Rightarrow> json option"
  age_recipient :: "string \<Rightarrow> bool"
  uuid_ok :: "string \<Rightarrow> bool"

end
