(* ===== verification/Hlc.thy ===== *)
theory Hlc
  imports GoLib "HOL-Library.Word"
begin

text \<open>
  The hybrid logical clock of \<open>server/internal/sync/hlc/hlc.go\<close>: timestamps of a 64-bit
  millisecond field and a 16-bit counter, their text form, the order of changes and the clock
  itself. The time source of a clock is the sequence of values \<open>c.now().UnixMilli()\<close>
  returns, one per call; \<open>Now\<close>'s loop reads one of them per round and is given fuel.
\<close>

unbundle bit_operations_syntax

record timestamp =
  MS :: "64 word"
  Counter :: "16 word"

definition zero_ts :: timestamp where
  "zero_ts = \<lparr>MS = 0, Counter = 0\<rparr>"

definition maxMS :: "64 word" where
  "maxMS = 2 ^ 48 - 1"

definition maxCounter :: "16 word" where
  "maxCounter = 2 ^ 16 - 1"

text \<open>\<open>MaxDrift = time.Hour\<close>, in milliseconds.\<close>

definition MaxDrift_ms :: "64 word" where
  "MaxDrift_ms = 3600000"

definition ts_string :: "timestamp \<Rightarrow> string" where
  "ts_string ts = fmt_uint 16 12 (unat (MS ts AND maxMS)) @ ''-'' @ fmt_uint 16 4 (unat (Counter ts))"

definition ts_compare :: "timestamp \<Rightarrow> timestamp \<Rightarrow> int" where
  "ts_compare ts o' =
     (if MS ts < MS o' then -1
      else if MS ts > MS o' then 1
      else if Counter ts < Counter o' then -1
      else if Counter ts > Counter o' then 1
      else 0)"

definition lowerHex :: "string \<Rightarrow> bool" where
  "lowerHex s \<longleftrightarrow> list_all is_lhex s"

definition hlc_parse :: "string \<Rightarrow> timestamp option" where
  "hlc_parse s =
     (if length s \<noteq> 17 \<or> s ! 12 \<noteq> CHR ''-'' \<or> \<not> lowerHex (take 12 s) \<or> \<not> lowerHex (drop 13 s) then None
      else case parse_uint 16 64 (take 12 s) of
             None \<Rightarrow> None
           | Some ms \<Rightarrow>
               (case parse_uint 16 16 (drop 13 s) of
                  None \<Rightarrow> None
                | Some c \<Rightarrow> Some \<lparr>MS = of_nat ms, Counter = of_nat c\<rparr>))"

text \<open>\<open>hlc.Less\<close>: by timestamp, then by device id.\<close>

definition hlc_less :: "timestamp \<Rightarrow> string \<Rightarrow> timestamp \<Rightarrow> string \<Rightarrow> bool" where
  "hlc_less a aDevice b bDevice =
     (let c = ts_compare a b in if c \<noteq> 0 then c < 0 else aDevice < bDevice)"

subsection \<open>The clock\<close>

text \<open>\<open>Clock\<close> without its mutex: the operations are atomic. The time source is separate.\<close>

record clock =
  last :: timestamp

definition nowMS :: "int \<Rightarrow> 64 word" where
  "nowMS ms = (if ms < 0 then 0 else word_of_int ms AND maxMS)"

fun clock_now :: "nat \<Rightarrow> (nat \<Rightarrow> int) \<Rightarrow> clock \<Rightarrow> (timestamp \<times> clock) option" where
  "clock_now 0 readings c = None"
| "clock_now (Suc fuel) readings c =
     (let pt = nowMS (readings 0)
      in if pt > MS (last c) then
           (let t = \<lparr>MS = pt, Counter = 0\<rparr> in Some (t, c\<lparr>last := t\<rparr>))
         else if Counter (last c) < maxCounter then
           (let t = (last c)\<lparr>Counter := Counter (last c) + 1\<rparr> in Some (t, c\<lparr>last := t\<rparr>))
         else clock_now fuel (\<lambda>i. readings (Suc i)) c)"

definition clock_observe :: "int \<Rightarrow> timestamp \<Rightarrow> clock \<Rightarrow> bool \<times> clock" where
  "clock_observe reading r c =
     (if MS r > nowMS reading + MaxDrift_ms then (False, c)
      else (True, if ts_compare r (last c) > 0 then c\<lparr>last := r\<rparr> else c))"

definition clock_restore :: "timestamp \<Rightarrow> clock \<Rightarrow> clock" where
  "clock_restore ts c = (if ts_compare ts (last c) > 0 then c\<lparr>last := ts\<rparr> else c)"

subsection \<open>The order of timestamps\<close>

definition ts_less :: "timestamp \<Rightarrow> timestamp \<Rightarrow> bool" where
  "ts_less a b \<longleftrightarrow> ts_compare a b < 0"

lemma ts_less_iff [clock_simps]:
  "ts_less a b \<longleftrightarrow> MS a < MS b \<or> (MS a = MS b \<and> Counter a < Counter b)"
  by (auto simp: ts_less_def ts_compare_def)

lemma ts_compare_zero: "ts_compare a b = 0 \<longleftrightarrow> a = b"
  by (auto simp: ts_compare_def intro: timestamp.equality)

lemma ts_compare_pos [clock_simps]: "0 < ts_compare a b \<longleftrightarrow> ts_less b a"
  by (auto simp: ts_less_iff ts_compare_def)

lemma ts_compare_range: "ts_compare a b \<in> {-1, 0, 1}"
  by (simp add: ts_compare_def)

interpretation ts: strict_order ts_less
proof unfold_locales
  show "\<not> ts_less x x" for x by (simp add: ts_less_iff)
  show "ts_less x z" if "ts_less x y" "ts_less y z" for x y z
    using that by (auto simp: ts_less_iff)
  show "ts_less x y \<or> ts_less y x" if "x \<noteq> y" for x y
    using that by (auto simp: ts_less_iff intro: timestamp.equality)
qed

text \<open>\<open>Less\<close> on pairs of a timestamp and a device is a strict total order as well.\<close>

lemma hlc_less_iff [clock_simps]:
  "hlc_less a d b e \<longleftrightarrow> ts_less a b \<or> (a = b \<and> d < e)"
  using ts_compare_zero [of a b] by (auto simp: hlc_less_def Let_def ts_less_def)

interpretation hlc: strict_order "\<lambda>(a, d) (b, e). hlc_less a d b e"
  by unfold_locales (auto simp: hlc_less_iff ts_less_iff intro: timestamp.equality)

subsection \<open>The text form\<close>

definition ts_valid :: "timestamp \<Rightarrow> bool" where
  "ts_valid ts \<longleftrightarrow> MS ts \<le> maxMS"

lemma and_maxMS: "x AND maxMS = take_bit 48 x"
  by (simp add: maxMS_def take_bit_eq_mask mask_eq_exp_minus_1)

lemma unat_and_maxMS: "unat (x AND maxMS) = unat x mod 2 ^ 48"
  unfolding and_maxMS unsigned_take_bit_eq by (rule take_bit_eq_mod)

lemma ts_valid_unat: "ts_valid ts \<longleftrightarrow> unat (MS ts) < 2 ^ 48"
  by (simp add: ts_valid_def maxMS_def word_le_nat_alt less_eq_Suc_le flip: Suc_le_eq)

lemma counter_bound: "unat (Counter ts) < 65536"
  using unsigned_less [of "Counter ts", where 'a = nat] by simp

lemma ts_string_fix:
  "ts_string ts = fix_digits 16 12 (unat (MS ts) mod 2 ^ 48) @ ''-'' @ fix_digits 16 4 (unat (Counter ts))"
proof -
  have "unat (Counter ts) < 16 ^ 4"
    using counter_bound [of ts] by simp
  then show ?thesis
    by (simp add: ts_string_def unat_and_maxMS fmt_uint_fix del: fix_digits.simps)
qed

lemma hlc_parse_fix:
  assumes "m < 2 ^ 48" "k < 2 ^ 16"
  shows "hlc_parse (fix_digits 16 12 m @ ''-'' @ fix_digits 16 4 k) = Some \<lparr>MS = of_nat m, Counter = of_nat k\<rparr>"
proof -
  have "list_all is_lhex (fix_digits 16 12 m)" "list_all is_lhex (fix_digits 16 4 k)"
    using assms by (auto intro!: fix_digits_lhex)
  moreover have "parse_uint 16 64 (fix_digits 16 12 m) = Some m" "parse_uint 16 16 (fix_digits 16 4 k) = Some k"
    using assms by (auto intro!: parse_uint_fix)
  ultimately show ?thesis
    by (simp add: hlc_parse_def lowerHex_def nth_append del: fix_digits.simps)
qed

lemma hlc_parse_string: "ts_valid ts \<Longrightarrow> hlc_parse (ts_string ts) = Some ts"
  using counter_bound [of ts] hlc_parse_fix [of "unat (MS ts)" "unat (Counter ts)"]
  by (simp add: ts_string_fix ts_valid_unat)

lemma split_at_17:
  assumes "length s = 17"
  shows "s = take 12 s @ [s ! 12] @ drop 13 s"
  using assms id_take_nth_drop [of 12 s] by simp

lemma hlc_parse_canonical:
  assumes "hlc_parse s = Some ts"
  shows "ts_valid ts \<and> ts_string ts = s"
proof -
  from assms have len: "length s = 17" and dash: "s ! 12 = CHR ''-''"
    and lo: "list_all is_lhex (take 12 s)" and hi: "list_all is_lhex (drop 13 s)"
    by (auto simp: hlc_parse_def lowerHex_def split: if_splits)
  from lhex_fix [OF lo] len obtain m where m: "m < 2 ^ 48" "take 12 s = fix_digits 16 12 m"
    by auto
  from lhex_fix [OF hi] len obtain k where k: "k < 2 ^ 16" "drop 13 s = fix_digits 16 4 k"
    by auto
  have s: "s = fix_digits 16 12 m @ ''-'' @ fix_digits 16 4 k"
    using split_at_17 [OF len] m(2) k(2) dash by simp
  with hlc_parse_fix [OF m(1) k(1)] assms have "ts = \<lparr>MS = of_nat m, Counter = of_nat k\<rparr>"
    by simp
  with s m(1) k(1) show ?thesis
    by (simp add: ts_string_fix ts_valid_unat unsigned_of_nat take_bit_eq_mod)
qed

lemma ts_string_less:
  assumes "ts_valid a" "ts_valid b"
  shows "ts_string a < ts_string b \<longleftrightarrow> ts_less a b"
proof -
  have "unat (MS a) < 16 ^ 12" "unat (MS b) < 16 ^ 12"
    using assms by (simp_all add: ts_valid_unat)
  moreover have "unat (Counter a) < 16 ^ 4" "unat (Counter b) < 16 ^ 4"
    using counter_bound by simp_all
  ultimately show ?thesis
    by (simp add: ts_string_fix lex_append_eq fix_digits_less fix_digits_inj ts_less_iff
        word_less_nat_alt word_unat_eq_iff del: fix_digits.simps)
qed

text \<open>Every timestamp has exactly one text form, and the text order is the time order.\<close>

interpretation hlc_codec: ordered_codec ts_string hlc_parse ts_valid ts_less
  by unfold_locales (auto simp: hlc_parse_string hlc_parse_canonical ts_string_less)

subsection \<open>Every operation moves the clock forward\<close>

lemma word_inc_less: "x < maxCounter \<Longrightarrow> x < x + 1"
  by (simp add: maxCounter_def word_less_nat_alt unat_word_ariths)

lemma clock_now_less:
  assumes "clock_now fuel readings c = Some (t, c')"
  shows "ts_less (last c) t \<and> last c' = t"
  using assms by (induction fuel readings c rule: clock_now.induct)
    (auto simp: Let_def ts_less_iff word_inc_less split: if_splits)

lemma clock_observe_mono: "clock_observe ms r c = (ok, c') \<Longrightarrow> \<not> ts_less (last c') (last c)"
  using ts.irrefl ts.asym by (auto simp: clock_observe_def clock_simps(2) split: if_splits)

lemma clock_restore_mono:
  "\<not> ts_less (last (clock_restore ts c)) (last c) \<and> \<not> ts_less (last (clock_restore ts c)) ts"
  using ts.irrefl ts.asym by (auto simp: clock_restore_def clock_simps(2))

lemma clock_observe_follows: "clock_observe ms r c = (True, c') \<Longrightarrow> \<not> ts_less (last c') r"
  using ts.irrefl by (auto simp: clock_observe_def clock_simps(2) split: if_splits)

text \<open>\<open>Now\<close> returns once the wall clock has passed the last value, and never needs more rounds.\<close>

lemma clock_now_enough_fuel:
  assumes "k < fuel" "nowMS (readings k) > MS (last c)"
  shows "\<exists>t c'. clock_now fuel readings c = Some (t, c')"
  using assms
proof (induction fuel arbitrary: readings k)
  case 0
  then show ?case by simp
next
  case (Suc fuel)
  show ?case
  proof (cases k)
    case 0
    with Suc.prems show ?thesis by (simp add: Let_def)
  next
    case (Suc j)
    with Suc.prems Suc.IH [of j "\<lambda>i. readings (Suc i)"] show ?thesis by (auto simp: Let_def)
  qed
qed

lemma clock_now_blocked:
  assumes "Counter (last c) = maxCounter" "\<forall>i < fuel. nowMS (readings i) \<le> MS (last c)"
  shows "clock_now fuel readings c = None"
  using assms(2)
proof (induction fuel arbitrary: readings)
  case 0
  then show ?case by simp
next
  case (Suc fuel)
  from Suc.prems have "nowMS (readings 0) \<le> MS (last c)"
    and "\<forall>i < fuel. nowMS (readings (Suc i)) \<le> MS (last c)" by auto
  with Suc.IH [of "\<lambda>i. readings (Suc i)"] assms(1) show ?case by (simp add: Let_def not_less)
qed

lemma clock_now_exhausted:
  assumes "k < fuel" "\<forall>i < k. nowMS (readings i) \<le> MS (last c)"
    and "MS (last c) < nowMS (readings k)" "Counter (last c) = maxCounter"
  shows "clock_now fuel readings c =
       Some (\<lparr>MS = nowMS (readings k), Counter = 0\<rparr>, c\<lparr>last := \<lparr>MS = nowMS (readings k), Counter = 0\<rparr>\<rparr>)"
  using assms(1-3)
proof (induction k arbitrary: readings fuel)
  case 0
  then show ?case by (cases fuel) (simp_all add: Let_def)
next
  case (Suc k)
  from Suc.prems(1) obtain f where f: "fuel = Suc f" "k < f" by (cases fuel) auto
  have "\<not> MS (last c) < nowMS (readings 0)" using Suc.prems(2) by (auto simp: not_less)
  with f(1) assms(4) have "clock_now fuel readings c = clock_now f (\<lambda>i. readings (Suc i)) c"
    by (simp add: Let_def)
  with Suc.IH [OF f(2), of "\<lambda>i. readings (Suc i)"] Suc.prems show ?case by auto
qed

subsection \<open>Runs of a clock\<close>

text \<open>
  The life of a clock: the operations in the order the mutex serialises them, with the
  timestamps handed out and received.
\<close>

datatype clock_event = Ticked timestamp | Observed timestamp bool | Restored timestamp

inductive clock_step :: "clock \<Rightarrow> clock_event \<Rightarrow> clock \<Rightarrow> bool" where
  tick: "clock_now fuel readings c = Some (t, c') \<Longrightarrow> clock_step c (Ticked t) c'"
| observe: "clock_observe ms r c = (ok, c') \<Longrightarrow> clock_step c (Observed r ok) c'"
| restore: "clock_restore ts c = c' \<Longrightarrow> clock_step c (Restored ts) c'"

inductive clock_run :: "clock \<Rightarrow> clock_event list \<Rightarrow> clock \<Rightarrow> bool" where
  idle: "clock_run c [] c"
| more: "clock_step c e c1 \<Longrightarrow> clock_run c1 es c2 \<Longrightarrow> clock_run c (e # es) c2"

inductive_cases clock_stepE: "clock_step c e c'"
inductive_cases clock_run_ConsE: "clock_run c (e # es) c'"

fun ticks :: "clock_event list \<Rightarrow> timestamp list" where
  "ticks [] = []"
| "ticks (Ticked t # es) = t # ticks es"
| "ticks (_ # es) = ticks es"

lemma clock_step_mono: "clock_step c e c' \<Longrightarrow> \<not> ts_less (last c') (last c)"
  using clock_now_less clock_observe_mono clock_restore_mono ts.asym by (metis clock_stepE)

lemma clock_run_after: "clock_run c es c' \<Longrightarrow> t \<in> set (ticks es) \<Longrightarrow> ts_less (last c) t"
proof (induction rule: clock_run.induct)
  case (idle c)
  then show ?case by simp
next
  case (more c e c1 es c2)
  show ?case
  proof (cases "t \<in> set (ticks es)")
    case True
    with more.IH have "ts_less (last c1) t" by blast
    with clock_step_mono [OF more.hyps(1)] show ?thesis by (metis ts.not_lt_iff ts.trans)
  next
    case False
    with more.prems have "e = Ticked t" by (cases e) auto
    with more.hyps(1) show ?thesis by (auto elim: clock_stepE dest: clock_now_less)
  qed
qed


lemma clock_run_example:
  "clock_run \<lparr>last = zero_ts\<rparr>
     [Ticked \<lparr>MS = 7, Counter = 0\<rparr>, Observed \<lparr>MS = 9, Counter = 3\<rparr> True, Ticked \<lparr>MS = 9, Counter = 4\<rparr>]
     \<lparr>last = \<lparr>MS = 9, Counter = 4\<rparr>\<rparr>"
proof (intro clock_run.more)
  show "clock_step \<lparr>last = zero_ts\<rparr> (Ticked \<lparr>MS = 7, Counter = 0\<rparr>) \<lparr>last = \<lparr>MS = 7, Counter = 0\<rparr>\<rparr>"
    by (rule clock_step.tick [of "Suc 0" "\<lambda>_. 7"])
      (simp add: zero_ts_def nowMS_def maxMS_def Let_def)
  show "clock_step \<lparr>last = \<lparr>MS = 7, Counter = 0\<rparr>\<rparr> (Observed \<lparr>MS = 9, Counter = 3\<rparr> True)
     \<lparr>last = \<lparr>MS = 9, Counter = 3\<rparr>\<rparr>"
    by (rule clock_step.observe [of 8])
      (simp add: clock_observe_def nowMS_def maxMS_def MaxDrift_ms_def ts_compare_def)
  show "clock_step \<lparr>last = \<lparr>MS = 9, Counter = 3\<rparr>\<rparr> (Ticked \<lparr>MS = 9, Counter = 4\<rparr>)
     \<lparr>last = \<lparr>MS = 9, Counter = 4\<rparr>\<rparr>"
    by (rule clock_step.tick [of "Suc 0" "\<lambda>_. 8"])
      (simp add: nowMS_def maxMS_def maxCounter_def Let_def)
qed (rule clock_run.idle)


text \<open>
  C39. The receive rule: once a clock has followed a received timestamp, every timestamp it hands
  out later is ordered after it, so a local change made after seeing a remote one wins.
\<close>

theorem clock_receive_rule:
  assumes "clock_run c es c'" and "es = pre @ Observed r True # post" and "t \<in> set (ticks post)"
  shows "ts_less r t"
  using assms
proof (induction arbitrary: pre rule: clock_run.induct)
  case (idle c)
  then show ?case by simp
next
  case (more c e c1 es c2)
  show ?case
  proof (cases pre)
    case Nil
    with more.prems(1) have "e = Observed r True" "es = post" by auto
    with more.hyps(1) have "\<not> ts_less (last c1) r"
      by (auto elim: clock_stepE dest: clock_observe_follows)
    moreover have "ts_less (last c1) t"
      using clock_run_after more.hyps(2) more.prems(2) \<open>es = post\<close> by blast
    ultimately show ?thesis by (metis ts.not_lt_iff ts.trans)
  next
    case (Cons p ps)
    with more.prems show ?thesis by (intro more.IH [of ps]) auto
  qed
qed

theorem clock_receive_rule_witness:
  "ts_less \<lparr>MS = 9, Counter = 3\<rparr> \<lparr>MS = 9, Counter = 4\<rparr>"
  using clock_receive_rule [OF clock_run_example, of "[Ticked \<lparr>MS = 7, Counter = 0\<rparr>]"
      "\<lparr>MS = 9, Counter = 3\<rparr>" "[Ticked \<lparr>MS = 9, Counter = 4\<rparr>]" "\<lparr>MS = 9, Counter = 4\<rparr>"] by simp

text \<open>
  A received timestamp moves the clock at most one hour ahead of the wall clock; one that
  lies further ahead is reported and leaves the clock unchanged.
\<close>

theorem clock_observe_drift:
  "case clock_observe ms r c of
     (ok, c') \<Rightarrow> (if ok then MS r \<le> nowMS ms + MaxDrift_ms \<and> \<not> ts_less (last c') r
                 else MS r > nowMS ms + MaxDrift_ms \<and> c' = c)
       \<and> MS (last c') \<le> max (MS (last c)) (nowMS ms + MaxDrift_ms)"
  by (auto simp: clock_observe_def clock_simps(1,2) max_def)

text \<open>
  The text form of a timestamp is its only encoding, and bytewise string order on text forms
  is the order of the timestamps: \<open>Parse\<close> accepts exactly the strings \<open>String\<close> writes.
\<close>

theorem hlc_text_form:
  assumes "ts_valid a" and "ts_valid b"
  shows "(hlc_parse s = Some a \<longleftrightarrow> s = ts_string a)
    \<and> (ts_string a < ts_string b \<longleftrightarrow> ts_compare a b < 0)"
  using hlc_codec.dec_iff ts_string_less [OF assms] assms(1) by (auto simp: ts_less_def)

theorem hlc_text_form_witness:
  "hlc_parse ''0000000000ff-0001'' = Some \<lparr>MS = 255, Counter = 1\<rparr>
   \<and> ''0000000000ff-0001'' < ts_string \<lparr>MS = 256, Counter = 0\<rparr>"
proof -
  have v: "ts_valid \<lparr>MS = 255, Counter = 1\<rparr>" "ts_valid \<lparr>MS = 256, Counter = 0\<rparr>"
    by (simp_all add: ts_valid_def maxMS_def)
  have e: "ts_string \<lparr>MS = 255, Counter = 1\<rparr> = ''0000000000ff-0001''" by code_simp
  show ?thesis
    using hlc_text_form [OF v, of "''0000000000ff-0001''"] e by (simp add: ts_compare_def)
qed

text \<open>
  \<open>Now\<close> returns as soon as a wall-clock reading lies after the last value. When the counter
  is exhausted it returns no earlier: a clock that followed a timestamp of another device with
  a full counter, up to an hour ahead, hands out nothing until the wall clock has caught up.
\<close>

theorem clock_now_liveness:
  assumes "k < fuel" and "\<forall>i < k. nowMS (readings i) \<le> MS (last c)"
    and "MS (last c) < nowMS (readings k)" and "Counter (last c) = maxCounter"
  shows "clock_now k readings c = None \<and>
     clock_now fuel readings c =
       Some (\<lparr>MS = nowMS (readings k), Counter = 0\<rparr>, c\<lparr>last := \<lparr>MS = nowMS (readings k), Counter = 0\<rparr>\<rparr>)"
  using clock_now_blocked [OF assms(4,2)] clock_now_exhausted [OF assms] by simp

theorem clock_now_liveness_witness:
  "let c = snd (clock_observe 1000 \<lparr>MS = 3601000, Counter = maxCounter\<rparr> \<lparr>last = zero_ts\<rparr>)
   in clock_now 2 (\<lambda>i. if i < 2 then 1001 else 3601001) c = None"
proof -
  let ?c = "\<lparr>last = \<lparr>MS = 3601000, Counter = maxCounter\<rparr>\<rparr>"
  let ?r = "\<lambda>i :: nat. if i < 2 then 1001 else (3601001 :: int)"
  have "snd (clock_observe 1000 \<lparr>MS = 3601000, Counter = maxCounter\<rparr> \<lparr>last = zero_ts\<rparr>) = ?c"
    by (simp add: clock_observe_def nowMS_def maxMS_def MaxDrift_ms_def ts_compare_def zero_ts_def)
  moreover have "clock_now 2 ?r ?c = None"
    using clock_now_liveness [of 2 3 ?r ?c] by (simp add: nowMS_def maxMS_def)
  ultimately show ?thesis by simp
qed

end
