(* ===== verification/Op.thy ===== *)
theory Op
  imports GoJson Hlc
begin

text \<open>
  Change operations (\<open>server/internal/sync/op/op.go\<close>) and their plaintext form in segments
  (\<open>EncodeOps\<close>, \<open>DecodeOps\<close> of \<open>segment.go\<close>).

  A column value is one of the types \<open>Normalize\<close> leaves; \<open>VOther\<close> is an array or object,
  which no column accepts. A float is its 64-bit pattern; reading the text of a number that is
  no 64-bit integer as a float is the parameter \<open>json_float\<close>.
\<close>

datatype val = VNil | VStr string | VInt int | VFloat "64 word" | VBool bool | VOther json

record op_libs = libs +
  json_float :: "string \<Rightarrow> 64 word"
  json_render :: "json \<Rightarrow> bytes"

definition Normalize :: "('c) op_libs_scheme \<Rightarrow> json \<Rightarrow> val" where
  "Normalize L v =
     (case v of
        JNull \<Rightarrow> VNil
      | JBool b \<Rightarrow> VBool b
      | JStr s \<Rightarrow> VStr s
      | JNum n \<Rightarrow> (case parse_int64 n of Some i \<Rightarrow> VInt i | None \<Rightarrow> VFloat (json_float L n))
      | JArr vs \<Rightarrow> VOther v
      | JObj fs \<Rightarrow> VOther v)"

text \<open>Decoding into an interface replaces what it holds, by nil for \<open>null\<close>.\<close>

definition dec_any :: "('c) op_libs_scheme \<Rightarrow> val decoder" where
  "dec_any L cur v = Some (Normalize L v)"

type_synonym row = "(string, val) gomap option"

record op =
  o_T :: string
  o_PK :: row
  o_HLC :: string
  o_Set :: row
  o_Purge :: "string list"

definition zero_op :: op where
  "zero_op = \<lparr>o_T = [], o_PK = None, o_HLC = [], o_Set = None, o_Purge = []\<rparr>"

definition dec_op :: "('c) op_libs_scheme \<Rightarrow> op decoder" where
  "dec_op L = dec_struct
     [field ''t'' o_T (\<lambda>x r. r\<lparr>o_T := x\<rparr>) dec_string,
      field ''pk'' o_PK (\<lambda>x r. r\<lparr>o_PK := x\<rparr>) (dec_map VNil (dec_any L)),
      field ''hlc'' o_HLC (\<lambda>x r. r\<lparr>o_HLC := x\<rparr>) dec_string,
      field ''set'' o_Set (\<lambda>x r. r\<lparr>o_Set := x\<rparr>) (dec_map VNil (dec_any L)),
      field ''purge'' o_Purge (\<lambda>x r. r\<lparr>o_Purge := x\<rparr>) (dec_slice [] dec_string)]"

definition DecodeOps :: "('c) op_libs_scheme \<Rightarrow> bytes \<Rightarrow> op list option" where
  "DecodeOps L plain = DecodeStrict (json_text L) (dec_slice zero_op (dec_op L)) [] plain"

subsection \<open>Marshalling\<close>

text \<open>\<open>json.Marshal\<close> of integers, pointers and maps (whose keys it sorts).\<close>

definition int_text :: "int \<Rightarrow> string" where
  "int_text i = (if i < 0 then CHR ''-'' # min_digits 10 (nat (- i)) else min_digits 10 (nat i))"

definition nat_json :: "nat \<Rightarrow> json" where
  "nat_json n = JNum (min_digits 10 n)"

definition ptr_json :: "('a \<Rightarrow> json) \<Rightarrow> 'a option \<Rightarrow> json" where
  "ptr_json f p = (case p of None \<Rightarrow> JNull | Some x \<Rightarrow> f x)"

definition map_json :: "('a \<Rightarrow> json) \<Rightarrow> (string, 'a) gomap option \<Rightarrow> json" where
  "map_json f m =
     (case m of
        None \<Rightarrow> JNull
      | Some es \<Rightarrow> JObj (map (\<lambda>(k, v). (k, f v)) (sort_key fst (gm_entries es))))"

definition list_json :: "('a \<Rightarrow> json) \<Rightarrow> 'a list \<Rightarrow> json" where
  "list_json f xs = JArr (map f xs)"

text \<open>
  A value as \<open>EncodeOps\<close> writes it, for the values whose text does not depend on the format of
  floats.
\<close>

fun val_json :: "val \<Rightarrow> json" where
  "val_json VNil = JNull"
| "val_json (VStr s) = JStr s"
| "val_json (VInt i) = JNum (int_text i)"
| "val_json (VBool b) = JBool b"
| "val_json (VFloat w) = JNull"
| "val_json (VOther j) = j"

definition op_json :: "op \<Rightarrow> json" where
  "op_json q = JObj
     ([(''t'', JStr (o_T q)), (''pk'', map_json val_json (o_PK q)), (''hlc'', JStr (o_HLC q)),
       (''set'', map_json val_json (o_Set q))]
      @ (if o_Purge q = [] then [] else [(''purge'', list_json JStr (o_Purge q))]))"

definition EncodeOps :: "('c) op_libs_scheme \<Rightarrow> op list \<Rightarrow> bytes" where
  "EncodeOps L ops = json_render L (list_json op_json ops)"

text \<open>The values for which \<open>val_json\<close> is what the code writes.\<close>

fun plain_val :: "val \<Rightarrow> bool" where
  "plain_val (VInt i) = (- (2 ^ 63) \<le> i \<and> i < 2 ^ 63)"
| "plain_val (VFloat w) = False"
| "plain_val (VOther j) = False"
| "plain_val v = True"

subsection \<open>Reading back what was written\<close>

lemma min_digits_cons: "\<exists>c cs. min_digits 10 n = c # cs \<and> is_dec c"
proof -
  obtain j where j: "n < 10 ^ Suc j" "min_digits 10 n = fix_digits 10 (Suc j) n"
    using min_digits_fix [of 10 n] by auto
  then have "list_all is_dec (min_digits 10 n)" by (simp only: fix_digits_dec)
  with j(2) show ?thesis by auto
qed

lemma parse_int64_text:
  assumes "- (2 ^ 63) \<le> i" "i < 2 ^ 63"
  shows "parse_int64 (int_text i) = Some i"
proof (cases "i < 0")
  case True
  then have "nat (- i) < 2 ^ 64" "nat (- i) \<le> 2 ^ 63" using assms by auto
  moreover have "int (nat (- i)) = - i" using True by simp
  ultimately show ?thesis using True by (simp add: int_text_def parse_int64_def parse_uint_min)
next
  case False
  obtain c cs where cs: "min_digits 10 (nat i) = c # cs" "is_dec c"
    using min_digits_cons by blast
  then have "c \<noteq> CHR ''-''" by (auto simp: is_dec_def in_range_def)
  moreover have "nat i < 2 ^ 64" "nat i < 2 ^ 63" using False assms by auto
  ultimately show ?thesis
    using False cs parse_uint_min [of 10 "nat i" 64]
    by (simp add: int_text_def parse_int64_def)
qed

lemma Normalize_json: "plain_val v \<Longrightarrow> Normalize L (val_json v) = v"
  by (cases v) (auto simp: Normalize_def parse_int64_text)

text \<open>The map as it reads back: its entries in the order of their keys.\<close>

definition sorted_map :: "(string, 'a) gomap option \<Rightarrow> (string, 'a) gomap option" where
  "sorted_map m = map_option (\<lambda>es. sort_key fst (gm_entries es)) m"

lemma map_of_sorted_map: "map_of (case sorted_map (Some es) of None \<Rightarrow> [] | Some xs \<Rightarrow> xs) = map_of es"
  by (simp add: sorted_map_def map_of_sort_fst)

lemma update_append: "k \<notin> fst ` set m \<Longrightarrow> AList.update k v m = m @ [(k, v)]"
  by (induction m) auto

lemma dec_entries_fresh:
  assumes "distinct (map fst m @ map fst es)" and "\<And>k v. (k, v) \<in> set es \<Longrightarrow> d zero (f v) = Some v"
  shows "dec_entries zero d m (map (\<lambda>(k, v). (k, f v)) es) = Some (m @ es)"
  using assms
proof (induction es arbitrary: m)
  case (Cons p es)
  obtain k v where p: "p = (k, v)" by (cases p)
  have "AList.update k v m = m @ [(k, v)]"
    using Cons.prems(1) by (intro update_append) (auto simp: p)
  moreover have "d zero (f v) = Some v" using Cons.prems(2) [of k v] by (simp add: p)
  moreover have "dec_entries zero d (m @ [(k, v)]) (map (\<lambda>(k, v). (k, f v)) es) = Some ((m @ [(k, v)]) @ es)"
    using Cons.prems by (intro Cons.IH) (auto simp: p)
  ultimately show ?case by (simp add: p)
qed simp

lemma dec_map_json:
  assumes "\<And>k v. (k, v) \<in> set (gm_entries (case m of None \<Rightarrow> [] | Some es \<Rightarrow> es)) \<Longrightarrow> d zero (f v) = Some v"
  shows "dec_map zero d None (map_json f m) = Some (sorted_map m)"
proof (cases m)
  case (Some es)
  have "dec_entries zero d [] (map (\<lambda>(k, v). (k, f v)) (sort_key fst (gm_entries es))) = Some ([] @ sort_key fst (gm_entries es))"
    using assms Some by (intro dec_entries_fresh) auto
  with Some show ?thesis by (simp add: dec_map_def map_json_def sorted_map_def)
qed (simp add: dec_map_def map_json_def sorted_map_def)

lemma dec_items_json:
  assumes "\<And>x. x \<in> set xs \<Longrightarrow> d zero (f x) = Some (g x)"
  shows "dec_items zero d [] (map f xs) = Some (map g xs)"
  using assms by (induction xs) auto

text \<open>An op with scalar values none of which is a float, and the op its text stands for.\<close>

definition plain_op :: "op \<Rightarrow> bool" where
  "plain_op q \<longleftrightarrow> gm_all (\<lambda>k v. plain_val v) (case o_PK q of None \<Rightarrow> [] | Some m \<Rightarrow> m)
     \<and> gm_all (\<lambda>k v. plain_val v) (case o_Set q of None \<Rightarrow> [] | Some m \<Rightarrow> m)"

definition sorted_op :: "op \<Rightarrow> op" where
  "sorted_op q = q\<lparr>o_PK := sorted_map (o_PK q), o_Set := sorted_map (o_Set q)\<rparr>"

lemma dec_row_json:
  assumes "gm_all (\<lambda>k v. plain_val v) (case m of None \<Rightarrow> [] | Some es \<Rightarrow> es)"
  shows "dec_map VNil (dec_any L) None (map_json val_json m) = Some (sorted_map m)"
  using assms by (intro dec_map_json) (auto simp: dec_any_def gm_all_iff set_gm_entries intro!: Normalize_json)

lemma dec_op_json:
  assumes "plain_op q"
  shows "dec_op L zero_op (op_json q) = Some (sorted_op q)"
proof -
  have "dec_slice [] dec_string [] (list_json JStr (o_Purge q)) = Some (o_Purge q)"
    using dec_items_json [of "o_Purge q" dec_string "[]" JStr id]
    by (simp add: dec_slice_def list_json_def dec_string_def)
  moreover have "dec_map VNil (dec_any L) None (map_json val_json (o_PK q)) = Some (sorted_map (o_PK q))"
      "dec_map VNil (dec_any L) None (map_json val_json (o_Set q)) = Some (sorted_map (o_Set q))"
    using assms by (simp_all add: plain_op_def dec_row_json)
  ultimately show ?thesis
    by (simp add: dec_op_def op_json_def dec_struct_def field_def find_field_def zero_op_def dec_string_def sorted_op_def)
qed

lemma no_dup_fields_iff:
  "no_dup_fields ks fs \<longleftrightarrow> distinct (map fst fs) \<and> set (map fst fs) \<inter> set ks = {} \<and> list_all (\<lambda>(k, v). no_dup v) fs"
proof (induction fs arbitrary: ks)
  case (Cons p fs)
  obtain k v where p: "p = (k, v)" by (cases p)
  show ?case unfolding p no_dup_fields.simps Cons.IH by auto
qed simp

lemma no_dup_items_iff: "no_dup_items vs \<longleftrightarrow> list_all no_dup vs"
  by (induction vs) auto

lemma no_dup_map_json: "(\<And>v. no_dup (f v)) \<Longrightarrow> no_dup (map_json f m)"
  by (auto simp: map_json_def no_dup_fields_iff list_all_iff comp_def split_beta split: option.splits)

lemma no_dup_row_json:
  assumes "gm_all (\<lambda>k v. plain_val v) (case m of None \<Rightarrow> [] | Some es \<Rightarrow> es)"
  shows "no_dup (map_json val_json m)"
proof -
  have "plain_val v \<Longrightarrow> no_dup (val_json v)" for v by (cases v) auto
  with assms show ?thesis
    by (auto simp: map_json_def no_dup_fields_iff list_all_iff comp_def split_beta gm_all_def split: option.splits)
qed

lemma no_dup_op_json: "plain_op q \<Longrightarrow> no_dup (op_json q)"
  by (auto simp: op_json_def plain_op_def no_dup_row_json list_json_def no_dup_items_iff list_all_iff)

text \<open>
  What a device writes as the plaintext of a segment is what every device reads: the ops come
  back with the same tables, timestamps and columns, their maps with the same entries. This holds
  for the values whose text is exact: strings, 64-bit integers, booleans and null.
\<close>

theorem DecodeOps_EncodeOps:
  assumes "list_all plain_op ops"
    and "json_text L (json_render L (list_json op_json ops)) = Some (list_json op_json ops)"
  shows "DecodeOps L (EncodeOps L ops) = Some (map sorted_op ops)
    \<and> list_all (\<lambda>q. map_of (case o_Set (sorted_op q) of None \<Rightarrow> [] | Some m \<Rightarrow> m) = map_of (case o_Set q of None \<Rightarrow> [] | Some m \<Rightarrow> m)) ops"
proof -
  have "no_dup (list_json op_json ops)"
    using assms(1) by (auto simp: list_json_def no_dup_items_iff list_all_iff intro: no_dup_op_json)
  moreover have "dec_slice zero_op (dec_op L) [] (list_json op_json ops) = Some (map sorted_op ops)"
    using assms(1) dec_items_json [of ops "dec_op L" zero_op op_json sorted_op]
    by (auto simp: dec_slice_def list_json_def list_all_iff dec_op_json)
  ultimately have "DecodeOps L (EncodeOps L ops) = Some (map sorted_op ops)"
    using assms(2) by (simp add: DecodeOps_def EncodeOps_def DecodeStrict_Some)
  then show ?thesis
    by (auto simp: list_all_iff sorted_op_def sorted_map_def map_of_sort_fst split: option.splits)
qed

text \<open>An instance of the libraries that reads one given document.\<close>

definition sample_op_libs :: "json \<Rightarrow> op_libs" where
  "sample_op_libs j =
     libs.extend (crypto.extend toy_crypto (libs.fields (\<lambda>_. Some j) (\<lambda>s. s \<noteq> []) (\<lambda>s. s \<noteq> [])))
       (op_libs.fields (\<lambda>s. 0) (\<lambda>_. []))"

lemma sample_op_libs_text [simp]: "json_text (sample_op_libs j) d = Some j"
  by (simp add: sample_op_libs_def crypto.defs libs.defs op_libs.defs)

definition sample_op :: op where
  "sample_op = \<lparr>o_T = ''members'', o_PK = Some [(''id'', VStr ''m1'')], o_HLC = ''0000000000ff-0001'',
     o_Set = Some [(''number'', VInt 7), (''name'', VStr ''Anna'')], o_Purge = []\<rparr>"

theorem DecodeOps_EncodeOps_witness:
  "map_option (map o_Set) (DecodeOps (sample_op_libs (list_json op_json [sample_op]))
      (EncodeOps (sample_op_libs (list_json op_json [sample_op])) [sample_op]))
   = Some [Some [(''name'', VStr ''Anna''), (''number'', VInt 7)]]"
proof -
  have "list_all plain_op [sample_op]" by (simp add: plain_op_def sample_op_def gm_all_def gm_entries_def)
  from DecodeOps_EncodeOps [OF this sample_op_libs_text] show ?thesis
    by (simp add: sample_op_def sorted_op_def sorted_map_def gm_entries_def)
qed

end
