(* ===== verification/Scopes.thy ===== *)
theory Scopes
  imports GoLib
begin

text \<open>
  The table registry of \<open>server/internal/db/scopes.go\<close>: the scopes of protocol version 1,
  the synced tables with their scope and primary key, and the columns whose values must be
  unique among live rows. A scope is a string, as in the code: files of the sync root carry
  arbitrary scope names until they are validated.
\<close>

type_synonym scope = string

definition ScopeMembersCore :: scope where "ScopeMembersCore = ''members.core''"
definition ScopeMembersContact :: scope where "ScopeMembersContact = ''members.contact''"
definition ScopeMembersBank :: scope where "ScopeMembersBank = ''members.bank''"
definition ScopeFinance :: scope where "ScopeFinance = ''finance''"
definition ScopeInventory :: scope where "ScopeInventory = ''inventory''"
definition ScopeAdmin :: scope where "ScopeAdmin = ''admin''"

lemmas scope_defs = ScopeMembersCore_def ScopeMembersContact_def ScopeMembersBank_def
  ScopeFinance_def ScopeInventory_def ScopeAdmin_def

definition Scopes :: "scope list" where
  "Scopes = [ScopeMembersCore, ScopeMembersContact, ScopeMembersBank, ScopeFinance, ScopeInventory, ScopeAdmin]"

record db_table =
  Name :: string
  Scope :: scope
  PK :: "string list"
  AppendOnly :: bool

definition table :: "string \<Rightarrow> scope \<Rightarrow> string list \<Rightarrow> db_table" where
  "table n s pk = \<lparr>Name = n, Scope = s, PK = pk, AppendOnly = False\<rparr>"

definition idPK :: "string list" where
  "idPK = [''id'']"

definition SyncedTables :: "db_table list" where
  "SyncedTables = [
   table ''members'' ScopeMembersCore idPK,
   table ''roles'' ScopeMembersCore idPK,
   table ''groups'' ScopeMembersCore idPK,
   table ''sections'' ScopeMembersCore idPK,
   table ''member_roles'' ScopeMembersCore [''member_id'', ''role_id''],
   table ''member_groups'' ScopeMembersCore [''member_id'', ''group_id''],
   table ''member_sections'' ScopeMembersCore [''member_id'', ''section_id''],
   table ''member_honors'' ScopeMembersCore idPK,
   table ''member_membership'' ScopeMembersCore [''member_id''],
   table ''tasks'' ScopeMembersCore idPK,
   table ''qualification_types'' ScopeMembersCore idPK,
   table ''member_qualifications'' ScopeMembersCore idPK,
   table ''households'' ScopeMembersCore idPK,
   table ''household_members'' ScopeMembersCore [''member_id''],
   table ''events'' ScopeMembersCore idPK,
   table ''event_audiences'' ScopeMembersCore [''event_id'', ''kind'', ''target_id''],
   table ''event_exceptions'' ScopeMembersCore [''event_id'', ''occurrence_date''],
   table ''event_attendance'' ScopeMembersCore [''event_id'', ''occurrence_date'', ''member_id''],
   table ''member_contacts'' ScopeMembersContact [''member_id''],
   table ''member_guardians'' ScopeMembersContact idPK,
   table ''member_bank_details'' ScopeMembersBank [''member_id''],
   table ''member_sepa_mandates'' ScopeMembersBank [''member_id''],
   table ''sepa_creditor'' ScopeMembersBank idPK,
   table ''sepa_runs'' ScopeMembersBank idPK,
   table ''sepa_run_items'' ScopeMembersBank idPK,
   table ''finance_transaction_bank'' ScopeMembersBank [''transaction_id''],
   table ''finance_transactions'' ScopeFinance idPK,
   table ''member_fees'' ScopeFinance idPK,
   table ''fee_models'' ScopeFinance idPK,
   table ''member_fee_models'' ScopeFinance [''member_id''],
   table ''fee_runs'' ScopeFinance idPK,
   table ''fee_charges'' ScopeFinance [''fee_id''],
   table ''member_fee_payments'' ScopeFinance idPK,
   table ''donation_settings'' ScopeFinance idPK,
   table ''donors'' ScopeFinance idPK,
   table ''finance_transaction_donations'' ScopeFinance [''transaction_id''],
   table ''donation_receipts'' ScopeFinance idPK,
   table ''donation_receipt_items'' ScopeFinance idPK,
   table ''inventory_items'' ScopeInventory idPK,
   table ''inventory_loans'' ScopeInventory idPK,
   table ''inventory_item_status'' ScopeInventory [''item_id''],
   table ''inventory_maintenance'' ScopeInventory idPK]"

definition LocalTables :: "string list" where
  "LocalTables = [''users'', ''audit_log'', ''user_preferences'', ''refresh_tokens'',
     ''password_reset_tokens'', ''sync_device'', ''sync_field_clock'', ''sync_outbox'',
     ''sync_conflicts'', ''sync_club'', ''sync_acl'', ''sync_keys'',
     ''sync_key_drafts'', ''sync_invites'', ''sync_streams'', ''sync_scopes'',
     ''sync_uploads'', ''sync_pending'', ''sync_history'', ''sync_clock_warnings'',
     ''sync_clock_epochs'']"

definition SyncedTable :: "string \<Rightarrow> db_table option" where
  "SyncedTable name = find (\<lambda>t. Name t = name) SyncedTables"

text \<open>The uniqueness rules: table and column.\<close>

definition UniqueColumns :: "(string \<times> string) list" where
  "UniqueColumns =
     [(''members'', ''number''),
      (''member_contacts'', ''email''),
      (''roles'', ''name''),
      (''groups'', ''name''),
      (''sections'', ''name''),
      (''qualification_types'', ''name''),
      (''member_sepa_mandates'', ''mandate_reference''),
      (''fee_models'', ''name'')]"

subsection \<open>Facts about the registry\<close>

lemma distinct_Scopes [simp]: "distinct Scopes"
  by (simp add: Scopes_def scope_defs)

lemma length_Scopes [simp]: "length Scopes = 6"
  by (simp add: Scopes_def)

lemma SyncedTable_Some: "SyncedTable n = Some t \<Longrightarrow> Name t = n \<and> t \<in> set SyncedTables"
  by (auto simp: SyncedTable_def find_Some_iff)

lemma SyncedTables_scopes: "list_all (\<lambda>t. Scope t \<in> set Scopes \<and> PK t \<noteq> [] \<and> distinct (PK t)) SyncedTables"
  by code_simp

lemma SyncedTables_distinct: "distinct (map Name SyncedTables)"
  by code_simp

lemma synced_not_local: "list_all (\<lambda>t. Name t \<notin> set LocalTables) SyncedTables"
  by code_simp

lemma SyncedTable_scope:
  "SyncedTable n = Some t \<Longrightarrow> Scope t \<in> set Scopes \<and> PK t \<noteq> [] \<and> distinct (PK t)"
  using SyncedTable_Some SyncedTables_scopes unfolding list_all_iff by blast

end
