(* ===== verification/Layout.thy ===== *)
theory Layout
  imports Scopes "HOL-Library.Monad_Syntax"
begin

text \<open>
  The file names of the sync root, \<open>server/internal/sync/layout/layout.go\<close>: the regular
  expressions as matchers, \<open>Parse\<close> and the path builders. Every expression is anchored at
  both ends and deterministic, so a matcher reads its factors from left to right.
\<close>

datatype kind = KindGenesis | KindGenesisSig | KindACL | KindACLSig | KindKey | KindRequest
  | KindRequestSig | KindSegment | KindSnapshot | KindInvite | KindRejection | KindRejectionSig

definition SigSuffix :: string where "SigSuffix = ''.sig''"
definition RootRecipient :: string where "RootRecipient = ''root''"

record entry =
  e_kind :: kind
  e_version :: nat
  e_hash_prefix :: string
  e_device :: string
  e_scope :: scope
  e_epoch :: nat
  e_recipient :: string
  e_seq :: nat
  e_hlc :: string
  e_marker :: string

definition entry_of :: "kind \<Rightarrow> entry" where
  "entry_of k = \<lparr>e_kind = k, e_version = 0, e_hash_prefix = [], e_device = [], e_scope = [],
     e_epoch = 0, e_recipient = [], e_seq = 0, e_hlc = [], e_marker = []\<rparr>"

definition is_b32 :: "char \<Rightarrow> bool" where
  "is_b32 c \<longleftrightarrow> is_low c \<or> in_range CHR ''2'' CHR ''7'' c"

definition is_scope_char :: "char \<Rightarrow> bool" where
  "is_scope_char c \<longleftrightarrow> is_low c \<or> c = CHR ''.''"

subsection \<open>The patterns\<close>

definition device_id_pat :: "string \<Rightarrow> (string \<times> string) option" where
  "device_id_pat = take_class is_b32 26"

definition epoch_pat :: "string \<Rightarrow> (string \<times> string) option" where
  "epoch_pat s = do {
     (d, r) \<leftarrow> span_class is_dec s;
     if hd d \<noteq> CHR ''0'' \<and> length d \<le> 18 then Some (d, r) else None }"

definition hlc_pat :: "string \<Rightarrow> (string \<times> string) option" where
  "hlc_pat s = do {
     (m, r) \<leftarrow> take_class is_lhex 12 s;
     r \<leftarrow> cut_prefix ''-'' r;
     (c, r) \<leftarrow> take_class is_lhex 4 r;
     Some (m @ ''-'' @ c, r) }"

definition opt_sig :: "string \<Rightarrow> bool option" where
  "opt_sig s = (if s = [] then Some False else if s = ''.sig'' then Some True else None)"

definition at_end :: "string \<Rightarrow> unit option" where
  "at_end s = (if s = [] then Some () else None)"

definition aclRe :: "string \<Rightarrow> (string \<times> string \<times> bool) option" where
  "aclRe p = do {
     r \<leftarrow> cut_prefix ''acl/'' p;
     (v, r) \<leftarrow> take_class is_dec 8 r;
     r \<leftarrow> cut_prefix ''-'' r;
     (h, r) \<leftarrow> take_class is_lhex 16 r;
     r \<leftarrow> cut_prefix ''.json'' r;
     sg \<leftarrow> opt_sig r;
     Some (v, h, sg) }"

definition recipient_pat :: "string \<Rightarrow> string option" where
  "recipient_pat s =
     (case (do { (d, r) \<leftarrow> device_id_pat s; r \<leftarrow> cut_prefix ''.age'' r; at_end r; Some d }) of
        Some d \<Rightarrow> Some d
      | None \<Rightarrow> do { r \<leftarrow> cut_prefix ''root'' s; r \<leftarrow> cut_prefix ''.age'' r; at_end r; Some ''root'' })"

definition keyRe :: "string \<Rightarrow> (string \<times> string \<times> string) option" where
  "keyRe p = do {
     r \<leftarrow> cut_prefix ''keys/'' p;
     (s, r) \<leftarrow> span_class is_scope_char r;
     r \<leftarrow> cut_prefix ''/'' r;
     (e, r) \<leftarrow> epoch_pat r;
     r \<leftarrow> cut_prefix ''/'' r;
     rc \<leftarrow> recipient_pat r;
     Some (s, e, rc) }"

definition requestRe :: "string \<Rightarrow> (string \<times> bool) option" where
  "requestRe p = do {
     r \<leftarrow> cut_prefix ''requests/'' p;
     (d, r) \<leftarrow> device_id_pat r;
     r \<leftarrow> cut_prefix ''.json'' r;
     sg \<leftarrow> opt_sig r;
     Some (d, sg) }"

definition rejectRe :: "string \<Rightarrow> (string \<times> bool) option" where
  "rejectRe p = do {
     r \<leftarrow> cut_prefix ''requests/'' p;
     (d, r) \<leftarrow> device_id_pat r;
     r \<leftarrow> cut_prefix ''.rejected.json'' r;
     sg \<leftarrow> opt_sig r;
     Some (d, sg) }"

definition inviteRe :: "string \<Rightarrow> string option" where
  "inviteRe p = do {
     r \<leftarrow> cut_prefix ''invites/'' p;
     (m, r) \<leftarrow> take_class is_lhex 64 r;
     r \<leftarrow> cut_prefix ''.json'' r;
     at_end r;
     Some m }"

definition segmentRe :: "string \<Rightarrow> (string \<times> string \<times> string) option" where
  "segmentRe p = do {
     r \<leftarrow> cut_prefix ''segments/'' p;
     (d, r) \<leftarrow> device_id_pat r;
     r \<leftarrow> cut_prefix ''/'' r;
     (s, r) \<leftarrow> span_class is_scope_char r;
     r \<leftarrow> cut_prefix ''/'' r;
     (q, r) \<leftarrow> take_class is_dec 12 r;
     r \<leftarrow> cut_prefix ''.seg'' r;
     at_end r;
     Some (d, s, q) }"

definition snapshotRe :: "string \<Rightarrow> (string \<times> string \<times> string \<times> string) option" where
  "snapshotRe p = do {
     r \<leftarrow> cut_prefix ''snapshots/'' p;
     (s, r) \<leftarrow> span_class is_scope_char r;
     r \<leftarrow> cut_prefix ''/'' r;
     (e, r) \<leftarrow> epoch_pat r;
     r \<leftarrow> cut_prefix ''/'' r;
     (h, r) \<leftarrow> hlc_pat r;
     r \<leftarrow> cut_prefix ''-'' r;
     (d, r) \<leftarrow> device_id_pat r;
     r \<leftarrow> cut_prefix ''.snap'' r;
     at_end r;
     Some (s, e, h, d) }"

subsection \<open>Parse\<close>

definition ValidDeviceID :: "string \<Rightarrow> bool" where
  "ValidDeviceID i \<longleftrightarrow> (case device_id_pat i of Some (d, r) \<Rightarrow> r = [] | None \<Rightarrow> False)"

definition ValidScope :: "scope \<Rightarrow> bool" where
  "ValidScope s \<longleftrightarrow> List.member Scopes s"

definition layout_parseUint :: "string \<Rightarrow> nat option" where
  "layout_parseUint s = parse_uint 10 64 s"

definition layout_parse :: "string \<Rightarrow> entry option" where
  "layout_parse path =
     (if path = ''club.json'' then Some (entry_of KindGenesis)
      else if path = ''club.json.sig'' then Some (entry_of KindGenesisSig)
      else case aclRe path of
        Some (v, h, sg) \<Rightarrow>
          (case layout_parseUint v of
             None \<Rightarrow> None
           | Some n \<Rightarrow> if n = 0 then None
                       else Some ((entry_of (if sg then KindACLSig else KindACL))
                              \<lparr>e_version := n, e_hash_prefix := h\<rparr>))
      | None \<Rightarrow>
     (case keyRe path of
        Some (s, e, rc) \<Rightarrow>
          (case layout_parseUint e of
             None \<Rightarrow> None
           | Some n \<Rightarrow> if \<not> ValidScope s then None
                       else Some ((entry_of KindKey)\<lparr>e_scope := s, e_epoch := n, e_recipient := rc\<rparr>))
      | None \<Rightarrow>
     (case requestRe path of
        Some (d, sg) \<Rightarrow> Some ((entry_of (if sg then KindRequestSig else KindRequest))\<lparr>e_device := d\<rparr>)
      | None \<Rightarrow>
     (case rejectRe path of
        Some (d, sg) \<Rightarrow> Some ((entry_of (if sg then KindRejectionSig else KindRejection))\<lparr>e_device := d\<rparr>)
      | None \<Rightarrow>
     (case inviteRe path of
        Some m \<Rightarrow> Some ((entry_of KindInvite)\<lparr>e_marker := m\<rparr>)
      | None \<Rightarrow>
     (case segmentRe path of
        Some (d, s, q) \<Rightarrow>
          (case layout_parseUint q of
             None \<Rightarrow> None
           | Some n \<Rightarrow> if n = 0 \<or> \<not> ValidScope s then None
                       else Some ((entry_of KindSegment)\<lparr>e_device := d, e_scope := s, e_seq := n\<rparr>))
      | None \<Rightarrow>
     (case snapshotRe path of
        Some (s, e, h, d) \<Rightarrow>
          (case layout_parseUint e of
             None \<Rightarrow> None
           | Some n \<Rightarrow> if \<not> ValidScope s then None
                       else Some ((entry_of KindSnapshot)
                              \<lparr>e_scope := s, e_epoch := n, e_hlc := h, e_device := d\<rparr>))
      | None \<Rightarrow> None)))))))"

subsection \<open>Path builders\<close>

definition hex_encode :: "bytes \<Rightarrow> string" where
  "hex_encode b = concat (map (\<lambda>c. fix_digits 16 2 (byte_of c)) b)"

definition ACLHashPrefix :: "bytes \<Rightarrow> string" where
  "ACLHashPrefix digest = take 16 (hex_encode digest)"

definition acl_path_for :: "nat \<Rightarrow> string \<Rightarrow> string" where
  "acl_path_for version prefix = ''acl/'' @ fmt_uint 10 8 version @ ''-'' @ prefix @ ''.json''"

definition ACLPath :: "nat \<Rightarrow> bytes \<Rightarrow> string" where
  "ACLPath version digest = acl_path_for version (ACLHashPrefix digest)"

definition KeyPath :: "scope \<Rightarrow> nat \<Rightarrow> string \<Rightarrow> string" where
  "KeyPath s epoch recipient = ''keys/'' @ s @ ''/'' @ min_digits 10 epoch @ ''/'' @ recipient @ ''.age''"

definition RequestPath :: "string \<Rightarrow> string" where
  "RequestPath d = ''requests/'' @ d @ ''.json''"

definition RejectionPath :: "string \<Rightarrow> string" where
  "RejectionPath d = ''requests/'' @ d @ ''.rejected.json''"

definition InvitePath :: "string \<Rightarrow> string" where
  "InvitePath marker = ''invites/'' @ marker @ ''.json''"

definition SegmentPath :: "string \<Rightarrow> scope \<Rightarrow> nat \<Rightarrow> string" where
  "SegmentPath d s seq = ''segments/'' @ d @ ''/'' @ s @ ''/'' @ fmt_uint 10 12 seq @ ''.seg''"

definition SnapshotPath :: "scope \<Rightarrow> nat \<Rightarrow> string \<Rightarrow> string \<Rightarrow> string" where
  "SnapshotPath s epoch hlc d =
     ''snapshots/'' @ s @ ''/'' @ min_digits 10 epoch @ ''/'' @ hlc @ ''-'' @ d @ ''.snap''"

definition SigPath :: "string \<Rightarrow> string" where
  "SigPath path = path @ SigSuffix"

definition IsSig :: "string \<Rightarrow> bool" where
  "IsSig path \<longleftrightarrow> length SigSuffix \<le> length path \<and> drop (length path - length SigSuffix) path = SigSuffix"

subsection \<open>What the matchers accept\<close>

named_theorems layout_simps

lemma opt_sig_iff [layout_simps]: "opt_sig s = Some b \<longleftrightarrow> s = (if b then ''.sig'' else [])"
  by (auto simp: opt_sig_def)

lemma at_end_iff [layout_simps]: "at_end s = Some u \<longleftrightarrow> s = []"
  by (simp add: at_end_def)

definition is_device_id :: "string \<Rightarrow> bool" where
  "is_device_id d \<longleftrightarrow> length d = 26 \<and> list_all is_b32 d"

definition is_epoch :: "string \<Rightarrow> bool" where
  "is_epoch d \<longleftrightarrow> d \<noteq> [] \<and> list_all is_dec d \<and> hd d \<noteq> CHR ''0'' \<and> length d \<le> 18"

definition is_hlc_text :: "string \<Rightarrow> bool" where
  "is_hlc_text h \<longleftrightarrow> (\<exists>m c. h = m @ ''-'' @ c \<and> length m = 12 \<and> length c = 4
     \<and> list_all is_lhex m \<and> list_all is_lhex c)"

definition is_scope_text :: "string \<Rightarrow> bool" where
  "is_scope_text s \<longleftrightarrow> s \<noteq> [] \<and> list_all is_scope_char s"

lemma device_id_pat_iff [layout_simps]:
  "device_id_pat s = Some (d, r) \<longleftrightarrow> s = d @ r \<and> is_device_id d"
  by (auto simp: device_id_pat_def is_device_id_def take_class_iff)

lemma device_id_pat_append: "is_device_id d \<Longrightarrow> device_id_pat (d @ r) = Some (d, r)"
  by (simp add: device_id_pat_iff)

lemma epoch_pat_Some: "epoch_pat s = Some (d, r) \<Longrightarrow> s = d @ r \<and> is_epoch d"
  by (auto simp: epoch_pat_def is_epoch_def bind_eq_Some_conv dest!: span_class_Some split: if_splits)

lemma epoch_pat_append: "is_epoch d \<Longrightarrow> r \<noteq> [] \<Longrightarrow> \<not> is_dec (hd r) \<Longrightarrow> epoch_pat (d @ r) = Some (d, r)"
  by (simp add: epoch_pat_def is_epoch_def span_class_append)

lemma hlc_pat_iff [layout_simps]: "hlc_pat s = Some (h, r) \<longleftrightarrow> s = h @ r \<and> is_hlc_text h"
  by (force simp: hlc_pat_def is_hlc_text_def bind_eq_Some_conv codec_simps)

lemma hlc_pat_append: "is_hlc_text h \<Longrightarrow> hlc_pat (h @ r) = Some (h, r)"
  by (simp add: hlc_pat_iff)

lemma span_scope_Some: "span_class is_scope_char s = Some (a, r) \<Longrightarrow> s = a @ r \<and> is_scope_text a"
  by (auto simp: is_scope_text_def dest: span_class_Some)

lemma span_scope_append:
  "is_scope_text a \<Longrightarrow> r \<noteq> [] \<Longrightarrow> \<not> is_scope_char (hd r) \<Longrightarrow> span_class is_scope_char (a @ r) = Some (a, r)"
  by (simp add: is_scope_text_def span_class_append)

lemma slash_classes [simp]: "\<not> is_scope_char CHR ''/''" "\<not> is_dec CHR ''/''"
  by (simp_all add: is_scope_char_def is_low_def is_dec_def in_range_def)

lemma recipient_pat_Some:
  "recipient_pat s = Some rc \<Longrightarrow> s = rc @ ''.age'' \<and> (is_device_id rc \<or> rc = RootRecipient)"
  by (auto simp: recipient_pat_def bind_eq_Some_conv codec_simps layout_simps RootRecipient_def
      split: option.splits)

lemma recipient_pat_device: "is_device_id d \<Longrightarrow> recipient_pat (d @ ''.age'') = Some d"
  by (simp add: recipient_pat_def device_id_pat_append at_end_def cut_prefix_append)

lemma recipient_pat_root: "recipient_pat (RootRecipient @ ''.age'') = Some RootRecipient"
  by (simp add: recipient_pat_def RootRecipient_def device_id_pat_def take_class_def at_end_def)

lemma aclRe_iff [layout_simps]:
  "aclRe p = Some (v, h, sg) \<longleftrightarrow>
     p = ''acl/'' @ v @ ''-'' @ h @ ''.json'' @ (if sg then ''.sig'' else [])
     \<and> length v = 8 \<and> list_all is_dec v \<and> length h = 16 \<and> list_all is_lhex h"
  by (auto simp: aclRe_def bind_eq_Some_conv codec_simps layout_simps)

lemma requestRe_iff [layout_simps]:
  "requestRe p = Some (d, sg) \<longleftrightarrow> p = RequestPath d @ (if sg then ''.sig'' else []) \<and> is_device_id d"
  by (auto simp: requestRe_def RequestPath_def bind_eq_Some_conv codec_simps layout_simps)

lemma rejectRe_iff [layout_simps]:
  "rejectRe p = Some (d, sg) \<longleftrightarrow> p = RejectionPath d @ (if sg then ''.sig'' else []) \<and> is_device_id d"
  by (auto simp: rejectRe_def RejectionPath_def bind_eq_Some_conv codec_simps layout_simps)

lemma inviteRe_iff [layout_simps]:
  "inviteRe p = Some m \<longleftrightarrow> p = InvitePath m \<and> length m = 64 \<and> list_all is_lhex m"
  by (auto simp: inviteRe_def InvitePath_def bind_eq_Some_conv codec_simps layout_simps)

lemma keyRe_Some:
  "keyRe p = Some (s, e, rc) \<Longrightarrow>
     p = ''keys/'' @ s @ ''/'' @ e @ ''/'' @ rc @ ''.age'' \<and> is_scope_text s \<and> is_epoch e
     \<and> (is_device_id rc \<or> rc = RootRecipient)"
  by (auto simp: keyRe_def bind_eq_Some_conv codec_simps
      dest!: span_scope_Some epoch_pat_Some recipient_pat_Some)

lemma segmentRe_Some:
  "segmentRe p = Some (d, s, q) \<Longrightarrow>
     p = ''segments/'' @ d @ ''/'' @ s @ ''/'' @ q @ ''.seg'' \<and> is_device_id d \<and> is_scope_text s
     \<and> length q = 12 \<and> list_all is_dec q"
  by (auto simp: segmentRe_def bind_eq_Some_conv codec_simps layout_simps dest!: span_scope_Some)

lemma snapshotRe_Some:
  "snapshotRe p = Some (s, e, h, d) \<Longrightarrow>
     p = ''snapshots/'' @ s @ ''/'' @ e @ ''/'' @ h @ ''-'' @ d @ ''.snap''
     \<and> is_scope_text s \<and> is_epoch e \<and> is_hlc_text h \<and> is_device_id d"
  by (auto simp: snapshotRe_def bind_eq_Some_conv codec_simps layout_simps
      dest!: span_scope_Some epoch_pat_Some)

lemma keyRe_append:
  assumes "is_scope_text s" "is_epoch e" "is_device_id rc \<or> rc = RootRecipient"
  shows "keyRe (''keys/'' @ s @ ''/'' @ e @ ''/'' @ rc @ ''.age'') = Some (s, e, rc)"
proof -
  have "recipient_pat (rc @ ''.age'') = Some rc"
    using assms(3) recipient_pat_device recipient_pat_root by auto
  with assms(1,2) show ?thesis
    by (simp add: keyRe_def span_scope_append epoch_pat_append)
qed

lemma segmentRe_append:
  assumes "is_device_id d" "is_scope_text s" "length q = 12" "list_all is_dec q"
  shows "segmentRe (''segments/'' @ d @ ''/'' @ s @ ''/'' @ q @ ''.seg'') = Some (d, s, q)"
  using assms by (simp add: segmentRe_def device_id_pat_append span_scope_append take_class_append at_end_def)

lemma snapshotRe_append:
  assumes "is_scope_text s" "is_epoch e" "is_hlc_text h" "is_device_id d"
  shows "snapshotRe (''snapshots/'' @ s @ ''/'' @ e @ ''/'' @ h @ ''-'' @ d @ ''.snap'') = Some (s, e, h, d)"
  using assms by (simp add: snapshotRe_def device_id_pat_append span_scope_append epoch_pat_append
      hlc_pat_append at_end_def)

subsection \<open>Parse accepts exactly the names the builders produce\<close>

text \<open>
  The entries that name a file, and the name of each: the specification \<open>Parse\<close> is checked
  against. Every field outside the kind's own has its zero value.
\<close>

fun entry_path :: "entry \<Rightarrow> string" where
  "entry_path e =
     (case e_kind e of
        KindGenesis \<Rightarrow> ''club.json''
      | KindGenesisSig \<Rightarrow> SigPath ''club.json''
      | KindACL \<Rightarrow> acl_path_for (e_version e) (e_hash_prefix e)
      | KindACLSig \<Rightarrow> SigPath (acl_path_for (e_version e) (e_hash_prefix e))
      | KindKey \<Rightarrow> KeyPath (e_scope e) (e_epoch e) (e_recipient e)
      | KindRequest \<Rightarrow> RequestPath (e_device e)
      | KindRequestSig \<Rightarrow> SigPath (RequestPath (e_device e))
      | KindSegment \<Rightarrow> SegmentPath (e_device e) (e_scope e) (e_seq e)
      | KindSnapshot \<Rightarrow> SnapshotPath (e_scope e) (e_epoch e) (e_hlc e) (e_device e)
      | KindInvite \<Rightarrow> InvitePath (e_marker e)
      | KindRejection \<Rightarrow> RejectionPath (e_device e)
      | KindRejectionSig \<Rightarrow> SigPath (RejectionPath (e_device e)))"

definition acl_name_ok :: "entry \<Rightarrow> bool" where
  "acl_name_ok e \<longleftrightarrow> 0 < e_version e \<and> e_version e < 10 ^ 8 \<and> length (e_hash_prefix e) = 16
     \<and> list_all is_lhex (e_hash_prefix e)
     \<and> e = (entry_of (e_kind e))\<lparr>e_version := e_version e, e_hash_prefix := e_hash_prefix e\<rparr>"

definition device_name_ok :: "entry \<Rightarrow> bool" where
  "device_name_ok e \<longleftrightarrow> is_device_id (e_device e) \<and> e = (entry_of (e_kind e))\<lparr>e_device := e_device e\<rparr>"

fun entry_ok :: "entry \<Rightarrow> bool" where
  "entry_ok e =
     (case e_kind e of
        KindGenesis \<Rightarrow> e = entry_of KindGenesis
      | KindGenesisSig \<Rightarrow> e = entry_of KindGenesisSig
      | KindACL \<Rightarrow> acl_name_ok e
      | KindACLSig \<Rightarrow> acl_name_ok e
      | KindKey \<Rightarrow> ValidScope (e_scope e) \<and> 0 < e_epoch e \<and> e_epoch e < 10 ^ 18
          \<and> (is_device_id (e_recipient e) \<or> e_recipient e = RootRecipient)
          \<and> e = (entry_of KindKey)\<lparr>e_scope := e_scope e, e_epoch := e_epoch e, e_recipient := e_recipient e\<rparr>
      | KindSegment \<Rightarrow> is_device_id (e_device e) \<and> ValidScope (e_scope e) \<and> 0 < e_seq e \<and> e_seq e < 10 ^ 12
          \<and> e = (entry_of KindSegment)\<lparr>e_device := e_device e, e_scope := e_scope e, e_seq := e_seq e\<rparr>
      | KindSnapshot \<Rightarrow> ValidScope (e_scope e) \<and> 0 < e_epoch e \<and> e_epoch e < 10 ^ 18
          \<and> is_hlc_text (e_hlc e) \<and> is_device_id (e_device e)
          \<and> e = (entry_of KindSnapshot)\<lparr>e_scope := e_scope e, e_epoch := e_epoch e, e_hlc := e_hlc e,
                 e_device := e_device e\<rparr>
      | KindInvite \<Rightarrow> length (e_marker e) = 64 \<and> list_all is_lhex (e_marker e)
          \<and> e = (entry_of KindInvite)\<lparr>e_marker := e_marker e\<rparr>
      | _ \<Rightarrow> device_name_ok e)"

declare entry_path.simps [simp del] entry_ok.simps [simp del]

lemma layout_parseUint_fix: "0 < n \<Longrightarrow> n \<le> 18 \<Longrightarrow> v < 10 ^ n \<Longrightarrow> layout_parseUint (fix_digits 10 n v) = Some v"
proof -
  assume n: "0 < n" "n \<le> 18" "v < 10 ^ n"
  have "(10 :: nat) ^ n \<le> 10 ^ 18" using n(2) by (rule power_increasing) simp
  with n(3) have "v < 2 ^ 64" by simp
  with n show ?thesis by (simp add: layout_parseUint_def parse_uint_fix)
qed

lemma dec_piece:
  assumes "list_all is_dec v" "length v = n" "0 < n" "n \<le> 18"
  shows "\<exists>k < 10 ^ n. layout_parseUint v = Some k \<and> v = fmt_uint 10 n k"
proof -
  obtain k where k: "k < 10 ^ n" "v = fix_digits 10 n k" using dec_fix [OF assms(1)] assms(2) by blast
  with assms(3,4) show ?thesis
    by (intro exI [of _ k]) (simp add: layout_parseUint_fix fmt_uint_fix)
qed

lemma epoch_piece:
  assumes "is_epoch d"
  shows "\<exists>k. 0 < k \<and> k < 10 ^ 18 \<and> layout_parseUint d = Some k \<and> d = min_digits 10 k"
proof -
  obtain k where k: "0 < k" "k < 10 ^ length d" "d = min_digits 10 k"
    using min_digits_dec [of d] assms by (auto simp: is_epoch_def)
  have "(10 :: nat) ^ length d \<le> 10 ^ 18" using assms by (intro power_increasing) (auto simp: is_epoch_def)
  with k(2) have "k < 10 ^ 18" by linarith
  with k show ?thesis
    by (intro exI [of _ k]) (simp add: layout_parseUint_def parse_uint_min)
qed

lemma layout_parseUint_min:
  "0 < k \<Longrightarrow> k < 10 ^ 18 \<Longrightarrow> is_epoch (min_digits 10 k) \<and> layout_parseUint (min_digits 10 k) = Some k"
  using min_digits_shape [of k 18] by (simp add: is_epoch_def layout_parseUint_def parse_uint_min)

lemma ValidScope_iff: "ValidScope s \<longleftrightarrow> s \<in> set Scopes"
  by (simp add: ValidScope_def)

lemma scope_texts: "list_all is_scope_text Scopes"
  by code_simp

lemma ValidScope_text: "ValidScope s \<Longrightarrow> is_scope_text s"
  using scope_texts by (simp add: ValidScope_iff list_all_iff)

lemma ValidDeviceID_iff: "ValidDeviceID d \<longleftrightarrow> is_device_id d"
  by (auto simp: ValidDeviceID_def device_id_pat_def take_class_def is_device_id_def)

lemmas name_defs = RequestPath_def RejectionPath_def InvitePath_def SigPath_def SigSuffix_def

lemma layout_parse_sound:
  assumes "layout_parse p = Some e"
  shows "entry_ok e \<and> entry_path e = p"
proof -
  consider (gen) "p = ''club.json''" | (gensig) "p = ''club.json.sig''"
    | (acl) v h sg where "aclRe p = Some (v, h, sg)"
    | (key) s k rc where "keyRe p = Some (s, k, rc)" "aclRe p = None"
    | (req) d sg where "requestRe p = Some (d, sg)" "keyRe p = None" "aclRe p = None"
    | (rej) d sg where "rejectRe p = Some (d, sg)" "requestRe p = None" "keyRe p = None" "aclRe p = None"
    | (inv) m where "inviteRe p = Some m" "rejectRe p = None" "requestRe p = None" "keyRe p = None" "aclRe p = None"
    | (seg) d s q where "segmentRe p = Some (d, s, q)" "inviteRe p = None" "rejectRe p = None" "requestRe p = None"
        "keyRe p = None" "aclRe p = None"
    | (snap) s k h d where "snapshotRe p = Some (s, k, h, d)" "segmentRe p = None" "inviteRe p = None"
        "rejectRe p = None" "requestRe p = None" "keyRe p = None" "aclRe p = None"
    using assms by (auto simp: layout_parse_def split: option.splits if_splits prod.splits)
  then show ?thesis
  proof cases
    case gen
    with assms show ?thesis by (auto simp: layout_parse_def entry_ok.simps entry_path.simps entry_of_def)
  next
    case gensig
    with assms show ?thesis
      by (auto simp: layout_parse_def entry_ok.simps entry_path.simps entry_of_def name_defs)
  next
    case (acl v h sg)
    then have p: "p = ''acl/'' @ v @ ''-'' @ h @ ''.json'' @ (if sg then ''.sig'' else [])"
      and h: "length h = 16" "list_all is_lhex h" and v: "list_all is_dec v" "length v = 8"
      by (auto simp: aclRe_iff)
    obtain k where k: "k < 10 ^ 8" "layout_parseUint v = Some k" "v = fmt_uint 10 8 k"
      using dec_piece [OF v] by auto
    have "p \<noteq> ''club.json''" "p \<noteq> ''club.json.sig''" using p by auto
    with assms acl k(2) have e: "k \<noteq> 0"
      "e = (entry_of (if sg then KindACLSig else KindACL))\<lparr>e_version := k, e_hash_prefix := h\<rparr>"
      by (auto simp: layout_parse_def split: if_splits)
    with h k(1,3) p show ?thesis
      by (auto simp: entry_ok.simps entry_path.simps acl_name_ok_def entry_of_def acl_path_for_def name_defs)
  next
    case (key s k rc)
    then have p: "p = ''keys/'' @ s @ ''/'' @ k @ ''/'' @ rc @ ''.age''" "is_epoch k"
      "is_device_id rc \<or> rc = RootRecipient" using keyRe_Some by auto
    obtain n where n: "0 < n" "n < 10 ^ 18" "layout_parseUint k = Some n" "k = min_digits 10 n"
      using epoch_piece [OF p(2)] by auto
    have "p \<noteq> ''club.json''" "p \<noteq> ''club.json.sig''" using p by auto
    with assms key n(3) have "ValidScope s"
      "e = (entry_of KindKey)\<lparr>e_scope := s, e_epoch := n, e_recipient := rc\<rparr>"
      by (auto simp: layout_parse_def split: if_splits)
    with n p show ?thesis
      by (auto simp: entry_ok.simps entry_path.simps entry_of_def KeyPath_def)
  next
    case (req d sg)
    then have p: "p = RequestPath d @ (if sg then ''.sig'' else [])" "is_device_id d"
      by (auto simp: requestRe_iff)
    have "p \<noteq> ''club.json''" "p \<noteq> ''club.json.sig''" using p by (auto simp: name_defs)
    with assms req have "e = (entry_of (if sg then KindRequestSig else KindRequest))\<lparr>e_device := d\<rparr>"
      by (auto simp: layout_parse_def)
    with p show ?thesis
      by (auto simp: entry_ok.simps entry_path.simps device_name_ok_def entry_of_def name_defs)
  next
    case (rej d sg)
    then have p: "p = RejectionPath d @ (if sg then ''.sig'' else [])" "is_device_id d"
      by (auto simp: rejectRe_iff)
    have "p \<noteq> ''club.json''" "p \<noteq> ''club.json.sig''" using p by (auto simp: name_defs)
    with assms rej have "e = (entry_of (if sg then KindRejectionSig else KindRejection))\<lparr>e_device := d\<rparr>"
      by (auto simp: layout_parse_def)
    with p show ?thesis
      by (auto simp: entry_ok.simps entry_path.simps device_name_ok_def entry_of_def name_defs)
  next
    case (inv m)
    then have p: "p = InvitePath m" "length m = 64" "list_all is_lhex m" by (auto simp: inviteRe_iff)
    have "p \<noteq> ''club.json''" "p \<noteq> ''club.json.sig''" using p by (auto simp: name_defs)
    with assms inv have "e = (entry_of KindInvite)\<lparr>e_marker := m\<rparr>" by (auto simp: layout_parse_def)
    with p show ?thesis by (auto simp: entry_ok.simps entry_path.simps entry_of_def name_defs)
  next
    case (seg d s q)
    then have p: "p = ''segments/'' @ d @ ''/'' @ s @ ''/'' @ q @ ''.seg''" "is_device_id d"
      "length q = 12" "list_all is_dec q" using segmentRe_Some by auto
    obtain n where n: "n < 10 ^ 12" "layout_parseUint q = Some n" "q = fmt_uint 10 12 n"
      using dec_piece [OF p(4,3)] by auto
    have "p \<noteq> ''club.json''" "p \<noteq> ''club.json.sig''" using p by auto
    with assms seg n(2) have "ValidScope s" "n \<noteq> 0"
      "e = (entry_of KindSegment)\<lparr>e_device := d, e_scope := s, e_seq := n\<rparr>"
      by (auto simp: layout_parse_def split: if_splits)
    with n p show ?thesis by (auto simp: entry_ok.simps entry_path.simps entry_of_def SegmentPath_def)
  next
    case (snap s k h d)
    then have p: "p = ''snapshots/'' @ s @ ''/'' @ k @ ''/'' @ h @ ''-'' @ d @ ''.snap''" "is_epoch k"
      "is_hlc_text h" "is_device_id d" using snapshotRe_Some by auto
    obtain n where n: "0 < n" "n < 10 ^ 18" "layout_parseUint k = Some n" "k = min_digits 10 n"
      using epoch_piece [OF p(2)] by auto
    have "p \<noteq> ''club.json''" "p \<noteq> ''club.json.sig''" using p by auto
    with assms snap n(3) have "ValidScope s"
      "e = (entry_of KindSnapshot)\<lparr>e_scope := s, e_epoch := n, e_hlc := h, e_device := d\<rparr>"
      by (auto simp: layout_parse_def split: if_splits)
    with n p show ?thesis by (auto simp: entry_ok.simps entry_path.simps entry_of_def SnapshotPath_def)
  qed
qed

text \<open>Completeness, one kind of name at a time.\<close>

lemma dec_piece_fix: "0 < n \<Longrightarrow> n \<le> 18 \<Longrightarrow> k < 10 ^ n \<Longrightarrow>
  layout_parseUint (fmt_uint 10 n k) = Some k \<and> list_all is_dec (fmt_uint 10 n k) \<and> length (fmt_uint 10 n k) = n"
  by (simp add: fmt_uint_fix layout_parseUint_fix fix_digits_dec)

lemma parse_acl_name:
  assumes "0 < v" "v < 10 ^ 8" "length h = 16" "list_all is_lhex h"
  shows "layout_parse (acl_path_for v h) = Some ((entry_of KindACL)\<lparr>e_version := v, e_hash_prefix := h\<rparr>)"
    and "layout_parse (SigPath (acl_path_for v h)) =
           Some ((entry_of KindACLSig)\<lparr>e_version := v, e_hash_prefix := h\<rparr>)"
proof -
  note d = dec_piece_fix [of 8 v]
  have "aclRe (acl_path_for v h @ (if sg then ''.sig'' else [])) = Some (fmt_uint 10 8 v, h, sg)" for sg
    using assms d by (auto simp: aclRe_iff acl_path_for_def)
  from this [of False] this [of True] assms(1,2) d
  show "layout_parse (acl_path_for v h) = Some ((entry_of KindACL)\<lparr>e_version := v, e_hash_prefix := h\<rparr>)"
    and "layout_parse (SigPath (acl_path_for v h)) =
           Some ((entry_of KindACLSig)\<lparr>e_version := v, e_hash_prefix := h\<rparr>)"
    by (auto simp: layout_parse_def name_defs acl_path_for_def)
qed

lemma ACLHashPrefix_shape:
  assumes "length d = 32"
  shows "length (ACLHashPrefix d) = 16" "list_all is_lhex (ACLHashPrefix d)"
proof -
  have l: "length (concat (map (\<lambda>c. fix_digits 16 2 (byte_of c)) b)) = 2 * length b" for b :: bytes
    by (induction b) auto
  have "list_all is_lhex (fix_digits 16 2 (byte_of c))" for c :: char
    by (rule fix_digits_lhex) simp
  then have "list_all is_lhex (hex_encode d)" by (auto simp: hex_encode_def list_all_iff)
  then show "list_all is_lhex (ACLHashPrefix d)" by (auto simp: ACLHashPrefix_def list_all_iff dest: in_set_takeD)
  show "length (ACLHashPrefix d) = 16" using assms by (simp add: ACLHashPrefix_def hex_encode_def l)
qed

lemma parse_acl_path:
  "0 < v \<Longrightarrow> v < 10 ^ 8 \<Longrightarrow> length d = 32 \<Longrightarrow>
   layout_parse (ACLPath v d) = Some ((entry_of KindACL)\<lparr>e_version := v, e_hash_prefix := ACLHashPrefix d\<rparr>)"
  by (simp add: ACLPath_def parse_acl_name ACLHashPrefix_shape)

text \<open>The expressions start with different directories, so at most one of them can match.\<close>

lemma no_acl: "c \<noteq> CHR ''a'' \<Longrightarrow> aclRe (c # r) = None"
  by (simp add: aclRe_def)

lemma no_key: "c \<noteq> CHR ''k'' \<Longrightarrow> keyRe (c # r) = None"
  by (simp add: keyRe_def)

lemma no_request: "c \<noteq> CHR ''r'' \<Longrightarrow> requestRe (c # r) = None" "c \<noteq> CHR ''r'' \<Longrightarrow> rejectRe (c # r) = None"
  by (simp_all add: requestRe_def rejectRe_def)

lemma no_invite: "c \<noteq> CHR ''i'' \<Longrightarrow> inviteRe (c # r) = None"
  by (simp add: inviteRe_def)

lemma no_segment: "segmentRe (''sn'' @ r) = None"
  by (simp add: segmentRe_def)

lemmas no_match = no_acl no_key no_request no_invite

lemma parse_key_name:
  assumes "ValidScope s" "0 < k" "k < 10 ^ 18" "is_device_id rc \<or> rc = RootRecipient"
  shows "layout_parse (KeyPath s k rc) =
    Some ((entry_of KindKey)\<lparr>e_scope := s, e_epoch := k, e_recipient := rc\<rparr>)"
  using assms layout_parseUint_min [OF assms(2,3)]
    keyRe_append [OF ValidScope_text [OF assms(1)], of "min_digits 10 k" rc]
  by (simp add: layout_parse_def KeyPath_def no_match)

lemma parse_request_name:
  assumes "is_device_id d"
  shows "layout_parse (RequestPath d) = Some ((entry_of KindRequest)\<lparr>e_device := d\<rparr>)"
    and "layout_parse (SigPath (RequestPath d)) = Some ((entry_of KindRequestSig)\<lparr>e_device := d\<rparr>)"
proof -
  have "requestRe (RequestPath d @ (if sg then ''.sig'' else [])) = Some (d, sg)" for sg
    using assms by (simp add: requestRe_iff)
  from this [of False] this [of True]
  show "layout_parse (RequestPath d) = Some ((entry_of KindRequest)\<lparr>e_device := d\<rparr>)"
    and "layout_parse (SigPath (RequestPath d)) = Some ((entry_of KindRequestSig)\<lparr>e_device := d\<rparr>)"
    by (auto simp: layout_parse_def name_defs no_match)
qed

lemma request_not_rejection:
  assumes "is_device_id d"
  shows "requestRe (''requests/'' @ d @ ''.rejected.json'' @ r) = None"
  using assms by (simp add: requestRe_def device_id_pat_append)

lemma parse_rejection_name:
  assumes "is_device_id d"
  shows "layout_parse (RejectionPath d) = Some ((entry_of KindRejection)\<lparr>e_device := d\<rparr>)"
    and "layout_parse (SigPath (RejectionPath d)) = Some ((entry_of KindRejectionSig)\<lparr>e_device := d\<rparr>)"
proof -
  have "rejectRe (RejectionPath d @ (if sg then ''.sig'' else [])) = Some (d, sg)" for sg
    using assms by (simp add: rejectRe_iff)
  from this [of False] this [of True] request_not_rejection [OF assms, of "[]"]
    request_not_rejection [OF assms, of "''.sig''"]
  show "layout_parse (RejectionPath d) = Some ((entry_of KindRejection)\<lparr>e_device := d\<rparr>)"
    and "layout_parse (SigPath (RejectionPath d)) = Some ((entry_of KindRejectionSig)\<lparr>e_device := d\<rparr>)"
    by (auto simp: layout_parse_def name_defs no_match)
qed

lemma parse_invite_name:
  "length m = 64 \<Longrightarrow> list_all is_lhex m \<Longrightarrow> layout_parse (InvitePath m) = Some ((entry_of KindInvite)\<lparr>e_marker := m\<rparr>)"
  using inviteRe_iff [of "InvitePath m" m] by (simp add: layout_parse_def name_defs no_match)

lemma parse_segment_name:
  assumes "is_device_id d" "ValidScope s" "0 < q" "q < 10 ^ 12"
  shows "layout_parse (SegmentPath d s q) =
    Some ((entry_of KindSegment)\<lparr>e_device := d, e_scope := s, e_seq := q\<rparr>)"
  using assms dec_piece_fix [of 12 q]
    segmentRe_append [OF assms(1) ValidScope_text [OF assms(2)], of "fmt_uint 10 12 q"]
  by (simp add: layout_parse_def SegmentPath_def no_match)

lemma parse_snapshot_name:
  assumes "ValidScope s" "0 < k" "k < 10 ^ 18" "is_hlc_text h" "is_device_id d"
  shows "layout_parse (SnapshotPath s k h d) =
    Some ((entry_of KindSnapshot)\<lparr>e_scope := s, e_epoch := k, e_hlc := h, e_device := d\<rparr>)"
  using assms layout_parseUint_min [OF assms(2,3)] no_segment
    snapshotRe_append [OF ValidScope_text [OF assms(1)], of "min_digits 10 k" h d]
  by (simp add: layout_parse_def SnapshotPath_def no_match)

lemma parse_genesis_name:
  "layout_parse ''club.json'' = Some (entry_of KindGenesis)"
  "layout_parse (SigPath ''club.json'') = Some (entry_of KindGenesisSig)"
  by (simp_all add: layout_parse_def name_defs)

lemma layout_parse_complete: "entry_ok e \<Longrightarrow> layout_parse (entry_path e) = Some e"
  by (cases "e_kind e")
    (auto simp: entry_ok.simps entry_path.simps acl_name_ok_def device_name_ok_def parse_acl_name parse_key_name
      parse_request_name parse_rejection_name parse_invite_name parse_segment_name parse_snapshot_name
      parse_genesis_name)

text \<open>File names are a codec: one name per entry, and no other name is read.\<close>

interpretation file_names: codec entry_path layout_parse entry_ok
  by unfold_locales (auto simp: layout_parse_complete layout_parse_sound)

text \<open>
  C40. \<open>Parse\<close> accepts a path if and only if it is the name the builders give to a well-formed
  entry, and every such name reads back as its entry: temporary files, conflict copies and any
  other spelling are ignored, and two different entries never share a file.
\<close>

theorem layout_parse_exact:
  "layout_parse p = Some e \<longleftrightarrow> entry_ok e \<and> p = entry_path e"
  by (rule file_names.dec_iff)

text \<open>
  A segment's file name identifies its stream position, and within a stream the bytewise
  order of the names is the order of the positions, so \<open>Upload\<close>, which sorts by path, creates
  segments in ascending order.
\<close>

theorem segment_path_order:
  assumes "is_device_id d" and "ValidScope s" and "0 < m" "m < 10 ^ 12" "0 < n" "n < 10 ^ 12"
  shows "(SegmentPath d s m < SegmentPath d s n \<longleftrightarrow> m < n) \<and>
    layout_parse (SegmentPath d s n) = Some ((entry_of KindSegment)\<lparr>e_device := d, e_scope := s, e_seq := n\<rparr>)"
proof -
  have "fix_digits 10 12 m @ ''.seg'' < fix_digits 10 12 n @ ''.seg'' \<longleftrightarrow> m < n"
    using assms by (simp add: lex_append_eq fix_digits_less fix_digits_inj del: fix_digits.simps)
  then have "SegmentPath d s m < SegmentPath d s n \<longleftrightarrow> m < n"
    using assms by (simp add: SegmentPath_def fmt_uint_fix del: fix_digits.simps)
  with parse_segment_name [OF assms(1,2,5,6)] show ?thesis by simp
qed

theorem segment_path_order_witness:
  "SegmentPath (replicate 26 CHR ''a'') ScopeFinance 9 < SegmentPath (replicate 26 CHR ''a'') ScopeFinance 10"
proof -
  have "is_device_id (replicate 26 CHR ''a'')" "ValidScope ScopeFinance" by code_simp+
  from segment_path_order [OF this, of 9 10] show ?thesis by simp
qed

end
