(* ===== verification/Replica.thy ===== *)
theory Replica
  imports Op Scopes Layout
begin

text \<open>
  The replicated tables (\<open>server/internal/sync/replica/apply.go\<close>): the conflict clock, changes,
  validation of ops, the applier with its pending changes.

  The local database is a record of maps. A row of a synced table is stored under its primary key
  (the sorted key columns with their values, which is what \<open>op.EncodePK\<close> writes as text), field
  clocks likewise under the key and the column, and waiting changes in the order of their ids.
  The schema, which the code reads with \<open>pragma_table_info\<close> and \<open>pragma_foreign_key_list\<close>, is a
  parameter. SQLite stores values as they are given (type affinity is not modelled), checks
  NOT NULL constraints, and checks foreign keys when the transaction commits.
\<close>

subsection \<open>Clocks\<close>

record clk =
  k_Epoch :: nat
  k_HLC :: string
  k_Device :: string

definition zero_clk :: clk where
  "zero_clk = \<lparr>k_Epoch = 0, k_HLC = [], k_Device = []\<rparr>"

definition clk_Less :: "clk \<Rightarrow> clk \<Rightarrow> bool" where
  "clk_Less c o' =
     (if k_Epoch c \<noteq> k_Epoch o' then k_Epoch c < k_Epoch o'
      else if k_HLC c \<noteq> k_HLC o' then k_HLC c < k_HLC o'
      else k_Device c < k_Device o')"

interpretation clk: strict_order clk_Less
proof
  show "\<not> clk_Less x x" for x by (simp add: clk_Less_def)
  show "clk_Less x z" if "clk_Less x y" "clk_Less y z" for x y z
    using that by (auto simp: clk_Less_def split: if_splits)
  show "clk_Less x y \<or> clk_Less y x" if "x \<noteq> y" for x y
    using that by (cases x; cases y) (auto simp: clk_Less_def)
qed

subsection \<open>Changes\<close>

record change =
  ch_T :: string
  ch_PK :: row
  ch_Set :: row
  ch_Clock :: clk
  ch_Clocks :: "(string, clk) gomap option"

definition row_of :: "row \<Rightarrow> (string, val) gomap" where
  "row_of r = (case r of None \<Rightarrow> [] | Some m \<Rightarrow> m)"

definition clockOf :: "change \<Rightarrow> string \<Rightarrow> clk" where
  "clockOf ch col =
     (case map_of (case ch_Clocks ch of None \<Rightarrow> [] | Some m \<Rightarrow> m) col of
        Some c \<Rightarrow> c
      | None \<Rightarrow> ch_Clock ch)"

definition FromOp :: "op \<Rightarrow> nat \<Rightarrow> string \<Rightarrow> change" where
  "FromOp q clockEpoch dev =
     \<lparr>ch_T = o_T q, ch_PK = o_PK q, ch_Set = o_Set q,
      ch_Clock = \<lparr>k_Epoch = clockEpoch, k_HLC = o_HLC q, k_Device = dev\<rparr>, ch_Clocks = None\<rparr>"

subsection \<open>Schema and database\<close>

record column =
  col_name :: string
  col_notNull :: bool
  col_hasDefault :: bool
  col_pk :: bool
  col_default :: val

record foreign_key =
  fk_from :: string
  fk_table :: string
  fk_to :: string

type_synonym pk_key = "(string \<times> val) list"

text \<open>
  \<open>sc_time\<close> is \<open>db.FormatTime\<close> of the time of a timestamp; \<open>sc_pk_text\<close> the JSON text
  of a primary key, by which keys are compared, and \<open>sc_val_text\<close> that of a value
  (\<open>op.EncodeValue\<close>).
\<close>

record schema =
  sc_columns :: "string \<Rightarrow> column list"
  sc_fks :: "string \<Rightarrow> foreign_key list"
  sc_time :: "timestamp \<Rightarrow> string"
  sc_pk_text :: "pk_key \<Rightarrow> string"
  sc_val_text :: "val \<Rightarrow> string"

record table_meta =
  m_Table :: db_table
  m_columns :: "(string, column) gomap"
  m_fks :: "foreign_key list"

text \<open>\<open>None\<close> is the error for a table that is not synced.\<close>

definition meta :: "('s) schema_scheme \<Rightarrow> string \<Rightarrow> table_meta option" where
  "meta S t =
     (case SyncedTable t of
        None \<Rightarrow> None
      | Some tb \<Rightarrow> Some \<lparr>m_Table = tb, m_columns = map (\<lambda>c. (col_name c, c)) (sc_columns S t), m_fks = sc_fks S t\<rparr>)"

text \<open>\<open>op.EncodePK\<close>: the key as text; and the key a \<open>WHERE\<close> clause on the key columns selects.\<close>

definition EncodePK :: "row \<Rightarrow> pk_key" where
  "EncodePK pk = sort_key fst (gm_entries (row_of pk))"

definition pkWhere :: "db_table \<Rightarrow> row \<Rightarrow> pk_key" where
  "pkWhere t pk = sort_key fst (map (\<lambda>c. (c, gm_get VNil (row_of pk) c)) (PK t))"

record stored_clk =
  s_epoch :: nat
  s_hlc :: string
  s_device :: "string option"

record rdb =
  r_rows :: "string \<Rightarrow> (pk_key, (string, val) gomap) gomap"
  r_clocks :: "string \<Rightarrow> (pk_key, (string, stored_clk) gomap) gomap"
  r_pending :: "(nat \<times> scope \<times> change \<times> string) list"
  r_next_id :: nat
  r_device :: "string option"
  r_touched :: "(string \<times> pk_key) list"

definition row_at :: "('d) rdb_scheme \<Rightarrow> string \<Rightarrow> pk_key \<Rightarrow> (string, val) gomap option" where
  "row_at d t k = map_of (r_rows d t) k"

definition clocks_at :: "('d) rdb_scheme \<Rightarrow> string \<Rightarrow> pk_key \<Rightarrow> (string, stored_clk) gomap" where
  "clocks_at d t k = gm_get [] (r_clocks d t) k"

datatype sql_error = NotSyncedTable | NotNullFailed | BadStoredHlc

subsection \<open>Validation of an op\<close>

datatype op_error = ErrInvalidOp | ErrUnsupported | MetaError

definition scalar :: "val \<Rightarrow> bool" where
  "scalar v \<longleftrightarrow> (case v of VOther j \<Rightarrow> False | _ \<Rightarrow> True)"

definition set_entry_ok :: "table_meta \<Rightarrow> op \<Rightarrow> string \<Rightarrow> val \<Rightarrow> bool" where
  "set_entry_ok m q c v =
     (case map_of (m_columns m) c of
        None \<Rightarrow> False
      | Some col \<Rightarrow>
          if c = ''updated_at'' then False
          else if \<not> scalar v then False
          else if col_pk col \<and> v \<noteq> gm_get VNil (row_of (o_PK q)) c then False
          else if col_pk col \<and> v = VNil then False
          else True)"

definition Validate :: "('s) schema_scheme \<Rightarrow> scope \<Rightarrow> op \<Rightarrow> op_error + unit" where
  "Validate S s q =
     (case SyncedTable (o_T q) of
        None \<Rightarrow> Inl ErrInvalidOp
      | Some t \<Rightarrow>
          if Scope t \<noteq> s then Inl ErrInvalidOp
          else if hlc_parse (o_HLC q) = None then Inl ErrInvalidOp
          else
            (case meta S (o_T q) of
               None \<Rightarrow> Inl MetaError
             | Some m \<Rightarrow>
                 if gm_len (row_of (o_PK q)) \<noteq> length (PK t) then Inl ErrInvalidOp
                 else if \<not> list_all (\<lambda>c. case map_of (row_of (o_PK q)) c of
                                           Some (VStr x) \<Rightarrow> x \<noteq> [] | _ \<Rightarrow> False) (PK t) then Inl ErrInvalidOp
                 else if gm_len (row_of (o_Set q)) = 0 \<and> o_Purge q = [] then Inl ErrInvalidOp
                 else if \<not> gm_all (set_entry_ok m q) (row_of (o_Set q)) then Inl ErrInvalidOp
                 else if o_Purge q \<noteq> [] then Inl ErrUnsupported
                 else Inr ()))"

subsection \<open>Applying a change\<close>

text \<open>A stored clock without a device id belongs to this device.\<close>

definition clk_of :: "('d) rdb_scheme \<Rightarrow> stored_clk \<Rightarrow> clk" where
  "clk_of d s =
     \<lparr>k_Epoch = s_epoch s, k_HLC = s_hlc s,
      k_Device = (case s_device s of Some x \<Rightarrow> x | None \<Rightarrow> (case r_device d of Some x \<Rightarrow> x | None \<Rightarrow> []))\<rparr>"

definition fieldClocks :: "('d) rdb_scheme \<Rightarrow> string \<Rightarrow> pk_key \<Rightarrow> string \<Rightarrow> clk option" where
  "fieldClocks d t k col = map_option (clk_of d) (map_of (clocks_at d t k) col)"

text \<open>The columns of the change that win against the stored clocks.\<close>

definition winners :: "('d) rdb_scheme \<Rightarrow> change \<Rightarrow> (string, val) gomap" where
  "winners d ch =
     filter (\<lambda>(col, v).
        case fieldClocks d (ch_T ch) (EncodePK (ch_PK ch)) col of
          None \<Rightarrow> True
        | Some cur \<Rightarrow> clk_Less cur (clockOf ch col))
       (gm_entries (row_of (ch_Set ch)))"

text \<open>\<open>SELECT 1 FROM fk.table WHERE fk.to = v\<close>.\<close>

definition references :: "('d) rdb_scheme \<Rightarrow> foreign_key \<Rightarrow> val \<Rightarrow> bool" where
  "references d fk v \<longleftrightarrow>
     list_ex (\<lambda>(k, cells). gm_get VNil cells (fk_to fk) = v) (gm_entries (r_rows d (fk_table fk)))"

datatype apply_result = Written "string list" | Pending string

definition missing_required :: "table_meta \<Rightarrow> (string, val) gomap \<Rightarrow> bool" where
  "missing_required m win \<longleftrightarrow>
     \<not> gm_all (\<lambda>name col. if col_pk col \<or> \<not> col_notNull col \<or> col_hasDefault col then True
                           else gm_get VNil win name \<noteq> VNil) (m_columns m)"

text \<open>The value of a reference the change would leave in the row, nil when it writes none.\<close>

definition fk_value :: "bool \<Rightarrow> change \<Rightarrow> (string, val) gomap \<Rightarrow> foreign_key \<Rightarrow> val" where
  "fk_value exists ch win fk =
     (case map_of win (fk_from fk) of
        Some v \<Rightarrow> v
      | None \<Rightarrow> if \<not> exists then gm_get VNil (row_of (ch_PK ch)) (fk_from fk) else VNil)"

definition missing_reference :: "('d) rdb_scheme \<Rightarrow> bool \<Rightarrow> change \<Rightarrow> (string, val) gomap \<Rightarrow> foreign_key list \<Rightarrow> bool" where
  "missing_reference d exists ch win fks \<longleftrightarrow>
     list_ex (\<lambda>fk. let v = fk_value exists ch win fk in v \<noteq> VNil \<and> \<not> references d fk v) fks"

definition put_row :: "string \<Rightarrow> pk_key \<Rightarrow> (string, val) gomap \<Rightarrow> ('d) rdb_scheme \<Rightarrow> ('d) rdb_scheme" where
  "put_row t k cells d = d\<lparr>r_rows := (r_rows d)(t := AList.update k cells (r_rows d t))\<rparr>"

definition not_null_ok :: "table_meta \<Rightarrow> (string, val) gomap \<Rightarrow> bool" where
  "not_null_ok m cells \<longleftrightarrow>
     gm_all (\<lambda>name col. if col_notNull col then gm_get VNil cells name \<noteq> VNil else True) (m_columns m)"

text \<open>Columns that an \<open>INSERT\<close> does not name get their default, or NULL.\<close>

definition defaults :: "table_meta \<Rightarrow> (string, val) gomap" where
  "defaults m = map (\<lambda>(name, col). (name, if col_hasDefault col then col_default col else VNil)) (m_columns m)"

definition sql_insert :: "table_meta \<Rightarrow> string \<Rightarrow> pk_key \<Rightarrow> (string, val) gomap \<Rightarrow> ('d) rdb_scheme \<Rightarrow> sql_error + ('d) rdb_scheme" where
  "sql_insert m t k values d =
     (let cells = values @ defaults m in
      if \<not> not_null_ok m cells then Inl NotNullFailed else Inr (put_row t k cells d))"

definition sql_update :: "table_meta \<Rightarrow> string \<Rightarrow> pk_key \<Rightarrow> (string, val) gomap \<Rightarrow> ('d) rdb_scheme \<Rightarrow> sql_error + ('d) rdb_scheme" where
  "sql_update m t k assign d =
     (case row_at d t k of
        None \<Rightarrow> Inr d
      | Some cells \<Rightarrow>
          (let cells' = assign @ cells in
           if \<not> not_null_ok m cells' then Inl NotNullFailed else Inr (put_row t k cells' d)))"

definition set_clock :: "string \<Rightarrow> pk_key \<Rightarrow> string \<Rightarrow> clk \<Rightarrow> ('d) rdb_scheme \<Rightarrow> ('d) rdb_scheme" where
  "set_clock t k col c d =
     d\<lparr>r_clocks := (r_clocks d)(t := AList.update k
        (AList.update col \<lparr>s_epoch = k_Epoch c, s_hlc = k_HLC c, s_device = Some (k_Device c)\<rparr> (clocks_at d t k))
        (r_clocks d t))\<rparr>"

text \<open>The largest of some strings: \<open>MAX(hlc)\<close>, NULL for none.\<close>

definition max_text :: "string list \<Rightarrow> string option" where
  "max_text xs = (case xs of [] \<Rightarrow> None | y # ys \<Rightarrow> Some (foldl (\<lambda>a b. if a < b then b else a) y ys))"

definition setUpdatedAt :: "('s) schema_scheme \<Rightarrow> db_table \<Rightarrow> row \<Rightarrow> pk_key \<Rightarrow> ('d) rdb_scheme \<Rightarrow> sql_error + ('d) rdb_scheme" where
  "setUpdatedAt S t pk pkText d =
     (case max_text (map (\<lambda>(col, c). s_hlc c) (clocks_at d (Name t) pkText)) of
        None \<Rightarrow> Inr d
      | Some newest \<Rightarrow>
          (case hlc_parse newest of
             None \<Rightarrow> Inl BadStoredHlc
           | Some ts \<Rightarrow>
               (case row_at d (Name t) (pkWhere t pk) of
                  None \<Rightarrow> Inr d
                | Some cells \<Rightarrow> Inr (put_row (Name t) (pkWhere t pk) (AList.update ''updated_at'' (VStr (sc_time S ts)) cells) d))))"

text \<open>Step 3: the row; then step 2's clocks and step 4, \<open>updated_at\<close>.\<close>

definition assigned :: "table_meta \<Rightarrow> (string, val) gomap \<Rightarrow> (string, val) gomap" where
  "assigned m win = filter (\<lambda>(c, v). case map_of (m_columns m) c of Some col \<Rightarrow> \<not> col_pk col | None \<Rightarrow> True) win"

definition write_row :: "table_meta \<Rightarrow> change \<Rightarrow> bool \<Rightarrow> (string, val) gomap \<Rightarrow> ('d) rdb_scheme \<Rightarrow> sql_error + ('d) rdb_scheme" where
  "write_row m ch exists win d =
     (let t = ch_T ch; whr = pkWhere (m_Table m) (ch_PK ch) in
      if exists then
        (if assigned m win = [] then Inr d else sql_update m t whr (assigned m win) d)
      else sql_insert m t whr (win @ gm_entries (row_of (ch_PK ch))) d)"

definition write_clocks :: "('s) schema_scheme \<Rightarrow> table_meta \<Rightarrow> change \<Rightarrow> string list \<Rightarrow> ('d) rdb_scheme \<Rightarrow> sql_error + ('d) rdb_scheme" where
  "write_clocks S m ch cols d =
     (let pkText = EncodePK (ch_PK ch);
          d2 = fold (\<lambda>c. set_clock (ch_T ch) pkText c (clockOf ch c)) cols d
      in if \<not> AppendOnly (m_Table m) then setUpdatedAt S (m_Table m) (ch_PK ch) pkText d2 else Inr d2)"

definition Apply :: "('s) schema_scheme \<Rightarrow> change \<Rightarrow> ('d) rdb_scheme \<Rightarrow> sql_error + (apply_result \<times> ('d) rdb_scheme)" where
  "Apply S ch d =
     (case meta S (ch_T ch) of
        None \<Rightarrow> Inl NotSyncedTable
      | Some m \<Rightarrow>
          (let exists = row_at d (ch_T ch) (pkWhere (m_Table m) (ch_PK ch)) \<noteq> None; win = winners d ch in
           if \<not> exists \<and> missing_required m win then Inr (Pending ''row missing'', d)
           else if missing_reference d exists ch win (m_fks m) then Inr (Pending ''reference missing'', d)
           else if win = [] then Inr (Written [], d)
           else
             (let cols = map fst (sort_key fst win) in
              case write_row m ch exists win d of
                Inl e \<Rightarrow> Inl e
              | Inr d1 \<Rightarrow>
                  (case write_clocks S m ch cols d1 of
                     Inl e \<Rightarrow> Inl e
                   | Inr d3 \<Rightarrow> Inr (Written cols, d3\<lparr>r_touched := (ch_T ch, EncodePK (ch_PK ch)) # r_touched d3\<rparr>)))))"

definition AddPending :: "scope \<Rightarrow> change \<Rightarrow> string \<Rightarrow> ('d) rdb_scheme \<Rightarrow> ('d) rdb_scheme" where
  "AddPending s ch reason d =
     d\<lparr>r_pending := r_pending d @ [(r_next_id d, s, ch, reason)], r_next_id := Suc (r_next_id d)\<rparr>"

text \<open>One pass over the waiting changes: which of them could be applied, and the database then.\<close>

fun retry_pass :: "('s) schema_scheme \<Rightarrow> (nat \<times> scope \<times> change \<times> string) list \<Rightarrow> ('d) rdb_scheme \<Rightarrow> bool
    \<Rightarrow> sql_error + (bool \<times> ('d) rdb_scheme)" where
  "retry_pass S [] d progress = Inr (progress, d)"
| "retry_pass S ((i, s, ch, reason) # es) d progress =
     (case Apply S ch d of
        Inl e \<Rightarrow> Inl e
      | Inr (Pending why, d') \<Rightarrow> retry_pass S es d' progress
      | Inr (Written cols, d') \<Rightarrow>
          retry_pass S es (d'\<lparr>r_pending := filter (\<lambda>(j, _). j \<noteq> i) (r_pending d')\<rparr>) True)"

definition pending_in :: "scope list option \<Rightarrow> ('d) rdb_scheme \<Rightarrow> (nat \<times> scope \<times> change \<times> string) list" where
  "pending_in scopes d =
     (case scopes of
        None \<Rightarrow> r_pending d
      | Some ss \<Rightarrow> filter (\<lambda>(i, s, ch, reason). List.member ss s) (r_pending d))"

subsection \<open>Rows and clocks after a write\<close>

lemma row_at_put_row [simp]:
  "row_at (put_row t k cells d) t' k' = (if t' = t \<and> k' = k then Some cells else row_at d t' k')"
  by (simp add: row_at_def put_row_def update_conv')

lemma clocks_at_put_row [simp]: "clocks_at (put_row t k cells d) = clocks_at d"
  by (simp add: clocks_at_def put_row_def fun_eq_iff)

lemma row_at_set_clock [simp]: "row_at (set_clock t k col c d) = row_at d"
  by (simp add: row_at_def set_clock_def fun_eq_iff)

lemma other_fields [simp]:
  "r_pending (put_row t k cells d) = r_pending d" "r_pending (set_clock t k col c d) = r_pending d"
  "r_device (put_row t k cells d) = r_device d" "r_device (set_clock t k col c d) = r_device d"
  "r_next_id (put_row t k cells d) = r_next_id d" "r_next_id (set_clock t k col c d) = r_next_id d"
  by (simp_all add: put_row_def set_clock_def)

lemma clk_of_other [simp]: "clk_of (put_row t k cells d) = clk_of d" "clk_of (set_clock t k col c d) = clk_of d"
    "clk_of (d\<lparr>r_touched := x\<rparr>) = clk_of d"
  by (rule ext; simp add: clk_of_def split: option.split)+

lemma clocks_at_set_clock:
  "map_of (clocks_at (set_clock t k col c d) t' k') col' =
     (if t' = t \<and> k' = k \<and> col' = col
      then Some \<lparr>s_epoch = k_Epoch c, s_hlc = k_HLC c, s_device = Some (k_Device c)\<rparr>
      else map_of (clocks_at d t' k') col')"
  by (auto simp: clocks_at_def set_clock_def gm_get_def update_conv')

lemma fieldClocks_set_clock:
  "fieldClocks (set_clock t k col c d) t' k' col' =
     (if t' = t \<and> k' = k \<and> col' = col then Some c else fieldClocks d t' k' col')"
  by (auto simp: fieldClocks_def clocks_at_set_clock clk_of_def option.map_comp comp_def)

lemma fold_set_clock:
  "row_at (fold (\<lambda>c. set_clock t k c (f c)) cols d) = row_at d"
  "r_pending (fold (\<lambda>c. set_clock t k c (f c)) cols d) = r_pending d"
  "r_device (fold (\<lambda>c. set_clock t k c (f c)) cols d) = r_device d"
  "r_next_id (fold (\<lambda>c. set_clock t k c (f c)) cols d) = r_next_id d"
  by (induction cols arbitrary: d) simp_all

lemma fieldClocks_fold:
  "fieldClocks (fold (\<lambda>c. set_clock t k c (f c)) cols d) t' k' col =
     (if t' = t \<and> k' = k \<and> col \<in> set cols then Some (f col) else fieldClocks d t' k' col)"
  by (induction cols arbitrary: d) (auto simp: fieldClocks_set_clock)

lemma fieldClocks_put_row [simp]: "fieldClocks (put_row t k cells d) = fieldClocks d"
  by (simp add: fieldClocks_def fun_eq_iff clk_of_def)

text \<open>What the two SQL statements leave, in one equation each.\<close>

lemma sql_insert_Inr: "sql_insert m t k values d = Inr d' \<Longrightarrow> d' = put_row t k (values @ defaults m) d"
  by (auto simp: sql_insert_def Let_def split: if_splits)

lemma sql_update_Inr:
  "sql_update m t k assign d = Inr d' \<Longrightarrow> row_at d t k = Some cells \<Longrightarrow> d' = put_row t k (assign @ cells) d"
  by (auto simp: sql_update_def Let_def split: if_splits)

text \<open>The cells of the written row before \<open>updated_at\<close> is derived.\<close>

definition written_cells :: "('d) rdb_scheme \<Rightarrow> table_meta \<Rightarrow> change \<Rightarrow> (string, val) gomap" where
  "written_cells d m ch =
     (case row_at d (ch_T ch) (pkWhere (m_Table m) (ch_PK ch)) of
        None \<Rightarrow> (winners d ch @ gm_entries (row_of (ch_PK ch))) @ defaults m
      | Some cells \<Rightarrow> assigned m (winners d ch) @ cells)"

lemma write_row_Inr:
  assumes "write_row m ch (row_at d (ch_T ch) (pkWhere (m_Table m) (ch_PK ch)) \<noteq> None) (winners d ch) d = Inr d1"
  shows "d1 = (if row_at d (ch_T ch) (pkWhere (m_Table m) (ch_PK ch)) \<noteq> None \<and> assigned m (winners d ch) = [] then d
     else put_row (ch_T ch) (pkWhere (m_Table m) (ch_PK ch)) (written_cells d m ch) d)"
proof (cases "row_at d (ch_T ch) (pkWhere (m_Table m) (ch_PK ch))")
  case None
  with assms show ?thesis by (auto simp: write_row_def written_cells_def Let_def dest: sql_insert_Inr)
next
  case (Some cells)
  show ?thesis
  proof (cases "assigned m (winners d ch) = []")
    case True
    with assms Some show ?thesis by (simp add: write_row_def Let_def)
  next
    case False
    then have "sql_update m (ch_T ch) (pkWhere (m_Table m) (ch_PK ch)) (assigned m (winners d ch)) d = Inr d1"
      using assms Some by (simp add: write_row_def Let_def)
    from sql_update_Inr [OF this Some] show ?thesis using False Some by (simp add: written_cells_def)
  qed
qed

lemma setUpdatedAt_Inr:
  assumes "setUpdatedAt S t pk k d = Inr d'"
  shows "fieldClocks d' = fieldClocks d" "r_pending d' = r_pending d" "r_device d' = r_device d" "r_next_id d' = r_next_id d"
    "\<And>t' k'. t' \<noteq> Name t \<or> k' \<noteq> pkWhere t pk \<Longrightarrow> row_at d' t' k' = row_at d t' k'"
    "\<And>cells. row_at d (Name t) (pkWhere t pk) = Some cells \<Longrightarrow>
       \<exists>cells'. row_at d' (Name t) (pkWhere t pk) = Some cells' \<and> (\<forall>c. c \<noteq> ''updated_at'' \<longrightarrow> map_of cells' c = map_of cells c)"
  using assms by (auto simp: setUpdatedAt_def update_conv' split: option.splits if_splits)

lemma SyncedTable_Name: "SyncedTable n = Some t \<Longrightarrow> Name t = n"
  by (auto simp: SyncedTable_def find_Some_iff)

lemma meta_Some: "meta S n = Some m \<Longrightarrow> Name (m_Table m) = n \<and> SyncedTable n = Some (m_Table m) \<and> m_fks m = sc_fks S n"
  by (auto simp: meta_def SyncedTable_Name split: option.splits)

lemma set_sort_fst: "set (map fst (sort_key fst win)) = fst ` set win"
  by simp

text \<open>Everything a successful \<open>Apply\<close> does.\<close>

lemma Apply_Written:
  assumes "Apply S ch d = Inr (Written cols, d')"
  obtains m where "meta S (ch_T ch) = Some m" "winners d ch = []" "cols = []" "d' = d"
  | m where "meta S (ch_T ch) = Some m" "winners d ch \<noteq> []"
      "cols = map fst (sort_key fst (winners d ch))"
      "\<not> missing_reference d (row_at d (ch_T ch) (pkWhere (m_Table m) (ch_PK ch)) \<noteq> None) ch (winners d ch) (m_fks m)"
      "fieldClocks d' = (\<lambda>t k col. if t = ch_T ch \<and> k = EncodePK (ch_PK ch) \<and> col \<in> fst ` set (winners d ch)
          then Some (clockOf ch col) else fieldClocks d t k col)"
      "r_pending d' = r_pending d" "r_device d' = r_device d" "r_next_id d' = r_next_id d"
      "\<And>t k. t \<noteq> ch_T ch \<or> k \<noteq> pkWhere (m_Table m) (ch_PK ch) \<Longrightarrow> row_at d' t k = row_at d t k"
      "\<exists>cells. row_at d' (ch_T ch) (pkWhere (m_Table m) (ch_PK ch)) = Some cells
         \<and> (\<forall>c. c \<noteq> ''updated_at'' \<longrightarrow> map_of cells c = map_of (written_cells d m ch) c)"
proof -
  obtain m where m: "meta S (ch_T ch) = Some m"
    using assms by (auto simp: Apply_def split: option.splits)
  let ?k = "pkWhere (m_Table m) (ch_PK ch)" and ?t = "ch_T ch"
  let ?ex = "row_at d ?t ?k \<noteq> None" and ?win = "winners d ch"
  have nm: "Name (m_Table m) = ?t" using meta_Some [OF m] by blast
  have g: "\<not> (\<not> ?ex \<and> missing_required m ?win)" "\<not> missing_reference d ?ex ch ?win (m_fks m)"
    using assms m by (auto simp: Apply_def Let_def split: if_splits)
  show thesis
  proof (cases "?win = []")
    case True
    then show thesis using assms m g that(1) by (auto simp: Apply_def Let_def split: if_splits)
  next
    case False
    define cs where "cs = map fst (sort_key fst ?win)"
    have eq: "Apply S ch d = (case write_row m ch ?ex ?win d of Inl e \<Rightarrow> Inl e
        | Inr d1 \<Rightarrow> (case write_clocks S m ch cs d1 of Inl e \<Rightarrow> Inl e
            | Inr d3 \<Rightarrow> Inr (Written cs, d3\<lparr>r_touched := (?t, EncodePK (ch_PK ch)) # r_touched d3\<rparr>)))"
      using m g False unfolding Apply_def Let_def cs_def by (simp only: option.case if_False simp_thms)
    obtain d1 where d1: "write_row m ch ?ex ?win d = Inr d1"
      using assms unfolding eq by (cases "write_row m ch ?ex ?win d") simp_all
    obtain d3 where d3: "write_clocks S m ch cs d1 = Inr d3"
      using assms unfolding eq d1 by (cases "write_clocks S m ch cs d1") simp_all
    have cols: "cols = cs" and d': "d' = d3\<lparr>r_touched := (?t, EncodePK (ch_PK ch)) # r_touched d3\<rparr>"
      using assms unfolding eq by (simp_all only: d1 d3 sum.case sum.inject prod.inject apply_result.inject)
    define d2 where "d2 = fold (\<lambda>c. set_clock ?t (EncodePK (ch_PK ch)) c (clockOf ch c)) cs d1"
    have r1: "row_at d1 ?t ?k = (if ?ex \<and> assigned m ?win = [] then row_at d ?t ?k else Some (written_cells d m ch))"
        "\<And>t k. t \<noteq> ?t \<or> k \<noteq> ?k \<Longrightarrow> row_at d1 t k = row_at d t k" "fieldClocks d1 = fieldClocks d" "r_pending d1 = r_pending d"
        "r_device d1 = r_device d" "r_next_id d1 = r_next_id d"
      using write_row_Inr [OF d1] by auto
    have c1: "\<exists>cells. row_at d1 ?t ?k = Some cells \<and> map_of cells = map_of (written_cells d m ch)"
      using r1(1) by (auto simp: written_cells_def split: option.splits)
    have c2: "row_at d2 = row_at d1" "r_pending d2 = r_pending d1" "r_device d2 = r_device d1" "r_next_id d2 = r_next_id d1"
      by (simp_all add: d2_def fold_set_clock)
    have f2: "fieldClocks d2 = (\<lambda>t k col. if t = ?t \<and> k = EncodePK (ch_PK ch) \<and> col \<in> fst ` set ?win
          then Some (clockOf ch col) else fieldClocks d t k col)"
      by (auto simp: d2_def fieldClocks_fold cs_def r1(3) fun_eq_iff)
    have e: "fieldClocks d' = fieldClocks d3" "row_at d' = row_at d3" "r_pending d' = r_pending d3"
        "r_device d' = r_device d3" "r_next_id d' = r_next_id d3"
      by (simp_all add: d' fieldClocks_def clocks_at_def row_at_def fun_eq_iff)
    note goal2 = that(2) [OF m False]
    have fin: thesis
      if a: "fieldClocks d3 = fieldClocks d2" "r_pending d3 = r_pending d2" "r_device d3 = r_device d2" "r_next_id d3 = r_next_id d2"
        and b: "\<And>t k. t \<noteq> ?t \<or> k \<noteq> ?k \<Longrightarrow> row_at d3 t k = row_at d2 t k"
        and c: "\<exists>cells. row_at d3 ?t ?k = Some cells
          \<and> (\<forall>c. c \<noteq> ''updated_at'' \<longrightarrow> map_of cells c = map_of (written_cells d m ch) c)"
    proof (rule goal2)
      show "cols = map fst (sort_key fst ?win)" by (simp only: cols cs_def)
      show "\<not> missing_reference d ?ex ch ?win (m_fks m)" by (rule g(2))
      show "fieldClocks d' = (\<lambda>t k col. if t = ?t \<and> k = EncodePK (ch_PK ch) \<and> col \<in> fst ` set ?win
          then Some (clockOf ch col) else fieldClocks d t k col)" by (simp only: e a f2)
      show "r_pending d' = r_pending d" "r_device d' = r_device d" "r_next_id d' = r_next_id d"
        by (simp_all only: e a c2 r1)
      show "row_at d' t k = row_at d t k" if "t \<noteq> ?t \<or> k \<noteq> ?k" for t k
        by (simp only: e b [OF that] c2 r1(2) [OF that])
      show "\<exists>cells. row_at d' ?t ?k = Some cells
          \<and> (\<forall>c. c \<noteq> ''updated_at'' \<longrightarrow> map_of cells c = map_of (written_cells d m ch) c)"
        using c by (simp only: e)
    qed
    show thesis
    proof (cases "AppendOnly (m_Table m)")
      case True
      then have "d3 = d2" using d3 by (simp add: write_clocks_def d2_def Let_def)
      then show thesis using fin c1 c2(1) by metis
    next
      case nAO: False
      then have "setUpdatedAt S (m_Table m) (ch_PK ch) (EncodePK (ch_PK ch)) d2 = Inr d3"
        using d3 by (simp add: write_clocks_def d2_def Let_def)
      note U = setUpdatedAt_Inr [OF this, unfolded nm]
      obtain cells where cl: "row_at d2 ?t ?k = Some cells" "map_of cells = map_of (written_cells d m ch)"
        using c1 c2(1) by auto
      from U(6) [OF cl(1)] cl(2) have "\<exists>cells. row_at d3 ?t ?k = Some cells
          \<and> (\<forall>c. c \<noteq> ''updated_at'' \<longrightarrow> map_of cells c = map_of (written_cells d m ch) c)" by simp
      from fin [OF U(1-5) this] show thesis by blast
    qed
  qed
qed

lemma Apply_Pending: "Apply S ch d = Inr (Pending why, d') \<Longrightarrow> d' = d"
  by (auto simp: Apply_def Let_def split: option.splits if_splits sum.splits)

subsection \<open>Applying a change again\<close>

text \<open>
  C5. Applying a change a second time has no effect: no column is written and the database is the
  one the first application left, whatever the change holds.
\<close>

theorem Apply_idempotent:
  assumes "Apply S ch d = Inr (Written cols, d')"
  shows "Apply S ch d' = Inr (Written [], d')"
  using assms
proof (cases rule: Apply_Written)
  case (1 m)
  then show ?thesis using assms by simp
next
  case (2 m)
  have w: "winners d' ch = []"
  proof -
    have "False" if cv: "(col, v) \<in> set (winners d' ch)" for col v
    proof -
      have mem: "(col, v) \<in> set (gm_entries (row_of (ch_Set ch)))" using cv by (auto simp: winners_def)
      show False
      proof (cases "col \<in> fst ` set (winners d ch)")
        case True
        then show False using cv 2(5) by (auto simp: winners_def clk.irrefl)
      next
        case False
        then have "(col, v) \<notin> set (winners d ch)" by force
        then show False using cv mem False 2(5) by (auto simp: winners_def split: option.splits)
      qed
    qed
    then show ?thesis by (metis list.set_intros(1) neq_Nil_conv surj_pair)
  qed
  obtain cells where ex: "row_at d' (ch_T ch) (pkWhere (m_Table m) (ch_PK ch)) = Some cells" using 2(10) by blast
  have "\<not> missing_reference d' True ch [] (m_fks m)"
    by (simp add: missing_reference_def fk_value_def list_ex_iff)
  then show ?thesis using 2(1) w ex by (simp add: Apply_def Let_def)
qed

subsection \<open>Cells: last writer wins\<close>

text \<open>
  The abstract replica: every cell (table, key, column) holds a value with its clock, and a write
  replaces it exactly when its clock is newer.
\<close>

definition cell :: "('d) rdb_scheme \<Rightarrow> string \<Rightarrow> pk_key \<Rightarrow> string \<Rightarrow> (clk \<times> val) option" where
  "cell d t k col =
     (case fieldClocks d t k col of
        None \<Rightarrow> None
      | Some c \<Rightarrow> (case row_at d t k of None \<Rightarrow> None | Some cells \<Rightarrow> Some (c, gm_get VNil cells col)))"

definition lww_merge :: "('c \<Rightarrow> 'c \<Rightarrow> bool) \<Rightarrow> ('c \<times> 'v) option \<Rightarrow> 'c \<times> 'v \<Rightarrow> ('c \<times> 'v) option" where
  "lww_merge lt cur new =
     (case cur of None \<Rightarrow> Some new | Some (c, v) \<Rightarrow> if lt c (fst new) then Some new else Some (c, v))"

definition lww_all :: "('c \<Rightarrow> 'c \<Rightarrow> bool) \<Rightarrow> ('c \<times> 'v) list \<Rightarrow> ('c \<times> 'v) option \<Rightarrow> ('c \<times> 'v) option" where
  "lww_all lt ws cur = foldl (lww_merge lt) cur ws"

context strict_order
begin

lemma lww_all_max:
  "lww_all lt ws cur = Some (c, v) \<Longrightarrow>
     (c, v) \<in> set ws \<union> set_option cur \<and> (\<forall>(c', v') \<in> set ws \<union> set_option cur. \<not> lt c c')"
proof (induction ws arbitrary: cur)
  case Nil
  then show ?case by (auto simp: lww_all_def irrefl)
next
  case (Cons w ws)
  obtain cw vw where w: "w = (cw, vw)" by fastforce
  have ih: "(c, v) \<in> set ws \<union> set_option (lww_merge lt cur w)"
      "\<forall>(c', v') \<in> set ws \<union> set_option (lww_merge lt cur w). \<not> lt c c'"
    using Cons.IH [of "lww_merge lt cur w"] Cons.prems by (auto simp: lww_all_def)
  show ?case
  proof (cases cur)
    case None
    then show ?thesis using ih by (auto simp: lww_merge_def)
  next
    case (Some p)
    obtain c0 v0 where p: "p = (c0, v0)" by fastforce
    show ?thesis
    proof (cases "lt c0 cw")
      case True
      then have "\<not> lt c c0" using ih(2) Some p w trans by (auto simp: lww_merge_def)
      then show ?thesis using ih True Some p w by (auto simp: lww_merge_def)
    next
      case False
      then have "\<not> lt c cw" using ih(2) Some p w trans total by (auto simp: lww_merge_def) metis
      then show ?thesis using ih False Some p w by (auto simp: lww_merge_def)
    qed
  qed
qed

lemma lww_merge_not_None: "lww_merge lt cur w \<noteq> None"
  by (auto simp: lww_merge_def split: option.split)

lemma lww_all_None_iff: "lww_all lt ws cur = None \<longleftrightarrow> ws = [] \<and> cur = None"
proof (induction ws arbitrary: cur)
  case (Cons w ws)
  have "lww_all lt (w # ws) cur = lww_all lt ws (lww_merge lt cur w)" by (simp add: lww_all_def)
  then show ?case using Cons.IH lww_merge_not_None by (metis list.distinct(1))
qed (simp add: lww_all_def)

text \<open>Writes that agree on the value of a clock give one result in every order and with repetitions.\<close>

lemma lww_all_set:
  assumes "set ws = set ws'"
    and "\<forall>(c, v) \<in> set ws \<union> set_option cur. \<forall>(c', v') \<in> set ws \<union> set_option cur. c = c' \<longrightarrow> v = v'"
  shows "lww_all lt ws cur = lww_all lt ws' cur"
proof (cases "lww_all lt ws cur")
  case None
  then have "ws' = []" "cur = None" using assms(1) by (auto simp: lww_all_None_iff)
  then show ?thesis using None by (simp add: lww_all_def)
next
  case (Some p)
  obtain c v where p: "p = (c, v)" by fastforce
  have "lww_all lt ws' cur \<noteq> None" using Some assms(1) by (metis lww_all_None_iff option.distinct(1) set_empty)
  then obtain c' v' where q: "lww_all lt ws' cur = Some (c', v')" by auto
  note m1 = lww_all_max [OF Some [unfolded p]] and m2 = lww_all_max [OF q, folded assms(1)]
  have "c = c'" using m1 m2 total by fast
  moreover from this have "v = v'" using m1 m2 assms(2) by fast
  ultimately show ?thesis using Some p q by simp
qed

end

text \<open>No clock without its row: what every write keeps.\<close>

definition clocked :: "('d) rdb_scheme \<Rightarrow> bool" where
  "clocked d \<longleftrightarrow> (\<forall>t k col. fieldClocks d t k col \<noteq> None \<longrightarrow> row_at d t k \<noteq> None)"

definition data_column :: "('s) schema_scheme \<Rightarrow> string \<Rightarrow> string \<Rightarrow> bool" where
  "data_column S t col \<longleftrightarrow>
     (case meta S t of
        None \<Rightarrow> False
      | Some m \<Rightarrow> (case map_of (m_columns m) col of None \<Rightarrow> False | Some c \<Rightarrow> \<not> col_pk c \<and> col \<noteq> ''updated_at''))"

definition key_ok :: "('s) schema_scheme \<Rightarrow> change \<Rightarrow> bool" where
  "key_ok S ch \<longleftrightarrow>
     (case meta S (ch_T ch) of None \<Rightarrow> False | Some m \<Rightarrow> pkWhere (m_Table m) (ch_PK ch) = EncodePK (ch_PK ch))"

lemma clocked_row: "clocked d \<Longrightarrow> fieldClocks d t k col = Some c \<Longrightarrow> \<exists>cells. row_at d t k = Some cells"
  by (fastforce simp: clocked_def)

lemma not_winner:
  assumes "col \<notin> fst ` set (winners d ch)" "map_of (row_of (ch_Set ch)) col = Some v"
  shows "\<exists>c. fieldClocks d (ch_T ch) (EncodePK (ch_PK ch)) col = Some c \<and> \<not> clk_Less c (clockOf ch col)"
proof -
  have "(col, v) \<in> set (gm_entries (row_of (ch_Set ch)))" using assms(2) by (simp add: set_gm_entries)
  moreover have "(col, v) \<notin> set (winners d ch)" using assms(1) by force
  ultimately show ?thesis by (auto simp: winners_def split: option.splits)
qed

text \<open>A column that does not win keeps its cell, whether the change names it or not.\<close>

lemma lww_keep:
  assumes "clocked d" "col \<notin> fst ` set (winners d ch)" "map_of (row_of (ch_Set ch)) col = Some v"
  shows "lww_merge clk_Less (cell d (ch_T ch) (EncodePK (ch_PK ch)) col) (clockOf ch col, v)
    = cell d (ch_T ch) (EncodePK (ch_PK ch)) col"
proof -
  obtain c where c: "fieldClocks d (ch_T ch) (EncodePK (ch_PK ch)) col = Some c" "\<not> clk_Less c (clockOf ch col)"
    using not_winner [OF assms(2,3)] by blast
  with clocked_row [OF assms(1) c(1)] show ?thesis by (auto simp: cell_def lww_merge_def)
qed

lemma distinct_winners: "distinct (map fst (winners d ch))"
  unfolding winners_def by (rule distinct_map_filter) (rule distinct_gm_entries)

lemma cell_lww:
  assumes "Apply S ch d = Inr (Written cols, d')" "key_ok S ch" "clocked d"
    and col: "t = ch_T ch \<Longrightarrow> data_column S t col"
  shows "cell d' t k col =
     (if t = ch_T ch \<and> k = EncodePK (ch_PK ch)
      then (case map_of (row_of (ch_Set ch)) col of
              None \<Rightarrow> cell d t k col
            | Some v \<Rightarrow> lww_merge clk_Less (cell d t k col) (clockOf ch col, v))
      else cell d t k col)"
  using assms(1)
proof (cases rule: Apply_Written)
  case (1 m)
  then show ?thesis using lww_keep [OF assms(3)] by (auto split: option.split)
next
  case (2 m)
  have key: "pkWhere (m_Table m) (ch_PK ch) = EncodePK (ch_PK ch)"
    using assms(2) 2(1) by (simp add: key_ok_def)
  show ?thesis
  proof (cases "t = ch_T ch \<and> k = EncodePK (ch_PK ch)")
    case False
    then have "fieldClocks d' t k col = fieldClocks d t k col" "row_at d' t k = row_at d t k"
      using 2(5,9) key by auto
    then have "cell d' t k col = cell d t k col" by (simp only: cell_def)
    then show ?thesis using False by auto
  next
    case True
    obtain cells where cells: "row_at d' t k = Some cells"
        "\<And>c. c \<noteq> ''updated_at'' \<Longrightarrow> map_of cells c = map_of (written_cells d m ch) c"
      using 2(10) True key by auto
    have dc: "col \<noteq> ''updated_at''" "\<exists>cc. map_of (m_columns m) col = Some cc \<and> \<not> col_pk cc"
      using col True 2(1) by (auto simp: data_column_def split: option.splits)
    show ?thesis
    proof (cases "map_of (winners d ch) col")
      case (Some v)
      then have mem: "(col, v) \<in> set (winners d ch)" by (rule map_of_SomeD)
      then have set: "map_of (row_of (ch_Set ch)) col = Some v"
          and new: "\<And>c. fieldClocks d t k col = Some c \<Longrightarrow> clk_Less c (clockOf ch col)"
        using True by (auto simp: winners_def set_gm_entries split: option.splits)
      have "map_of cells col = Some v"
      proof (cases "row_at d (ch_T ch) (pkWhere (m_Table m) (ch_PK ch))")
        case None
        then show ?thesis using cells(2) [OF dc(1)] Some by (simp add: written_cells_def)
      next
        case (Some old)
        have "map_of (assigned m (winners d ch)) col = Some v"
          using dc(2) \<open>map_of (winners d ch) col = Some v\<close> unfolding assigned_def by (auto intro!: map_of_filter_in)
        then show ?thesis using cells(2) [OF dc(1)] Some by (simp add: written_cells_def)
      qed
      moreover have "fieldClocks d' t k col = Some (clockOf ch col)"
        using 2(5) True mem by force
      ultimately show ?thesis using True set new cells(1)
        by (auto simp: cell_def lww_merge_def gm_get_def split: option.splits)
    next
      case None
      then have nm: "col \<notin> fst ` set (winners d ch)" by (simp add: map_of_eq_None_iff)
      then have f: "fieldClocks d' t k col = fieldClocks d t k col" using 2(5) True by auto
      have "cell d' t k col = cell d t k col"
      proof (cases "fieldClocks d t k col")
        case None
        then show ?thesis using f by (simp add: cell_def)
      next
        case (Some c)
        obtain old where old: "row_at d t k = Some old" using clocked_row [OF assms(3) Some] by blast
        have "map_of (assigned m (winners d ch)) col = None"
          using nm by (auto simp: assigned_def map_of_eq_None_iff)
        then have "map_of cells col = map_of old col"
          using cells(2) [OF dc(1)] old True key by (simp add: written_cells_def map_add_def)
        then show ?thesis using f Some old cells(1) by (simp add: cell_def gm_get_def)
      qed
      then show ?thesis using True lww_keep [OF assms(3) nm] by (auto split: option.split)
    qed
  qed
qed

lemma Apply_clocked:
  assumes "Apply S ch d = Inr (Written cols, d')" "key_ok S ch" "clocked d"
  shows "clocked d'"
  using assms(1)
proof (cases rule: Apply_Written)
  case (2 m)
  have key: "pkWhere (m_Table m) (ch_PK ch) = EncodePK (ch_PK ch)"
    using assms(2) 2(1) by (simp add: key_ok_def)
  have "\<exists>cells. row_at d' t k = Some cells" if "fieldClocks d' t k col = Some c" for t k col c
    using that 2(5,9,10) key clocked_row [OF assms(3)]
    by (cases "t = ch_T ch \<and> k = EncodePK (ch_PK ch)") auto
  then show ?thesis unfolding clocked_def by (metis not_Some_eq)
qed (use assms in simp)

subsection \<open>Convergence\<close>

text \<open>A run of changes that are all applied at once; and the writes a list of changes makes to a cell.\<close>

fun apply_all :: "('s) schema_scheme \<Rightarrow> change list \<Rightarrow> ('d) rdb_scheme \<Rightarrow> ('d) rdb_scheme option" where
  "apply_all S [] d = Some d"
| "apply_all S (ch # chs) d =
     (case Apply S ch d of
        Inr (Written cols, d') \<Rightarrow> apply_all S chs d'
      | Inr (Pending why, d') \<Rightarrow> None
      | Inl e \<Rightarrow> None)"

definition cell_writes :: "change list \<Rightarrow> string \<Rightarrow> pk_key \<Rightarrow> string \<Rightarrow> (clk \<times> val) list" where
  "cell_writes chs t k col =
     concat (map (\<lambda>ch. if t = ch_T ch \<and> k = EncodePK (ch_PK ch)
                       then (case map_of (row_of (ch_Set ch)) col of None \<Rightarrow> [] | Some v \<Rightarrow> [(clockOf ch col, v)])
                       else []) chs)"

lemma apply_all_cell:
  assumes "apply_all S chs d = Some d'" "clocked d" "\<forall>ch \<in> set chs. key_ok S ch" "data_column S t col"
  shows "cell d' t k col = lww_all clk_Less (cell_writes chs t k col) (cell d t k col)"
  using assms(1-3)
proof (induction chs arbitrary: d)
  case Nil
  then show ?case by (simp add: cell_writes_def lww_all_def)
next
  case (Cons ch chs)
  obtain cols d1 where d1: "Apply S ch d = Inr (Written cols, d1)" and rest: "apply_all S chs d1 = Some d'"
    using Cons.prems(1) by (auto split: sum.splits apply_result.splits)
  have "clocked d1" using Apply_clocked [OF d1] Cons.prems by simp
  then have "cell d' t k col = lww_all clk_Less (cell_writes chs t k col) (cell d1 t k col)"
    using Cons.IH [OF rest] Cons.prems(3) by simp
  moreover have "cell d1 t k col =
     (if t = ch_T ch \<and> k = EncodePK (ch_PK ch)
      then (case map_of (row_of (ch_Set ch)) col of
              None \<Rightarrow> cell d t k col
            | Some v \<Rightarrow> lww_merge clk_Less (cell d t k col) (clockOf ch col, v))
      else cell d t k col)"
    by (rule cell_lww [OF d1 _ Cons.prems(2) assms(4)]) (use Cons.prems(3) in simp)
  ultimately show ?case by (auto simp: cell_writes_def lww_all_def split: option.splits)
qed

lemma set_cell_writes:
  "set (cell_writes chs t k col) =
     {(clockOf ch col, v) | ch v. ch \<in> set chs \<and> t = ch_T ch \<and> k = EncodePK (ch_PK ch) \<and> map_of (row_of (ch_Set ch)) col = Some v}"
  by (auto simp: cell_writes_def split: if_splits option.splits)

text \<open>One value per clock among the writes to a cell and what it holds.\<close>

definition agree :: "(clk \<times> val) list \<Rightarrow> (clk \<times> val) option \<Rightarrow> bool" where
  "agree ws cur \<longleftrightarrow>
     list_all (\<lambda>(c, v). list_all (\<lambda>(c', v'). c = c' \<longrightarrow> v = v') (ws @ (case cur of None \<Rightarrow> [] | Some w \<Rightarrow> [w])))
       (ws @ (case cur of None \<Rightarrow> [] | Some w \<Rightarrow> [w]))"

text \<open>
  C1. Convergence: two devices that start from the same state and apply the same set of changes, in
  whatever order and however often each, hold the same value with the same clock in every data cell,
  provided that writes with equal clocks to a cell carry equal values (a device never reuses a clock).
\<close>

theorem replicas_converge:
  assumes "apply_all S chs d = Some d1" "apply_all S chs' d = Some d2" "set chs = set chs'"
    and "clocked d" "list_all (key_ok S) chs" "data_column S t col"
    and "agree (cell_writes chs t k col) (cell d t k col)"
  shows "cell d1 t k col = cell d2 t k col"
proof -
  have "set (cell_writes chs t k col) = set (cell_writes chs' t k col)"
    using assms(3) by (simp add: set_cell_writes)
  moreover have "\<forall>(c, v) \<in> set (cell_writes chs t k col) \<union> set_option (cell d t k col).
      \<forall>(c', v') \<in> set (cell_writes chs t k col) \<union> set_option (cell d t k col). c = c' \<longrightarrow> v = v'"
    using assms(7) by (cases "cell d t k col") (auto simp: agree_def list_all_iff)
  ultimately have "lww_all clk_Less (cell_writes chs t k col) (cell d t k col)
      = lww_all clk_Less (cell_writes chs' t k col) (cell d t k col)"
    by (rule clk.lww_all_set)
  then show ?thesis
    using apply_all_cell [OF assms(1,4) _ assms(6)] apply_all_cell [OF assms(2,4) _ assms(6)] assms(3,5)
    by (simp add: list_all_iff)
qed

subsection \<open>Waiting changes\<close>

lemma Apply_r_pending: "Apply S ch d = Inr (res, d') \<Longrightarrow> r_pending d' = r_pending d"
proof (cases res)
  case (Written cols)
  then show "Apply S ch d = Inr (res, d') \<Longrightarrow> ?thesis" by (auto elim: Apply_Written)
qed (auto dest: Apply_Pending)

lemma retry_pass_le: "retry_pass S es d p = Inr (p', d') \<Longrightarrow> length (r_pending d') \<le> length (r_pending d)"
proof (induction S es d p rule: retry_pass.induct)
  case (2 S i s ch reason es d p)
  obtain res d1 where d1: "Apply S ch d = Inr (res, d1)" using 2(3) by (auto split: sum.splits)
  show ?case
  proof (cases res)
    case (Written cols)
    then have "length (r_pending d') \<le> length (filter (\<lambda>(j, _). j \<noteq> i) (r_pending d1))"
      using 2(1) [OF d1 refl Written] 2(3) d1 by simp
    then show ?thesis using length_filter_le [of _ "r_pending d1"] Apply_r_pending [OF d1] by (metis le_trans)
  next
    case (Pending why)
    then show ?thesis using 2(2) [OF d1 refl Pending] 2(3) d1 Apply_r_pending [OF d1] by simp
  qed
qed simp

lemma retry_pass_less:
  "retry_pass S es d p = Inr (True, d') \<Longrightarrow> \<not> p \<Longrightarrow> set es \<subseteq> set (r_pending d) \<Longrightarrow>
     length (r_pending d') < length (r_pending d)"
proof (induction S es d p rule: retry_pass.induct)
  case (2 S i s ch reason es d p)
  obtain res d1 where d1: "Apply S ch d = Inr (res, d1)" using 2(3) by (auto split: sum.splits)
  show ?case
  proof (cases res)
    case (Written cols)
    then have "retry_pass S es (d1\<lparr>r_pending := filter (\<lambda>(j, _). j \<noteq> i) (r_pending d1)\<rparr>) True = Inr (True, d')"
      using 2(3) d1 by simp
    from retry_pass_le [OF this] have "length (r_pending d') \<le> length (filter (\<lambda>(j, _). j \<noteq> i) (r_pending d))"
      using Apply_r_pending [OF d1] by simp
    also have "\<dots> < length (r_pending d)"
      using 2(5) by (intro length_filter_less [of "(i, s, ch, reason)"]) auto
    finally show ?thesis .
  next
    case (Pending why)
    then show ?thesis using 2(2) [OF d1 refl Pending] 2(3,4,5) d1 Apply_r_pending [OF d1] by simp
  qed
qed simp

lemma retry_pass_progress: "retry_pass S es d p = Inr (r, e) \<Longrightarrow> p \<Longrightarrow> r"
  by (induction S es d p rule: retry_pass.induct) (auto split: sum.splits apply_result.splits)

lemma retry_pass_none:
  "retry_pass S es d p = Inr (False, d') \<Longrightarrow>
     d' = d \<and> list_all (\<lambda>(i, s, ch, reason). \<exists>why. Apply S ch d = Inr (Pending why, d)) es"
proof (induction S es d p rule: retry_pass.induct)
  case (2 S i s ch reason es d p)
  obtain res d1 where d1: "Apply S ch d = Inr (res, d1)" using 2(3) by (auto split: sum.splits)
  show ?case
  proof (cases res)
    case (Written cols)
    then show ?thesis using 2(3) d1 retry_pass_progress by fastforce
  next
    case (Pending why)
    with Apply_Pending have "d1 = d" using d1 by blast
    then show ?thesis using 2(2) [OF d1 refl Pending] 2(3) d1 Pending by auto
  qed
qed simp

lemma pending_in_subset: "set (pending_in scopes d) \<subseteq> set (r_pending d)"
  by (auto simp: pending_in_def split: option.splits)

text \<open>
  \<open>RetryPending\<close>: passes over the waiting changes until a pass applies none. It ends because every
  pass that goes on has removed a waiting change.
\<close>

function RetryPending :: "('s) schema_scheme \<Rightarrow> scope list option \<Rightarrow> ('d) rdb_scheme \<Rightarrow> sql_error + (nat \<times> ('d) rdb_scheme)" where
  "RetryPending S scopes d =
     (if scopes = Some [] then Inr (0, d)
      else (let entries = pending_in scopes d in
            case retry_pass S entries d False of
              Inl e \<Rightarrow> Inl e
            | Inr (progress, d') \<Rightarrow>
                if progress then RetryPending S scopes d' else Inr (length entries, d')))"
  by pat_completeness auto
termination
  by (relation "measure (\<lambda>(S, scopes, d). length (r_pending d))")
    (auto intro!: retry_pass_less dest: subsetD [OF pending_in_subset])

declare RetryPending.simps [simp del]

text \<open>
  C4. \<open>RetryPending\<close> leaves no change behind that could be applied: each change of the given scopes
  that still waits is one that \<open>Apply\<close> cannot write in the final state, and the number it returns
  counts them.
\<close>

theorem RetryPending_complete:
  assumes "RetryPending S scopes d = Inr (n, d')"
  shows "if scopes = Some [] then n = 0 \<and> d' = d
    else n = length (pending_in scopes d') \<and>
      list_all (\<lambda>(i, s, ch, reason). \<exists>why. Apply S ch d' = Inr (Pending why, d')) (pending_in scopes d')"
  using assms
proof (induction S scopes d rule: RetryPending.induct)
  case (1 S scopes d)
  show ?case
  proof (cases "scopes = Some []")
    case True
    then show ?thesis using 1(2) by (simp add: RetryPending.simps)
  next
    case False
    obtain p d1 where d1: "retry_pass S (pending_in scopes d) d False = Inr (p, d1)"
      using 1(2) False by (subst (asm) RetryPending.simps) (auto simp: Let_def split: sum.splits)
    show ?thesis
    proof (cases p)
      case True
      then have "RetryPending S scopes d1 = Inr (n, d')"
        using 1(2) False d1 by (subst (asm) RetryPending.simps) (simp add: Let_def)
      from 1(1) [OF False refl d1 refl True this] show ?thesis using False by simp
    next
      case pf: False
      then have "n = length (pending_in scopes d)" "d' = d1"
        using 1(2) False d1 by (subst (asm) RetryPending.simps, simp add: Let_def)+
      then show ?thesis using retry_pass_none [of S "pending_in scopes d" d False d1] d1 pf False by simp
    qed
  qed
qed

subsection \<open>Referential integrity\<close>

definition refs_ok :: "('s) schema_scheme \<Rightarrow> ('d) rdb_scheme \<Rightarrow> bool" where
  "refs_ok S d \<longleftrightarrow>
     (\<forall>t k cells fk. SyncedTable t \<noteq> None \<longrightarrow> fk \<in> set (sc_fks S t) \<longrightarrow> row_at d t k = Some cells \<longrightarrow>
        gm_get VNil cells (fk_from fk) = VNil \<or> references d fk (gm_get VNil cells (fk_from fk)))"

text \<open>References point to primary key columns, have no default, and are not derived columns.\<close>

definition fk_ok :: "('s) schema_scheme \<Rightarrow> string \<Rightarrow> foreign_key \<Rightarrow> bool" where
  "fk_ok S t fk \<longleftrightarrow>
     fk_from fk \<noteq> ''updated_at'' \<and> fk_to fk \<noteq> ''updated_at'' \<and>
     (case map_of (map (\<lambda>c. (col_name c, c)) (sc_columns S t)) (fk_from fk) of
        Some c \<Rightarrow> \<not> col_hasDefault c | None \<Rightarrow> True) \<and>
     (case map_of (map (\<lambda>c. (col_name c, c)) (sc_columns S (fk_table fk))) (fk_to fk) of
        Some c \<Rightarrow> col_pk c | None \<Rightarrow> False)"

definition fks_ok :: "('s) schema_scheme \<Rightarrow> bool" where
  "fks_ok S \<longleftrightarrow> list_all (\<lambda>t. list_all (fk_ok S (Name t)) (sc_fks S (Name t))) SyncedTables"

lemma fks_okD:
  assumes "fks_ok S" "SyncedTable t \<noteq> None" "fk \<in> set (sc_fks S t)"
  shows "fk_from fk \<noteq> ''updated_at''" "fk_to fk \<noteq> ''updated_at''"
    "map_of (map (\<lambda>c. (col_name c, c)) (sc_columns S t)) (fk_from fk) = Some c \<Longrightarrow> \<not> col_hasDefault c"
    "\<exists>c. map_of (map (\<lambda>c. (col_name c, c)) (sc_columns S (fk_table fk))) (fk_to fk) = Some c \<and> col_pk c"
proof -
  obtain tb where "tb \<in> set SyncedTables" "Name tb = t" using assms(2) SyncedTable_Some by fastforce
  then have "fk_ok S t fk" using assms(1,3) unfolding fks_ok_def list_all_iff by blast
  then show "fk_from fk \<noteq> ''updated_at''" "fk_to fk \<noteq> ''updated_at''"
    "map_of (map (\<lambda>c. (col_name c, c)) (sc_columns S t)) (fk_from fk) = Some c \<Longrightarrow> \<not> col_hasDefault c"
    "\<exists>c. map_of (map (\<lambda>c. (col_name c, c)) (sc_columns S (fk_table fk))) (fk_to fk) = Some c \<and> col_pk c"
    unfolding fk_ok_def by (auto split: option.splits)
qed

lemma references_iff:
  "references d fk v \<longleftrightarrow> (\<exists>k cells. row_at d (fk_table fk) k = Some cells \<and> gm_get VNil cells (fk_to fk) = v)"
  by (fastforce simp: references_def list_ex_iff row_at_def set_gm_entries)

text \<open>Rows never disappear and keep their key columns, so that references stay good.\<close>

lemma references_mono:
  assumes "Apply S ch d = Inr (Written cols, d')" "references d fk v"
    and "fks_ok S" "SyncedTable t \<noteq> None" "fk \<in> set (sc_fks S t)"
  shows "references d' fk v"
  using assms(1)
proof (cases rule: Apply_Written)
  case (2 m)
  obtain k cells where c: "row_at d (fk_table fk) k = Some cells" "gm_get VNil cells (fk_to fk) = v"
    using assms(2) by (auto simp: references_iff)
  show ?thesis
  proof (cases "fk_table fk = ch_T ch \<and> k = pkWhere (m_Table m) (ch_PK ch)")
    case False
    then show ?thesis using c 2(9) unfolding references_iff by metis
  next
    case True
    obtain cc where "map_of (m_columns m) (fk_to fk) = Some cc" "col_pk cc"
      using fks_okD(4) [OF assms(3-5)] 2(1) True by (auto simp: meta_def split: option.splits)
    then have "fk_to fk \<notin> fst ` set (assigned m (winners d ch))" by (auto simp: assigned_def)
    then have "map_of (assigned m (winners d ch)) (fk_to fk) = None" by (simp add: map_of_eq_None_iff)
    then have "map_of (written_cells d m ch) (fk_to fk) = map_of cells (fk_to fk)"
      using c(1) True by (simp add: written_cells_def map_add_def)
    then show ?thesis using 2(10) c(2) True fks_okD(2) [OF assms(3-5)] unfolding references_iff gm_get_def by metis
  qed
qed (use assms in simp)

lemma written_reference:
  assumes "meta S (ch_T ch) = Some m" "fk \<in> set (m_fks m)" "fks_ok S"
    and "\<not> missing_reference d (row_at d (ch_T ch) (pkWhere (m_Table m) (ch_PK ch)) \<noteq> None) ch (winners d ch) (m_fks m)"
    and "v = gm_get VNil (written_cells d m ch) (fk_from fk)" "v \<noteq> VNil"
  shows "references d fk v \<or>
    (\<exists>cells. row_at d (ch_T ch) (pkWhere (m_Table m) (ch_PK ch)) = Some cells \<and> v = gm_get VNil cells (fk_from fk))"
proof -
  have fkm: "fk \<in> set (sc_fks S (ch_T ch))" "SyncedTable (ch_T ch) \<noteq> None"
    using assms(1,2) meta_Some by fastforce+
  have nd: "map_of (m_columns m) (fk_from fk) = Some c \<Longrightarrow> \<not> col_hasDefault c" for c
    using fks_okD(3) [OF assms(3) fkm(2,1)] assms(1) by (auto simp: meta_def split: option.splits)
  have checked: "fk_value ex ch (winners d ch) fk = v \<Longrightarrow> references d fk v"
    if "ex = (row_at d (ch_T ch) (pkWhere (m_Table m) (ch_PK ch)) \<noteq> None)" for ex
    using assms(2,4,6) that by (auto simp: missing_reference_def list_ex_iff Let_def)
  show ?thesis
  proof (cases "row_at d (ch_T ch) (pkWhere (m_Table m) (ch_PK ch))")
    case None
    have "map_of (defaults m) (fk_from fk) \<noteq> Some v"
    proof
      assume "map_of (defaults m) (fk_from fk) = Some v"
      then have "map_option (\<lambda>col. if col_hasDefault col then col_default col else VNil) (map_of (m_columns m) (fk_from fk)) = Some v"
        by (simp add: defaults_def map_of_map)
      then show False using nd assms(6) by auto
    qed
    then have "fk_value False ch (winners d ch) fk = v"
      using None assms(5,6)
      by (auto simp: written_cells_def gm_get_def fk_value_def map_add_def split: option.splits)
    then show ?thesis using checked [of False] None by simp
  next
    case (Some cells)
    show ?thesis
    proof (cases "map_of (assigned m (winners d ch)) (fk_from fk)")
      case None
      then show ?thesis using Some assms(5) by (simp add: written_cells_def gm_get_def map_add_def)
    next
      case (Some w)
      then have "(fk_from fk, w) \<in> set (winners d ch)" by (auto simp: assigned_def dest: map_of_SomeD)
      then have "map_of (winners d ch) (fk_from fk) = Some w" using distinct_winners [of d ch] by simp
      moreover have "v = w"
        using assms(5) Some \<open>row_at d (ch_T ch) (pkWhere (m_Table m) (ch_PK ch)) = Some cells\<close>
        by (simp add: written_cells_def gm_get_def map_add_def)
      ultimately have "fk_value True ch (winners d ch) fk = v" by (simp add: fk_value_def)
      then show ?thesis using checked [of True] \<open>row_at d (ch_T ch) (pkWhere (m_Table m) (ch_PK ch)) = Some cells\<close> by simp
    qed
  qed
qed

text \<open>
  C3. Referential integrity: applying a change never leaves a row whose foreign keys point to a row
  that is not there; a change that would do so is kept as a waiting change instead.
\<close>

theorem Apply_keeps_references:
  assumes "fks_ok S" "refs_ok S d" "Apply S ch d = Inr (res, d')"
  shows "refs_ok S d'"
proof (cases res)
  case (Pending why)
  then have "d' = d" using assms(3) Apply_Pending by blast
  then show ?thesis using assms by simp
next
  case (Written cols)
  with assms(3) have A: "Apply S ch d = Inr (Written cols, d')" by simp
  show ?thesis using A
  proof (cases rule: Apply_Written)
    case (1 m)
    then show ?thesis using assms by simp
  next
    case (2 m)
    have "gm_get VNil cells (fk_from fk) = VNil \<or> references d' fk (gm_get VNil cells (fk_from fk))"
      if t: "SyncedTable t \<noteq> None" and fk: "fk \<in> set (sc_fks S t)" and row: "row_at d' t k = Some cells" for t k cells fk
    proof -
      note mono = references_mono [OF A _ assms(1) t fk]
      have old: "row_at d t k = Some cs \<Longrightarrow> gm_get VNil cs (fk_from fk) = VNil \<or> references d' fk (gm_get VNil cs (fk_from fk))" for cs
        using assms(2) t fk mono unfolding refs_ok_def by blast
      show ?thesis
      proof (cases "t = ch_T ch \<and> k = pkWhere (m_Table m) (ch_PK ch)")
        case False
        then show ?thesis using row 2(9) old by metis
      next
        case True
        define v where "v = gm_get VNil (written_cells d m ch) (fk_from fk)"
        have v: "gm_get VNil cells (fk_from fk) = v"
          using 2(10) row True fks_okD(1) [OF assms(1) t fk] by (auto simp: v_def gm_get_def)
        have m: "fk \<in> set (m_fks m)" using fk True meta_Some [OF 2(1)] by simp
        show ?thesis
          using written_reference [OF 2(1) m assms(1) 2(4) v_def] mono old True v by metis
      qed
    qed
    then show ?thesis unfolding refs_ok_def by blast
  qed
qed

end
