(* ===== verification/Conflicts.thy ===== *)
theory Conflicts
  imports Replica "HOL-Library.Product_Lexorder" "HOL-Library.Multiset"
begin

text \<open>
  Uniqueness conflicts (\<open>server/internal/store/conflicts.go\<close>) and the end of an apply round
  (\<open>Applier.Finish\<close>). The value and the keys of a conflict are stored as JSON text; here they are the
  value and the key themselves. The time of detection, which SQLite fills in, is left out.
\<close>

record conflict =
  cf_Table :: string
  cf_PK :: pk_key
  cf_Column :: string
  cf_Value :: val
  cf_KeptPK :: pk_key

record cdb = rdb +
  r_conflicts :: "conflict list"

definition ListConflicts :: "('s) schema_scheme \<Rightarrow> ('d) cdb_scheme \<Rightarrow> conflict list" where
  "ListConflicts S d =
     sort_key (\<lambda>c. (cf_Table c, cf_Column c, sc_val_text S (cf_Value c), sc_pk_text S (cf_PK c))) (r_conflicts d)"

definition live :: "(string, val) gomap \<Rightarrow> bool" where
  "live cells \<longleftrightarrow> gm_get VNil cells ''deleted_at'' = VNil"

text \<open>Append to a slice what it does not hold yet.\<close>

definition add_new :: "'a \<Rightarrow> 'a list \<Rightarrow> 'a list" where
  "add_new v acc = (if List.member acc v then acc else acc @ [v])"

definition conflictCandidates :: "('d) cdb_scheme \<Rightarrow> db_table \<Rightarrow> string \<Rightarrow> pk_key list \<Rightarrow> val list" where
  "conflictCandidates d t col pks =
     (let current = fold (\<lambda>k acc.
            case row_at d (Name t) (pkWhere t (Some k)) of
              None \<Rightarrow> acc
            | Some cells \<Rightarrow>
                if \<not> live cells then acc
                else if gm_get VNil cells col \<noteq> VNil then add_new (gm_get VNil cells col) acc else acc) pks [];
          flagged = filter (\<lambda>c. cf_Table c = Name t \<and> cf_Column c = col
                              \<and> (List.member pks (cf_PK c) \<or> List.member pks (cf_KeptPK c))) (r_conflicts d)
      in fold (\<lambda>c. add_new (cf_Value c)) flagged current)"

record holder =
  hd_pk :: pk_key
  hd_epoch :: nat
  hd_hlc :: string
  hd_device :: string

definition holders_of :: "('d) cdb_scheme \<Rightarrow> db_table \<Rightarrow> string \<Rightarrow> val \<Rightarrow> holder list" where
  "holders_of d t col v =
     map (\<lambda>(k, cells).
        let pk = pkWhere t (Some cells) in
        (case map_of (clocks_at d (Name t) pk) col of
           None \<Rightarrow> \<lparr>hd_pk = pk, hd_epoch = 0, hd_hlc = [], hd_device = []\<rparr>
         | Some c \<Rightarrow> \<lparr>hd_pk = pk, hd_epoch = s_epoch c, hd_hlc = s_hlc c,
                     hd_device = (case s_device c of None \<Rightarrow> [] | Some x \<Rightarrow> x)\<rparr>))
       (filter (\<lambda>(k, cells). v \<noteq> VNil \<and> gm_get VNil cells col = v \<and> live cells) (gm_entries (r_rows d (Name t))))"

definition holder_key :: "('s) schema_scheme \<Rightarrow> holder \<Rightarrow> nat \<times> string \<times> string \<times> string" where
  "holder_key S h = (hd_epoch h, hd_hlc h, hd_device h, sc_pk_text S (hd_pk h))"

text \<open>\<open>INSERT ... ON CONFLICT (tbl, pk, col) DO UPDATE\<close>.\<close>

definition same_flag :: "conflict \<Rightarrow> conflict \<Rightarrow> bool" where
  "same_flag a b \<longleftrightarrow> cf_Table a = cf_Table b \<and> cf_PK a = cf_PK b \<and> cf_Column a = cf_Column b"

definition flag :: "conflict \<Rightarrow> conflict list \<Rightarrow> conflict list" where
  "flag c cs = (if list_ex (same_flag c) cs then map (\<lambda>x. if same_flag c x then c else x) cs else cs @ [c])"

definition resolveUniqueValue :: "('s) schema_scheme \<Rightarrow> db_table \<Rightarrow> string \<Rightarrow> val \<Rightarrow> ('d) cdb_scheme \<Rightarrow> ('d) cdb_scheme" where
  "resolveUniqueValue S t col v d =
     (let holders = sort_key (holder_key S) (holders_of d t col v);
          flagged = map hd_pk (tl holders);
          cs = (if length holders > 1
                then fold (\<lambda>k. flag \<lparr>cf_Table = Name t, cf_PK = k, cf_Column = col, cf_Value = v, cf_KeptPK = hd_pk (hd holders)\<rparr>)
                       flagged (r_conflicts d)
                else r_conflicts d)
      in d\<lparr>r_conflicts := filter (\<lambda>c. \<not> (cf_Table c = Name t \<and> cf_Column c = col \<and> cf_Value c = v
                                       \<and> \<not> List.member flagged (cf_PK c))) cs\<rparr>)"

definition DetectUniqueConflicts :: "('s) schema_scheme \<Rightarrow> string \<Rightarrow> pk_key list \<Rightarrow> ('d) cdb_scheme \<Rightarrow> ('d) cdb_scheme" where
  "DetectUniqueConflicts S tbl pks d =
     (case SyncedTable tbl of
        None \<Rightarrow> d
      | Some t \<Rightarrow>
          if pks = [] then d
          else fold (\<lambda>(rt, col) d.
                 if rt \<noteq> tbl then d
                 else fold (resolveUniqueValue S t col) (conflictCandidates d t col pks) d) UniqueColumns d)"

definition Finish :: "('s) schema_scheme \<Rightarrow> ('d) cdb_scheme \<Rightarrow> ('d) cdb_scheme" where
  "Finish S d =
     (let tables = sort (remdups (map fst (r_touched d)));
          pks = (\<lambda>t. sort_key (sc_pk_text S) (remdups (map snd (filter (\<lambda>(tt, k). tt = t) (r_touched d)))));
          d' = fold (\<lambda>t. DetectUniqueConflicts S t (pks t)) tables d
      in d'\<lparr>r_touched := []\<rparr>)"

subsection \<open>What a resolution leaves\<close>

lemma set_flag: "set (flag c cs) = insert c {x \<in> set cs. \<not> same_flag c x}"
  by (auto simp: flag_def list_ex_iff same_flag_def)

lemma set_fold_flag:
  assumes "\<And>k. cf_Table (mk k) = T \<and> cf_PK (mk k) = k \<and> cf_Column (mk k) = col"
  shows "set (fold (\<lambda>k. flag (mk k)) ks cs) =
     mk ` set ks \<union> {x \<in> set cs. \<not> (cf_Table x = T \<and> cf_Column x = col \<and> cf_PK x \<in> set ks)}"
proof (induction ks arbitrary: cs)
  case (Cons k ks)
  have "same_flag (mk k') x \<longleftrightarrow> cf_Table x = T \<and> cf_PK x = k' \<and> cf_Column x = col" for k' x
    using assms by (auto simp: same_flag_def)
  then show ?case using Cons.IH [of "flag (mk k) cs"] assms by (auto simp: set_flag)
qed simp

definition holders_in_order :: "('s) schema_scheme \<Rightarrow> ('d) cdb_scheme \<Rightarrow> db_table \<Rightarrow> string \<Rightarrow> val \<Rightarrow> holder list" where
  "holders_in_order S d t col v = sort_key (holder_key S) (holders_of d t col v)"

lemma resolve_set:
  assumes "hs = holders_in_order S d t col v" "flagged = set (map hd_pk (tl hs))"
  shows "set (r_conflicts (resolveUniqueValue S t col v d)) =
       (\<lambda>k. \<lparr>cf_Table = Name t, cf_PK = k, cf_Column = col, cf_Value = v, cf_KeptPK = hd_pk (hd hs)\<rparr>) ` flagged
       \<union> {c \<in> set (r_conflicts d).
            \<not> (cf_Table c = Name t \<and> cf_Column c = col \<and> (cf_Value c = v \<or> cf_PK c \<in> flagged))}"
proof -
  define mk where "mk k = \<lparr>cf_Table = Name t, cf_PK = k, cf_Column = col, cf_Value = v, cf_KeptPK = hd_pk (hd hs)\<rparr>" for k
  have mk: "cf_Table (mk k) = Name t \<and> cf_PK (mk k) = k \<and> cf_Column (mk k) = col" for k by (simp add: mk_def)
  define cs where "cs = (if length hs > 1 then fold (\<lambda>k. flag (mk k)) (map hd_pk (tl hs)) (r_conflicts d) else r_conflicts d)"
  have cs: "set cs = mk ` flagged
        \<union> {x \<in> set (r_conflicts d). \<not> (cf_Table x = Name t \<and> cf_Column x = col \<and> cf_PK x \<in> flagged)}"
    using set_fold_flag [of mk "Name t" col "map hd_pk (tl hs)" "r_conflicts d"] mk
    unfolding cs_def assms(2) by (cases hs; cases "tl hs") auto
  have "r_conflicts (resolveUniqueValue S t col v d) =
      filter (\<lambda>c. \<not> (cf_Table c = Name t \<and> cf_Column c = col \<and> cf_Value c = v \<and> cf_PK c \<notin> flagged)) cs"
    unfolding resolveUniqueValue_def Let_def cs_def mk_def assms holders_in_order_def by simp
  then show ?thesis using cs mk unfolding mk_def [symmetric] by auto
qed


subsection \<open>The decision depends on the content only\<close>

definition same_content :: "('d) cdb_scheme \<Rightarrow> ('d) cdb_scheme \<Rightarrow> string \<Rightarrow> string \<Rightarrow> bool" where
  "same_content d d' T col \<longleftrightarrow>
     map_of (r_rows d T) = map_of (r_rows d' T) \<and> (\<lambda>k. map_of (clocks_at d T k) col) = (\<lambda>k. map_of (clocks_at d' T k) col)
     \<and> set (r_conflicts d) = set (r_conflicts d')"

lemma mset_gm_entries: "map_of m = map_of m' \<Longrightarrow> mset (gm_entries m) = mset (gm_entries m')"
proof (rule set_eq_iff_mset_eq_distinct [THEN iffD1])
  show "distinct (gm_entries m)" for m :: "('a, 'b) gomap" using distinct_gm_entries [of m] by (simp add: distinct_map)
  then show "distinct (gm_entries m')" .
qed (auto simp: set_gm_entries)

lemma holder_key_inj:
  assumes "inj_on (sc_pk_text S) (hd_pk ` set (holders_of d t col v))"
  shows "inj_on (holder_key S) (set (holders_of d t col v))"
proof (rule inj_onI)
  fix a b assume "a \<in> set (holders_of d t col v)" "b \<in> set (holders_of d t col v)" "holder_key S a = holder_key S b"
  moreover from this have "hd_pk a = hd_pk b" using inj_onD [OF assms, of "hd_pk a" "hd_pk b"] by (simp add: holder_key_def)
  ultimately show "a = b" by (simp add: holder_key_def)
qed

text \<open>
  C14. Every device with the same rows, stored clocks and flags reaches the same decision on a value,
  however its database orders the rows.
\<close>

theorem conflicts_deterministic:
  assumes "same_content d d' (Name t) col" "inj_on (sc_pk_text S) (hd_pk ` set (holders_of d t col v))"
  shows "set (r_conflicts (resolveUniqueValue S t col v d)) = set (r_conflicts (resolveUniqueValue S t col v d'))"
proof -
  have "mset (holders_of d t col v) = mset (holders_of d' t col v)"
  proof -
    have m: "mset (gm_entries (r_rows d (Name t))) = mset (gm_entries (r_rows d' (Name t)))"
      by (rule mset_gm_entries) (use assms(1) in \<open>simp add: same_content_def\<close>)
    have c: "map_of (clocks_at d (Name t) k) col = map_of (clocks_at d' (Name t) k) col" for k
      using assms(1) by (meson same_content_def fun_cong)
    show ?thesis unfolding holders_of_def by (simp only: mset_map mset_filter m c)
  qed
  then have "holders_in_order S d t col v = holders_in_order S d' t col v"
    unfolding holders_in_order_def
    by (intro sort_key_inj_key_eq [OF _ holder_key_inj [OF assms(2)]]) simp_all
  moreover have "set (r_conflicts d) = set (r_conflicts d')" using assms(1) by (simp add: same_content_def)
  ultimately show ?thesis
    by (simp add: resolve_set [OF refl refl])
qed

end
