(* ===== verification/SyncWrite.thy ===== *)
theory SyncWrite
  imports Conflicts
begin

text \<open>
  Local writes (\<open>server/internal/store/syncwrite.go\<close>): every write to a synced table goes through
  \<open>insert\<close>, \<open>update\<close> or \<open>upsert\<close>, which change the row, stamp the field clocks and put the op into
  the outbox, in one transaction.

  A \<open>WHERE\<close> clause is a predicate on the row. The readings of the wall clock are a parameter: one
  sequence of readings for each tick, of which a tick uses the first that moves the clock on.
  SQLite checks NOT NULL first, then the primary key, then the foreign keys of the row.
\<close>

record outbox_entry =
  ob_seq :: nat
  ob_scope :: scope
  ob_hlc :: string
  ob_raw :: bytes
  ob_epoch :: nat

record wdb = cdb +
  w_hlc :: string
  w_outbox :: "outbox_entry list"
  w_next_seq :: nat
  w_epochs :: "(scope, nat) gomap"

record 'd writer =
  w_db :: "'d wdb_scheme"
  w_clock :: clock
  w_ticked :: bool
  w_touched :: "string list"
  w_count :: nat

record wall =
  wl_fuel :: nat
  wl_reading :: "nat \<Rightarrow> nat \<Rightarrow> int"

datatype store_error =
  ErrConflict | ErrNotFound | ErrInvalidReference | StoreSql sql_error | ErrBadHlc | ClockWaits | PanicNotSynced

definition put_clock :: "string \<Rightarrow> pk_key \<Rightarrow> string \<Rightarrow> stored_clk \<Rightarrow> ('d) rdb_scheme \<Rightarrow> ('d) rdb_scheme" where
  "put_clock t k col sc d =
     d\<lparr>r_clocks := (r_clocks d)(t := AList.update k (AList.update col sc (clocks_at d t k)) (r_clocks d t))\<rparr>"

text \<open>\<open>record\<close>: a tick, the field clocks, the outbox entry. It gives the value for \<open>updated_at\<close>.\<close>

definition w_record :: "('s) schema_scheme \<Rightarrow> ('c) op_libs_scheme \<Rightarrow> wall \<Rightarrow> db_table \<Rightarrow> (string, val) gomap
    \<Rightarrow> (string, val) gomap \<Rightarrow> 'd writer \<Rightarrow> store_error + (string \<times> 'd writer)" where
  "w_record S L wl t pk cols w =
     (case clock_now (wl_fuel wl) (wl_reading wl (w_count w)) (w_clock w) of
        None \<Rightarrow> Inl ClockWaits
      | Some (ts, c) \<Rightarrow>
          (let d = w_db w;
               pkText = EncodePK (Some pk);
               epoch = gm_get 1 (w_epochs d) (Scope t);
               d1 = fold (\<lambda>(col, v). put_clock (Name t) pkText col
                      \<lparr>s_epoch = epoch, s_hlc = ts_string ts, s_device = r_device d\<rparr>) (gm_entries cols) d;
               raw = json_render L (op_json \<lparr>o_T = Name t, o_PK = Some pk, o_HLC = ts_string ts, o_Set = Some cols, o_Purge = []\<rparr>);
               d2 = d1\<lparr>w_outbox := w_outbox d1 @ [\<lparr>ob_seq = w_next_seq d1, ob_scope = Scope t, ob_hlc = ts_string ts,
                                                  ob_raw = raw, ob_epoch = epoch\<rparr>],
                       w_next_seq := Suc (w_next_seq d1)\<rparr>
           in Inr (sc_time S ts,
                   w\<lparr>w_db := d2, w_clock := c, w_ticked := True, w_touched := add_new (Name t) (w_touched w),
                     w_count := Suc (w_count w)\<rparr>)))"

definition fk_violated :: "('s) schema_scheme \<Rightarrow> string \<Rightarrow> (string, val) gomap \<Rightarrow> ('d) rdb_scheme \<Rightarrow> bool" where
  "fk_violated S t cells d \<longleftrightarrow>
     list_ex (\<lambda>fk. let v = gm_get VNil cells (fk_from fk) in v \<noteq> VNil \<and> \<not> references d fk v) (sc_fks S t)"

definition w_insert :: "('s) schema_scheme \<Rightarrow> ('c) op_libs_scheme \<Rightarrow> wall \<Rightarrow> string \<Rightarrow> (string, val) gomap
    \<Rightarrow> 'd writer \<Rightarrow> store_error + 'd writer" where
  "w_insert S L wl tbl values w =
     (case meta S tbl of
        None \<Rightarrow> Inl PanicNotSynced
      | Some m \<Rightarrow>
          (let t = m_Table m;
               pk = filter (\<lambda>(k, v). List.member (PK t) k) (gm_entries values);
               cols = filter (\<lambda>(k, v). v \<noteq> VNil) (gm_entries values)
           in case w_record S L wl t pk cols w of
                Inl e \<Rightarrow> Inl e
              | Inr (updatedAt, w1) \<Rightarrow>
                  (let k = pkWhere t (Some values);
                       cells = (if AppendOnly t then [] else [(''updated_at'', VStr updatedAt)]) @ gm_entries values
                   in case sql_insert m tbl k cells (w_db w1) of
                        Inl e \<Rightarrow> Inl (StoreSql e)
                      | Inr d' \<Rightarrow>
                          if row_at (w_db w1) tbl k \<noteq> None then Inl ErrConflict
                          else if fk_violated S tbl (cells @ defaults m) d' then Inl ErrInvalidReference
                          else Inr (w1\<lparr>w_db := d'\<rparr>))))"

text \<open>One matching row of \<open>update\<close>: its key and the columns whose value changes.\<close>

definition changed_cols :: "(string, val) gomap \<Rightarrow> (string, val) gomap \<Rightarrow> (string, val) gomap" where
  "changed_cols cols cells = filter (\<lambda>(c, v). gm_get VNil cells c \<noteq> v) (sort_key fst (gm_entries cols))"

definition row_pk :: "db_table \<Rightarrow> (string, val) gomap \<Rightarrow> (string, val) gomap" where
  "row_pk t cells = map (\<lambda>c. (c, gm_get VNil cells c)) (PK t)"

definition update_row :: "('s) schema_scheme \<Rightarrow> ('c) op_libs_scheme \<Rightarrow> wall \<Rightarrow> table_meta
    \<Rightarrow> (string, val) gomap \<times> (string, val) gomap \<Rightarrow> 'd writer \<Rightarrow> store_error + 'd writer" where
  "update_row S L wl m mt w =
     (let t = m_Table m; pk = fst mt; changed = snd mt in
      if changed = [] then Inr w
      else
        (case w_record S L wl t pk changed w of
           Inl e \<Rightarrow> Inl e
         | Inr (updatedAt, w1) \<Rightarrow>
             (let k = pkWhere t (Some pk) in
              case sql_update m (Name t) k ((''updated_at'', VStr updatedAt) # changed) (w_db w1) of
                Inl e \<Rightarrow> Inl (StoreSql e)
              | Inr d' \<Rightarrow>
                  if (case row_at d' (Name t) k of None \<Rightarrow> False | Some cells \<Rightarrow> fk_violated S (Name t) cells d')
                  then Inl ErrInvalidReference
                  else Inr (w1\<lparr>w_db := d'\<rparr>))))"

fun update_rows :: "('s) schema_scheme \<Rightarrow> ('c) op_libs_scheme \<Rightarrow> wall \<Rightarrow> table_meta
    \<Rightarrow> ((string, val) gomap \<times> (string, val) gomap) list \<Rightarrow> 'd writer \<Rightarrow> store_error + 'd writer" where
  "update_rows S L wl m [] w = Inr w"
| "update_rows S L wl m (mt # ms) w =
     (case update_row S L wl m mt w of Inl e \<Rightarrow> Inl e | Inr w' \<Rightarrow> update_rows S L wl m ms w')"

definition w_update :: "('s) schema_scheme \<Rightarrow> ('c) op_libs_scheme \<Rightarrow> wall \<Rightarrow> string \<Rightarrow> ((string, val) gomap \<Rightarrow> bool)
    \<Rightarrow> (string, val) gomap \<Rightarrow> 'd writer \<Rightarrow> store_error + (nat \<times> 'd writer)" where
  "w_update S L wl tbl whr cols w =
     (case meta S tbl of
        None \<Rightarrow> Inl PanicNotSynced
      | Some m \<Rightarrow>
          (let matches = map (\<lambda>(k, cells). (row_pk (m_Table m) cells, changed_cols cols cells))
                           (filter (\<lambda>(k, cells). whr cells) (gm_entries (r_rows (w_db w) tbl)))
           in case update_rows S L wl m matches w of
                Inl e \<Rightarrow> Inl e
              | Inr w' \<Rightarrow> Inr (length matches, w')))"

definition w_upsert :: "('s) schema_scheme \<Rightarrow> ('c) op_libs_scheme \<Rightarrow> wall \<Rightarrow> string \<Rightarrow> (string, val) gomap
    \<Rightarrow> (string, val) gomap \<Rightarrow> 'd writer \<Rightarrow> store_error + 'd writer" where
  "w_upsert S L wl tbl pk cols w =
     (case meta S tbl of
        None \<Rightarrow> Inl PanicNotSynced
      | Some m \<Rightarrow>
          (case w_update S L wl tbl (\<lambda>cells. row_pk (m_Table m) cells = row_pk (m_Table m) pk) cols w of
             Inl e \<Rightarrow> Inl e
           | Inr (n, w') \<Rightarrow> if n > 0 then Inr w' else w_insert S L wl tbl (cols @ pk) w'))"

definition requireUnique :: "string \<Rightarrow> string \<Rightarrow> val \<Rightarrow> string \<Rightarrow> string \<Rightarrow> 'd writer \<Rightarrow> store_error + unit" where
  "requireUnique tbl col v selfCol selfID w =
     (if v = VNil then Inr ()
      else if list_ex (\<lambda>(k, cells). gm_get VNil cells col = v \<and> live cells
             \<and> gm_get VNil cells selfCol \<noteq> VNil \<and> gm_get VNil cells selfCol \<noteq> VStr selfID) (gm_entries (r_rows (w_db w) tbl))
      then Inl ErrConflict else Inr ())"

definition holds :: "string \<Rightarrow> string \<Rightarrow> val \<Rightarrow> string \<Rightarrow> string \<Rightarrow> 'd writer \<Rightarrow> bool" where
  "holds tbl col v selfCol selfID w \<longleftrightarrow>
     list_ex (\<lambda>(k, cells). gm_get VNil cells selfCol = VStr selfID \<and> gm_get VNil cells col = v \<and> live cells)
       (gm_entries (r_rows (w_db w) tbl))"

definition refreshConflicts :: "('s) schema_scheme \<Rightarrow> 'd writer \<Rightarrow> 'd writer" where
  "refreshConflicts S w =
     fold (\<lambda>tbl w.
        let cs = filter (\<lambda>c. cf_Table c = tbl) (r_conflicts (w_db w));
            pks = remdups (map cf_PK cs @ map cf_KeptPK cs)
        in if pks \<noteq> [] then w\<lparr>w_db := DetectUniqueConflicts S tbl pks (w_db w)\<rparr> else w) (w_touched w) w"

text \<open>
  \<open>inWriteTx\<close>, with the clock of the store; it is left at the value of the last tick. A failed
  transaction changes nothing in the database.
\<close>

definition inWriteTx :: "('s) schema_scheme \<Rightarrow> clock \<Rightarrow> ('d writer \<Rightarrow> store_error + 'd writer) \<Rightarrow> ('d) wdb_scheme
    \<Rightarrow> store_error + (clock \<times> ('d) wdb_scheme)" where
  "inWriteTx S clock fn d =
     (case hlc_parse (w_hlc d) of
        None \<Rightarrow> Inl ErrBadHlc
      | Some lst \<Rightarrow>
          (case fn \<lparr>w_db = d, w_clock = clock_restore lst clock, w_ticked = False, w_touched = [], w_count = 0\<rparr> of
             Inl e \<Rightarrow> Inl e
           | Inr w \<Rightarrow>
               (let w1 = (if w_ticked w then w\<lparr>w_db := (w_db w)\<lparr>w_hlc := ts_string (last (w_clock w))\<rparr>\<rparr> else w)
                in Inr (w_clock w, w_db (refreshConflicts S w1)))))"

definition affected :: "store_error + (nat \<times> 'd writer) \<Rightarrow> store_error + 'd writer" where
  "affected r = (case r of Inl e \<Rightarrow> Inl e | Inr (n, w) \<Rightarrow> if n = 0 then Inl ErrNotFound else Inr w)"

subsection \<open>A local write is the change other devices apply\<close>

text \<open>The op of a local update, and the clock its columns get; the tick is the last value of the clock.\<close>

definition local_op :: "table_meta \<Rightarrow> (string, val) gomap \<Rightarrow> (string, val) gomap \<Rightarrow> 'd writer \<Rightarrow> op" where
  "local_op m pk changed w =
     \<lparr>o_T = Name (m_Table m), o_PK = Some pk, o_HLC = ts_string (last (w_clock w)), o_Set = Some changed, o_Purge = []\<rparr>"

definition scope_epoch :: "table_meta \<Rightarrow> 'd writer \<Rightarrow> nat" where
  "scope_epoch m w = gm_get 1 (w_epochs (w_db w)) (Scope (m_Table m))"

lemma clock_now_last: "clock_now fuel readings c = Some (t, c') \<Longrightarrow> last c' = t"
  by (induction fuel readings c rule: clock_now.induct) (auto simp: Let_def split: if_splits)

lemma fold_put_clock:
  "row_at (fold (\<lambda>(col, v). put_clock t k col sc) es d) = row_at d"
  "r_device (fold (\<lambda>(col, v). put_clock t k col sc) es d) = r_device d"
  "map_of (clocks_at (fold (\<lambda>(col, v). put_clock t k col sc) es d) t' k') col' =
     (if t' = t \<and> k' = k \<and> col' \<in> fst ` set es then Some sc else map_of (clocks_at d t' k') col')"
  by (induction es arbitrary: d) (auto simp: put_clock_def row_at_def clocks_at_def gm_get_def update_conv' fun_eq_iff)

lemma fold_put_clock_wdb:
  fixes d :: "('d) wdb_scheme"
  shows "w_outbox (fold (\<lambda>(col, v). put_clock t k col sc) es d) = w_outbox d
    \<and> w_next_seq (fold (\<lambda>(col, v). put_clock t k col sc) es d) = w_next_seq d"
  by (induction es arbitrary: d) (auto simp: put_clock_def)

lemma w_record_Inr:
  assumes "w_record S L wl t pk cols w = Inr (upd, w1)"
  shows "row_at (w_db w1) = row_at (w_db w)" "r_device (w_db w1) = r_device (w_db w)"
    "w_outbox (w_db w1) = w_outbox (w_db w) @
       [\<lparr>ob_seq = w_next_seq (w_db w), ob_scope = Scope t, ob_hlc = ts_string (last (w_clock w1)),
         ob_raw = json_render L (op_json \<lparr>o_T = Name t, o_PK = Some pk, o_HLC = ts_string (last (w_clock w1)), o_Set = Some cols, o_Purge = []\<rparr>),
         ob_epoch = gm_get 1 (w_epochs (w_db w)) (Scope t)\<rparr>]"
    "map_of (clocks_at (w_db w1) t' k') col' =
       (if t' = Name t \<and> k' = EncodePK (Some pk) \<and> col' \<in> fst ` set (gm_entries cols)
        then Some \<lparr>s_epoch = gm_get 1 (w_epochs (w_db w)) (Scope t), s_hlc = ts_string (last (w_clock w1)), s_device = r_device (w_db w)\<rparr>
        else map_of (clocks_at (w_db w) t' k') col')"
proof -
  obtain ts c where tick: "clock_now (wl_fuel wl) (wl_reading wl (w_count w)) (w_clock w) = Some (ts, c)"
    using assms by (auto simp: w_record_def split: option.splits)
  note ts = clock_now_last [OF tick]
  define ep where "ep = gm_get 1 (w_epochs (w_db w)) (Scope t)"
  define sc where "sc = \<lparr>s_epoch = ep, s_hlc = ts_string ts, s_device = r_device (w_db w)\<rparr>"
  define D where "D = fold (\<lambda>(col, v). put_clock (Name t) (EncodePK (Some pk)) col sc) (gm_entries cols) (w_db w)"
  have c: "w_clock w1 = c" and db: "w_db w1 = D\<lparr>w_outbox := w_outbox D @
       [\<lparr>ob_seq = w_next_seq D, ob_scope = Scope t, ob_hlc = ts_string ts,
         ob_raw = json_render L (op_json \<lparr>o_T = Name t, o_PK = Some pk, o_HLC = ts_string ts, o_Set = Some cols, o_Purge = []\<rparr>),
         ob_epoch = ep\<rparr>], w_next_seq := Suc (w_next_seq D)\<rparr>"
    using assms tick unfolding w_record_def by (auto simp: Let_def D_def sc_def ep_def simp del: One_nat_def)
  have D: "row_at D = row_at (w_db w)" "r_device D = r_device (w_db w)" "w_outbox D = w_outbox (w_db w)"
      "w_next_seq D = w_next_seq (w_db w)"
      "map_of (clocks_at D t' k') col' = (if t' = Name t \<and> k' = EncodePK (Some pk) \<and> col' \<in> fst ` set (gm_entries cols)
         then Some sc else map_of (clocks_at (w_db w) t' k') col')"
    unfolding D_def fold_put_clock by (simp_all add: fold_put_clock_wdb)
  have eq: "row_at (w_db w1) = row_at D" "r_device (w_db w1) = r_device D" "clocks_at (w_db w1) = clocks_at D"
    by (simp_all add: db row_at_def clocks_at_def fun_eq_iff)
  show "row_at (w_db w1) = row_at (w_db w)" "r_device (w_db w1) = r_device (w_db w)" using eq D by simp_all
  show "w_outbox (w_db w1) = w_outbox (w_db w) @
       [\<lparr>ob_seq = w_next_seq (w_db w), ob_scope = Scope t, ob_hlc = ts_string (last (w_clock w1)),
         ob_raw = json_render L (op_json \<lparr>o_T = Name t, o_PK = Some pk, o_HLC = ts_string (last (w_clock w1)), o_Set = Some cols, o_Purge = []\<rparr>),
         ob_epoch = gm_get 1 (w_epochs (w_db w)) (Scope t)\<rparr>]"
    unfolding c ts ep_def [symmetric] by (simp add: db D)
  show "map_of (clocks_at (w_db w1) t' k') col' =
       (if t' = Name t \<and> k' = EncodePK (Some pk) \<and> col' \<in> fst ` set (gm_entries cols)
        then Some \<lparr>s_epoch = gm_get 1 (w_epochs (w_db w)) (Scope t), s_hlc = ts_string (last (w_clock w1)), s_device = r_device (w_db w)\<rparr>
        else map_of (clocks_at (w_db w) t' k') col')"
    unfolding c ts ep_def [symmetric] sc_def [symmetric] eq D by (rule refl)
qed

lemma update_row_cells:
  assumes u: "update_row S L wl m (pk, changed) w = Inr w'" and ne: "changed \<noteq> []"
    and key: "pkWhere (m_Table m) (Some pk) = EncodePK (Some pk)"
    and row: "row_at (w_db w) (Name (m_Table m)) (EncodePK (Some pk)) = Some cells"
    and dev: "r_device (w_db w) = Some dev"
  shows "w_outbox (w_db w') = w_outbox (w_db w) @
       [\<lparr>ob_seq = w_next_seq (w_db w), ob_scope = Scope (m_Table m), ob_hlc = o_HLC (local_op m pk changed w'),
         ob_raw = json_render L (op_json (local_op m pk changed w')), ob_epoch = scope_epoch m w\<rparr>]"
    and "col \<noteq> ''updated_at'' \<Longrightarrow> cell (w_db w') (Name (m_Table m)) (EncodePK (Some pk)) col =
       (case map_of changed col of
          None \<Rightarrow> cell (w_db w) (Name (m_Table m)) (EncodePK (Some pk)) col
        | Some v \<Rightarrow> Some (\<lparr>k_Epoch = scope_epoch m w, k_HLC = o_HLC (local_op m pk changed w'), k_Device = dev\<rparr>, v))"
proof -
  let ?t = "Name (m_Table m)" and ?k = "EncodePK (Some pk)"
  obtain upd w1 where r: "w_record S L wl (m_Table m) pk changed w = Inr (upd, w1)"
    using u ne by (auto simp: update_row_def Let_def split: sum.splits)
  note R = w_record_Inr [OF r]
  have row1: "row_at (w_db w1) ?t ?k = Some cells" using R(1) row by simp
  obtain d' where d': "sql_update m ?t ?k ((''updated_at'', VStr upd) # changed) (w_db w1) = Inr d'"
      and w': "w' = w1\<lparr>w_db := d'\<rparr>"
    using u ne r key by (auto simp: update_row_def Let_def split: sum.splits if_splits)
  from sql_update_Inr [OF d' row1] have d: "d' = put_row ?t ?k (((''updated_at'', VStr upd) # changed) @ cells) (w_db w1)" .
  have lst: "last (w_clock w') = last (w_clock w1)" using w' by simp
  have out: "w_outbox (put_row ?t ?k x dd) = w_outbox dd" for x and dd :: "('a) wdb_scheme"
    by (simp add: put_row_def)
  show "w_outbox (w_db w') = w_outbox (w_db w) @
       [\<lparr>ob_seq = w_next_seq (w_db w), ob_scope = Scope (m_Table m), ob_hlc = o_HLC (local_op m pk changed w'),
         ob_raw = json_render L (op_json (local_op m pk changed w')), ob_epoch = scope_epoch m w\<rparr>]"
    unfolding local_op_def op.simps lst scope_epoch_def R(3) [symmetric] by (simp add: w' d out)
  have "map_of (((''updated_at'', VStr upd) # changed) @ cells) col = (case map_of changed col of None \<Rightarrow> map_of cells col | Some v \<Rightarrow> Some v)"
    if "col \<noteq> ''updated_at''" using that by (simp add: map_add_def split: option.split)
  moreover have "clk_of (w_db w1) sc = clk_of (w_db w) sc" for sc
    by (simp add: clk_of_def R(2) split: option.split)
  moreover have "col \<in> fst ` set (gm_entries changed) \<longleftrightarrow> map_of changed col \<noteq> None"
    by (metis map_of_eq_None_iff map_of_gm_entries)
  ultimately show "cell (w_db w') ?t ?k col =
       (case map_of changed col of
          None \<Rightarrow> cell (w_db w) ?t ?k col
        | Some v \<Rightarrow> Some (\<lparr>k_Epoch = scope_epoch m w, k_HLC = o_HLC (local_op m pk changed w'), k_Device = dev\<rparr>, v))"
    if "col \<noteq> ''updated_at''"
    using that row dev by (auto simp: w' d cell_def fieldClocks_def R(4) gm_get_def clk_of_def local_op_def scope_epoch_def lst split: option.splits)
qed


end
