(* ===== verification/Identity.thy ===== *)
theory Identity
  imports Layout Wire "HOL-Library.Word"
begin

unbundle bit_operations_syntax

text \<open>
  \<open>server/internal/sync/identity/identity.go\<close>: the device id (lowercase base32 of the first
  16 bytes of the digest of the signing key) and the safety code two people compare when a
  device joins. Key generation and the key pair itself are library calls.
\<close>

subsection \<open>Base32 without padding\<close>

primrec byte_bits :: "char \<Rightarrow> bool list" where
  "byte_bits (Char b0 b1 b2 b3 b4 b5 b6 b7) = [b7, b6, b5, b4, b3, b2, b1, b0]"

fun bits_val :: "bool list \<Rightarrow> nat" where
  "bits_val [] = 0"
| "bits_val (b # bs) = (if b then 2 ^ length bs else 0) + bits_val bs"

text \<open>Five bits make a digit; the last one is filled up with zero bits.\<close>

fun chunk5 :: "bool list \<Rightarrow> nat list" where
  "chunk5 [] = []"
| "chunk5 (b # bs) = bits_val (take 5 ((b # bs) @ replicate 5 False)) # chunk5 (drop 4 bs)"

text \<open>The alphabet of \<open>base32.StdEncoding\<close>.\<close>

definition b32_char :: "nat \<Rightarrow> char" where
  "b32_char v = char_of (if v < 26 then 65 + v else 24 + v)"

definition base32 :: "bytes \<Rightarrow> string" where
  "base32 bs = map b32_char (chunk5 (concat (map byte_bits bs)))"

definition lower :: "char \<Rightarrow> char" where
  "lower c = (if GoLib.is_up c then char_of (byte_of c + 32 :: nat) else c)"

definition DeviceID :: "('c) crypto_scheme \<Rightarrow> bytes \<Rightarrow> string" where
  "DeviceID C signPub = map lower (base32 (take 16 (sha256 C signPub)))"

subsection \<open>The safety code\<close>

definition SafetyCode :: "('c) crypto_scheme \<Rightarrow> bytes \<Rightarrow> string \<Rightarrow> string" where
  "SafetyCode C signPub ageRecipient =
     (let digest = sha256 C (signPub @ ageRecipient);
          n = foldl (\<lambda>n b. (push_bit 8 n OR of_nat (byte_of b)) :: 64 word) 0 (take 8 digest)
      in fmt_uint 10 6 (unat (n mod 1000000)))"

subsection \<open>Lemmas\<close>

lemma bits_val_less: "bits_val bs < 2 ^ length bs"
  by (induction bs) auto

lemma length_byte_bits [simp]: "length (byte_bits c) = 8"
  by (cases c) simp

lemma length_bytes_bits [simp]: "length (concat (map byte_bits bs)) = 8 * length bs"
  by (induction bs) auto

lemma bits_val_inj: "length as = length bs \<Longrightarrow> bits_val as = bits_val bs \<Longrightarrow> as = bs"
proof (induction as bs rule: list_induct2)
  case (Cons a as b bs)
  have "bits_val as < 2 ^ length bs" "bits_val bs < 2 ^ length bs"
    using bits_val_less [of as] bits_val_less [of bs] Cons by auto
  with Cons show ?case by (auto split: if_splits)
qed simp

lemma byte_bits_inj: "byte_bits c = byte_bits d \<Longrightarrow> c = d"
  by (cases c; cases d) simp

lemma bytes_bits_inj:
  "length as = length bs \<Longrightarrow> concat (map byte_bits as) = concat (map byte_bits bs) \<Longrightarrow> as = bs"
  by (induction as bs rule: list_induct2) (auto dest: byte_bits_inj)

lemma bits_val_5: "length bs = 5 \<Longrightarrow> bits_val bs < 32"
  using bits_val_less [of bs] by simp

lemma chunk5_digits: "list_all (\<lambda>v. v < 32) (chunk5 bs)"
  by (induction bs rule: chunk5.induct) (simp_all add: bits_val_5 del: bits_val.simps)

lemma length_chunk5: "length (chunk5 bs) = (length bs + 4) div 5"
proof (induction bs rule: chunk5.induct)
  case (2 b bs)
  then show ?case by (cases "4 \<le> length bs") auto
qed simp

lemma take_pad_inj:
  "length as = length bs \<Longrightarrow> take n (as @ replicate n x) = take n (bs @ replicate n x) \<Longrightarrow> take n as = take n bs"
  by simp

lemma chunk5_inj: "length as = length bs \<Longrightarrow> chunk5 as = chunk5 bs \<Longrightarrow> as = bs"
proof (induction as arbitrary: bs rule: chunk5.induct)
  case 1
  then show ?case by simp
next
  case (2 a as)
  then obtain b bs' where bs: "bs = b # bs'" by (cases bs) auto
  have l: "length (a # as) = length (b # bs')" using 2(2) bs by simp
  have "take 5 ((a # as) @ replicate 5 False) = take 5 ((b # bs') @ replicate 5 False)"
    using 2(3) l unfolding bs chunk5.simps by (intro bits_val_inj) auto
  from take_pad_inj [OF l this] have t: "take 5 (a # as) = take 5 (b # bs')" .
  have "drop 4 as = drop 4 bs'" using 2(2,3) by (intro 2(1)) (simp_all add: bs)
  then have "drop 5 (a # as) = drop 5 (b # bs')" by (simp add: numeral_eq_Suc)
  with t show ?case unfolding bs by (metis append_take_drop_id)
qed

lemma lower_b32: "v < 32 \<Longrightarrow> lower (b32_char v) = char_of (if v < 26 then 97 + v else 24 + v)"
  by (auto simp: lower_def b32_char_def GoLib.is_up_def in_range_def)

lemma byte_lower_b32: "v < 32 \<Longrightarrow> byte_of (lower (b32_char v)) = (if v < 26 then 97 + v else 24 + v)"
  by (simp add: lower_b32)

lemma b32_digits: "v < 32 \<Longrightarrow> is_b32 (lower (b32_char v))"
  by (simp add: is_b32_def in_range_def is_low_def byte_lower_b32)

lemma b32_inj: "inj_on (\<lambda>v. lower (b32_char v)) {..<32}"
proof (rule inj_onI)
  fix v w :: nat
  assume vw: "v \<in> {..<32}" "w \<in> {..<32}" and "lower (b32_char v) = lower (b32_char w)"
  then have "byte_of (lower (b32_char v)) = (byte_of (lower (b32_char w)) :: nat)" by simp
  with vw show "v = w" by (simp add: byte_lower_b32 split: if_splits)
qed

lemma base32_lower: "map lower (base32 bs) = map (\<lambda>v. lower (b32_char v)) (chunk5 (concat (map byte_bits bs)))"
  by (simp add: base32_def)

lemma DeviceID_shape:
  assumes "length (sha256 C pub) = 32"
  shows "is_device_id (DeviceID C pub)"
  using chunk5_digits b32_digits assms
  by (auto simp: DeviceID_def base32_lower is_device_id_def length_chunk5 list_all_iff)

lemma DeviceID_inj:
  assumes "length (sha256 C a) = 32" "length (sha256 C b) = 32"
  shows "DeviceID C a = DeviceID C b \<longleftrightarrow> take 16 (sha256 C a) = take 16 (sha256 C b)"
proof -
  let ?bits = "\<lambda>x. concat (map byte_bits (take 16 (sha256 C x)))"
  have in32: "set (chunk5 xs) \<subseteq> {..<32}" for xs
    using chunk5_digits [of xs] by (auto simp: list_all_iff)
  have "map (\<lambda>v. lower (b32_char v)) (chunk5 (?bits a)) = map (\<lambda>v. lower (b32_char v)) (chunk5 (?bits b))
        \<longleftrightarrow> chunk5 (?bits a) = chunk5 (?bits b)"
    using in32 by (intro inj_on_map_eq_map inj_on_subset [OF b32_inj]) auto
  also have "\<dots> \<longleftrightarrow> take 16 (sha256 C a) = take 16 (sha256 C b)"
    using assms by (auto intro!: bytes_bits_inj dest!: chunk5_inj [rotated])
  finally show ?thesis by (simp add: DeviceID_def base32_lower)
qed

text \<open>
  The id derived from a signing key is a valid device id of file names (26 characters of the
  base32 alphabet), and two keys have the same id only if their digests agree in the first 16
  bytes.
\<close>

theorem DeviceID_valid:
  assumes "crypto_ok C"
  shows "ValidDeviceID (DeviceID C a)
    \<and> (DeviceID C a = DeviceID C b \<longleftrightarrow> take 16 (sha256 C a) = take 16 (sha256 C b))"
  using assms by (simp add: crypto_ok_def ValidDeviceID_iff DeviceID_shape DeviceID_inj)

theorem DeviceID_valid_witness:
  "ValidDeviceID (DeviceID toy_crypto ''key one'')
   \<and> DeviceID toy_crypto ''key one'' \<noteq> DeviceID toy_crypto ''key two''"
  using DeviceID_valid [OF toy_crypto_ok, of "''key one''" "''key two''"]
  by (simp add: toy_crypto_def pad_to_def)

subsection \<open>The digits of the safety code\<close>

definition be_val :: "bytes \<Rightarrow> nat" where
  "be_val = foldl (\<lambda>n b. 256 * n + byte_of b) 0"

lemma push_or_byte:
  fixes n :: nat
  shows "push_bit 8 n OR (of_char b) = 256 * n + (of_char b :: nat)"
proof -
  have "(of_char b :: nat) = take_bit 8 (of_char b)"
    by (simp add: take_bit_eq_mod)
  then have "bit (of_char b :: nat) k \<Longrightarrow> k < 8" for k
    by (metis bit_take_bit_iff)
  then have "push_bit 8 n AND (of_char b) = (0 :: nat)"
    by (intro bit_eqI) (metis bit_and_iff bit_push_bit_iff leD bit_0_eq bot_fun_def bot_bool_def)
  then show ?thesis by (simp add: disjunctive_add_eq_or [symmetric] push_bit_eq_mult mult.commute)
qed

lemma be_val_less: "be_val bs < 256 ^ length bs"
proof (induction bs rule: rev_induct)
  case (snoc b bs)
  have b: "(of_char b :: nat) < 256" by simp
  have "256 * be_val bs + of_char b < 256 * 256 ^ length bs" using snoc b by linarith
  then show ?case by (simp add: be_val_def)
qed (simp add: be_val_def)

lemma fold_word_bytes:
  "foldl (\<lambda>n b. (push_bit 8 n OR of_nat (byte_of b)) :: 64 word) 0 bs = of_nat (be_val bs)"
proof (induction bs rule: rev_induct)
  case (snoc b bs)
  have "(push_bit 8 (of_nat (be_val bs)) OR of_nat (of_char b) :: 64 word)
      = of_nat (push_bit 8 (be_val bs) OR of_char b)"
    by (simp only: of_nat_or_eq push_bit_of_nat)
  also have "\<dots> = of_nat (be_val (bs @ [b]))" by (simp only: push_or_byte) (simp add: be_val_def)
  finally show ?case using snoc by simp
qed (simp add: be_val_def)

text \<open>
  The safety code has six decimal digits and is the number formed by the first eight bytes
  of the digest, in big-endian order, modulo one million: the 64-bit accumulation loses no bit.
\<close>

theorem SafetyCode_value:
  assumes "crypto_ok C"
  shows "SafetyCode C pub age =
      fix_digits 10 6 (be_val (take 8 (sha256 C (pub @ age))) mod 10 ^ 6)
    \<and> length (SafetyCode C pub age) = 6 \<and> list_all is_dec (SafetyCode C pub age)"
proof -
  let ?d = "take 8 (sha256 C (pub @ age))"
  have l: "length ?d = 8" using assms by (simp add: crypto_ok_def)
  then have "be_val ?d < 2 ^ 64" using be_val_less [of ?d] by simp
  then have "unat (of_nat (be_val ?d) :: 64 word) = be_val ?d" by (simp add: unat_of_nat)
  then have "SafetyCode C pub age = fmt_uint 10 6 (be_val ?d mod 10 ^ 6)"
    by (simp add: SafetyCode_def fold_word_bytes Let_def unat_mod_distrib)
  moreover have "be_val ?d mod 10 ^ 6 < 10 ^ 6" by simp
  ultimately show ?thesis by (simp only: fmt_uint_fix fix_digits_dec) (simp add: fmt_uint_fix [symmetric] length_fmt_uint)
qed

theorem SafetyCode_value_witness:
  "SafetyCode toy_crypto ''key one'' ''age1xyz'' = ''485665''"
proof -
  have "take 8 (sha256 toy_crypto (''key one'' @ ''age1xyz'')) = ''key onea''"
    by (simp add: toy_crypto_def pad_to_def)
  moreover have "be_val ''key onea'' mod 10 ^ 6 = 485665" by (simp add: be_val_def)
  moreover have "fix_digits 10 6 485665 = ''485665''"
    by (simp add: fix_digits_numeral digit_char_def char_of_eq_iff take_bit_eq_mod)
  ultimately show ?thesis
    using SafetyCode_value [OF toy_crypto_ok, of "''key one''" "''age1xyz''", THEN conjunct1]
    by (simp only:)
qed

end
