(* ===== verification/Segment.thy ===== *)
theory Segment
  imports Op Identity Scopes
begin

text \<open>
  The file format of segments and snapshots (\<open>server/internal/sync/segment/segment.go\<close>) and the
  key checks (\<open>keys/keys.go\<close>): framing and limits, header checks, sealing and opening.
  XChaCha20-Poly1305 and gzip are library parameters: \<open>gzip_read\<close> gives the contents of the first
  gzip member of its input with the number of bytes after it, or nothing if it is damaged.
\<close>

record seg_libs = op_libs +
  aead_seal :: "bytes \<Rightarrow> bytes \<Rightarrow> bytes \<Rightarrow> bytes \<Rightarrow> bytes"
  aead_open :: "bytes \<Rightarrow> bytes \<Rightarrow> bytes \<Rightarrow> bytes \<Rightarrow> bytes option"
  gzip_write :: "bytes \<Rightarrow> bytes"
  gzip_read :: "bytes \<Rightarrow> (bytes \<times> nat) option"

text \<open>What the code relies on: keys and nonces of the right length open what they sealed, a sealed text has
  the 16 bytes of the tag, and gzip reads back what it wrote.\<close>

definition seg_libs_ok :: "('c) seg_libs_scheme \<Rightarrow> bool" where
  "seg_libs_ok L \<longleftrightarrow> crypto_ok L
     \<and> (\<forall>k n p ad. aead_open L k n (aead_seal L k n p ad) ad = Some p)
     \<and> (\<forall>k n p ad. 16 \<le> length (aead_seal L k n p ad))
     \<and> (\<forall>p. gzip_read L (gzip_write L p) = Some (p, 0))"

definition Magic :: bytes where "Magic = ''OCM1''"
definition MaxHeader :: nat where "MaxHeader = 64 * 2 ^ 10"
definition MaxCiphertext :: nat where "MaxCiphertext = 16 * 2 ^ 20"
definition MaxPlaintext :: nat where "MaxPlaintext = 64 * 2 ^ 20"
definition prefixLen :: nat where "prefixLen = 8"
definition sigLen :: nat where "sigLen = 64"
definition Overhead :: nat where "Overhead = 16"
definition NonceSizeX :: nat where "NonceSizeX = 24"
definition KeySize :: nat where "KeySize = 32"
definition SnapshotType :: string where "SnapshotType = ''snapshot''"
definition SchemaVersion :: int where "SchemaVersion = 1"

lemmas limits = MaxHeader_def MaxCiphertext_def MaxPlaintext_def prefixLen_def sigLen_def Overhead_def
  NonceSizeX_def KeySize_def

datatype seg_error = SegMalformed | SegBadSignature | SegDecrypt | SegTooLarge | SegBadNonce | SegBadKey

subsection \<open>Framing\<close>

record frame_file =
  fr_Raw :: bytes
  fr_Header :: bytes
  fr_Ciphertext :: bytes
  fr_signed :: bytes
  fr_sig :: bytes

definition fr_Hash :: "('c) crypto_scheme \<Rightarrow> frame_file \<Rightarrow> string" where
  "fr_Hash C f = Hash C (fr_Raw f)"

text \<open>\<open>binary.BigEndian\<close>: reading is \<open>be_val\<close> of \<open>Identity\<close>.\<close>

definition be32 :: "nat \<Rightarrow> bytes" where
  "be32 n = map char_of [n div 2 ^ 24 mod 256, n div 2 ^ 16 mod 256, n div 2 ^ 8 mod 256, n mod 256]"

definition seg_Parse :: "bytes \<Rightarrow> seg_error + frame_file" where
  "seg_Parse raw =
     (if length raw < prefixLen + sigLen \<or> take 4 raw \<noteq> Magic then Inl SegMalformed
      else
        (let n = be_val (take 4 (drop 4 raw)) in
         if n = 0 \<or> MaxHeader < n then Inl SegMalformed
         else if length raw < prefixLen + n + sigLen then Inl SegMalformed
         else
           (let fin = length raw - sigLen; ct = drop (prefixLen + n) (take fin raw) in
            if MaxCiphertext < length ct then Inl SegMalformed
            else if length ct < Overhead then Inl SegMalformed
            else Inr \<lparr>fr_Raw = raw, fr_Header = drop prefixLen (take (prefixLen + n) raw), fr_Ciphertext = ct,
                      fr_signed = take fin raw, fr_sig = drop fin raw\<rparr>)))"

definition fr_Verify :: "('c) crypto_scheme \<Rightarrow> frame_file \<Rightarrow> bytes \<Rightarrow> bool" where
  "fr_Verify C f pub =
     (if length pub \<noteq> 32 \<or> \<not> ed_verify C pub (fr_signed f) (fr_sig f) then False else True)"

subsection \<open>Headers\<close>

record header =
  h_ClubID :: string
  h_DeviceID :: string
  h_Scope :: scope
  h_Seq :: nat
  h_Prev :: "string option"
  h_Epoch :: nat
  h_ACLVersion :: nat
  h_Schema :: int
  h_Nonce :: string
  h_HLCMin :: string
  h_HLCMax :: string

record frontier =
  ft_Seq :: nat
  ft_Hash :: "string option"

record snapshot_header =
  sh_Type :: string
  sh_ClubID :: string
  sh_DeviceID :: string
  sh_Scope :: scope
  sh_Streams :: "(string, frontier) gomap option"
  sh_Epoch :: nat
  sh_ACLVersion :: nat
  sh_Schema :: int
  sh_Nonce :: string
  sh_HLC :: string

definition zero_header :: header where
  "zero_header = \<lparr>h_ClubID = [], h_DeviceID = [], h_Scope = [], h_Seq = 0, h_Prev = None, h_Epoch = 0,
     h_ACLVersion = 0, h_Schema = 0, h_Nonce = [], h_HLCMin = [], h_HLCMax = []\<rparr>"

definition zero_frontier :: frontier where
  "zero_frontier = \<lparr>ft_Seq = 0, ft_Hash = None\<rparr>"

definition zero_snapshot_header :: snapshot_header where
  "zero_snapshot_header = \<lparr>sh_Type = [], sh_ClubID = [], sh_DeviceID = [], sh_Scope = [], sh_Streams = None,
     sh_Epoch = 0, sh_ACLVersion = 0, sh_Schema = 0, sh_Nonce = [], sh_HLC = []\<rparr>"

definition dec_header :: "header decoder" where
  "dec_header = dec_struct
     [field ''club_id'' h_ClubID (\<lambda>x r. r\<lparr>h_ClubID := x\<rparr>) dec_string,
      field ''device_id'' h_DeviceID (\<lambda>x r. r\<lparr>h_DeviceID := x\<rparr>) dec_string,
      field ''scope'' h_Scope (\<lambda>x r. r\<lparr>h_Scope := x\<rparr>) dec_string,
      field ''seq'' h_Seq (\<lambda>x r. r\<lparr>h_Seq := x\<rparr>) dec_uint64,
      field ''prev'' h_Prev (\<lambda>x r. r\<lparr>h_Prev := x\<rparr>) (dec_ptr [] dec_string),
      field ''epoch'' h_Epoch (\<lambda>x r. r\<lparr>h_Epoch := x\<rparr>) dec_uint64,
      field ''acl_version'' h_ACLVersion (\<lambda>x r. r\<lparr>h_ACLVersion := x\<rparr>) dec_uint64,
      field ''schema'' h_Schema (\<lambda>x r. r\<lparr>h_Schema := x\<rparr>) dec_int,
      field ''nonce'' h_Nonce (\<lambda>x r. r\<lparr>h_Nonce := x\<rparr>) dec_string,
      field ''hlc_min'' h_HLCMin (\<lambda>x r. r\<lparr>h_HLCMin := x\<rparr>) dec_string,
      field ''hlc_max'' h_HLCMax (\<lambda>x r. r\<lparr>h_HLCMax := x\<rparr>) dec_string]"

definition dec_frontier :: "frontier decoder" where
  "dec_frontier = dec_struct
     [field ''seq'' ft_Seq (\<lambda>x r. r\<lparr>ft_Seq := x\<rparr>) dec_uint64,
      field ''hash'' ft_Hash (\<lambda>x r. r\<lparr>ft_Hash := x\<rparr>) (dec_ptr [] dec_string)]"

definition dec_snapshot_header :: "snapshot_header decoder" where
  "dec_snapshot_header = dec_struct
     [field ''type'' sh_Type (\<lambda>x r. r\<lparr>sh_Type := x\<rparr>) dec_string,
      field ''club_id'' sh_ClubID (\<lambda>x r. r\<lparr>sh_ClubID := x\<rparr>) dec_string,
      field ''device_id'' sh_DeviceID (\<lambda>x r. r\<lparr>sh_DeviceID := x\<rparr>) dec_string,
      field ''scope'' sh_Scope (\<lambda>x r. r\<lparr>sh_Scope := x\<rparr>) dec_string,
      field ''streams'' sh_Streams (\<lambda>x r. r\<lparr>sh_Streams := x\<rparr>) (dec_map zero_frontier dec_frontier),
      field ''epoch'' sh_Epoch (\<lambda>x r. r\<lparr>sh_Epoch := x\<rparr>) dec_uint64,
      field ''acl_version'' sh_ACLVersion (\<lambda>x r. r\<lparr>sh_ACLVersion := x\<rparr>) dec_uint64,
      field ''schema'' sh_Schema (\<lambda>x r. r\<lparr>sh_Schema := x\<rparr>) dec_int,
      field ''nonce'' sh_Nonce (\<lambda>x r. r\<lparr>sh_Nonce := x\<rparr>) dec_string,
      field ''hlc'' sh_HLC (\<lambda>x r. r\<lparr>sh_HLC := x\<rparr>) dec_string]"

text \<open>\<open>json.Marshal\<close> of a header.\<close>

definition header_json :: "header \<Rightarrow> json" where
  "header_json h = JObj
     [(''club_id'', JStr (h_ClubID h)), (''device_id'', JStr (h_DeviceID h)), (''scope'', JStr (h_Scope h)),
      (''seq'', nat_json (h_Seq h)), (''prev'', ptr_json JStr (h_Prev h)), (''epoch'', nat_json (h_Epoch h)),
      (''acl_version'', nat_json (h_ACLVersion h)), (''schema'', JNum (int_text (h_Schema h))),
      (''nonce'', JStr (h_Nonce h)), (''hlc_min'', JStr (h_HLCMin h)), (''hlc_max'', JStr (h_HLCMax h))]"

definition frontier_json :: "frontier \<Rightarrow> json" where
  "frontier_json f = JObj [(''seq'', nat_json (ft_Seq f)), (''hash'', ptr_json JStr (ft_Hash f))]"

definition snapshot_header_json :: "snapshot_header \<Rightarrow> json" where
  "snapshot_header_json h = JObj
     [(''type'', JStr (sh_Type h)), (''club_id'', JStr (sh_ClubID h)), (''device_id'', JStr (sh_DeviceID h)),
      (''scope'', JStr (sh_Scope h)), (''streams'', map_json frontier_json (sh_Streams h)),
      (''epoch'', nat_json (sh_Epoch h)), (''acl_version'', nat_json (sh_ACLVersion h)),
      (''schema'', JNum (int_text (sh_Schema h))), (''nonce'', JStr (sh_Nonce h)), (''hlc'', JStr (sh_HLC h))]"

definition checkNonce :: "string \<Rightarrow> bool" where
  "checkNonce s =
     (case DecodeB64 s of
        None \<Rightarrow> False
      | Some n \<Rightarrow> if length n \<noteq> NonceSizeX then False else True)"

definition header_check :: "header \<Rightarrow> bool" where
  "header_check h =
     (if \<not> ValidDeviceID (h_DeviceID h) then False
      else if \<not> ValidScope (h_Scope h) then False
      else if h_Seq h = 0 then False
      else if (h_Seq h = 1) \<noteq> (h_Prev h = None) then False
      else if h_Epoch h = 0 \<or> h_ACLVersion h = 0 \<or> h_Schema h < 1 then False
      else if (case h_Prev h of None \<Rightarrow> False | Some p \<Rightarrow> ParseHash p = None) then False
      else if \<not> checkNonce (h_Nonce h) then False
      else
        (case (hlc_parse (h_HLCMin h), hlc_parse (h_HLCMax h)) of
           (Some lo, Some hi) \<Rightarrow> if 0 < ts_compare lo hi then False else True
         | _ \<Rightarrow> False))"

definition SegmentHeader :: "('c) libs_scheme \<Rightarrow> frame_file \<Rightarrow> seg_error + header" where
  "SegmentHeader L f =
     (case DecodeStrict (json_text L) dec_header zero_header (fr_Header f) of
        None \<Rightarrow> Inl SegMalformed
      | Some h \<Rightarrow> if \<not> header_check h then Inl SegMalformed else Inr h)"

definition frontier_ok :: "string \<Rightarrow> frontier \<Rightarrow> bool" where
  "frontier_ok i fr =
     (if \<not> ValidDeviceID i then False
      else if (ft_Seq fr = 0) \<noteq> (ft_Hash fr = None) then False
      else (case ft_Hash fr of None \<Rightarrow> True | Some h \<Rightarrow> ParseHash h \<noteq> None))"

definition SnapshotHeader :: "('c) libs_scheme \<Rightarrow> frame_file \<Rightarrow> seg_error + snapshot_header" where
  "SnapshotHeader L f =
     (case DecodeStrict (json_text L) dec_snapshot_header zero_snapshot_header (fr_Header f) of
        None \<Rightarrow> Inl SegMalformed
      | Some h \<Rightarrow>
          if sh_Type h \<noteq> SnapshotType then Inl SegMalformed
          else if \<not> ValidDeviceID (sh_DeviceID h) then Inl SegMalformed
          else if \<not> ValidScope (sh_Scope h) then Inl SegMalformed
          else if sh_Epoch h = 0 \<or> sh_ACLVersion h = 0 \<or> sh_Schema h < 1 then Inl SegMalformed
          else
            (case sh_Streams h of
               None \<Rightarrow> Inl SegMalformed
             | Some streams \<Rightarrow>
                 if hlc_parse (sh_HLC h) = None then Inl SegMalformed
                 else if \<not> gm_all frontier_ok streams then Inl SegMalformed
                 else if \<not> checkNonce (sh_Nonce h) then Inl SegMalformed
                 else Inr h))"

subsection \<open>Opening and sealing\<close>

definition gunzip :: "('c) seg_libs_scheme \<Rightarrow> bytes \<Rightarrow> seg_error + bytes" where
  "gunzip L data =
     (case gzip_read L data of
        None \<Rightarrow> Inl SegMalformed
      | Some (out, rest) \<Rightarrow>
          if MaxPlaintext < length out then Inl SegMalformed
          else if 0 < rest then Inl SegMalformed
          else Inr out)"

definition fr_Open :: "('c) seg_libs_scheme \<Rightarrow> frame_file \<Rightarrow> bytes \<Rightarrow> string \<Rightarrow> seg_error + bytes" where
  "fr_Open L f key nonceB64 =
     (case DecodeB64 nonceB64 of
        None \<Rightarrow> Inl SegMalformed
      | Some nonce \<Rightarrow>
          if length nonce \<noteq> NonceSizeX then Inl SegMalformed
          else if length key \<noteq> KeySize then Inl SegBadKey
          else
            (case aead_open L key nonce (fr_Ciphertext f) (fr_Header f) of
               None \<Rightarrow> Inl SegDecrypt
             | Some gz \<Rightarrow> gunzip L gz))"

definition NewNonce :: "bytes \<Rightarrow> string" where
  "NewNonce random = EncodeB64 (take NonceSizeX random)"

definition Seal :: "('c) seg_libs_scheme \<Rightarrow> json \<Rightarrow> string \<Rightarrow> bytes \<Rightarrow> bytes \<Rightarrow> bytes \<Rightarrow> seg_error + bytes" where
  "Seal L hj nonceB64 plaintext key priv =
     (let hdr = json_render L hj in
      if MaxHeader < length hdr then Inl SegTooLarge
      else if MaxPlaintext < length plaintext then Inl SegTooLarge
      else
        (case DecodeB64 nonceB64 of
           None \<Rightarrow> Inl SegBadNonce
         | Some nonce \<Rightarrow>
             if length nonce \<noteq> NonceSizeX then Inl SegBadNonce
             else if length key \<noteq> KeySize then Inl SegBadKey
             else
               (let ct = aead_seal L key nonce (gzip_write L plaintext) hdr in
                if MaxCiphertext < length ct then Inl SegTooLarge
                else
                  (let out = Magic @ be32 (length hdr) @ hdr @ ct in Inr (out @ ed_sign L priv out)))))"

subsection \<open>Key checks\<close>

definition key_Check :: "('c) crypto_scheme \<Rightarrow> scope \<Rightarrow> nat \<Rightarrow> bytes \<Rightarrow> string" where
  "key_Check C s epoch key =
     FormatHash (sha256 C (''ocm.key-check.v1'' @ [CHR 0x0A] @ s @ [CHR 0x0A] @ min_digits 10 epoch @ [CHR 0x0A] @ key))"

definition key_Verify :: "('c) crypto_scheme \<Rightarrow> scope \<Rightarrow> nat \<Rightarrow> bytes \<Rightarrow> string \<Rightarrow> bool" where
  "key_Verify C s epoch key check =
     (if length key \<noteq> KeySize \<or> key_Check C s epoch key \<noteq> check then False else True)"

subsection \<open>The framing is exact\<close>

lemma length_be32 [simp]: "length (be32 n) = 4"
  by (simp add: be32_def)

lemma be_val_be32: "n < 2 ^ 32 \<Longrightarrow> be_val (be32 n) = n"
proof -
  assume n: "n < 2 ^ 32"
  have "256 * (n div 2 ^ 24 mod 256) + n div 2 ^ 16 mod 256 = n div 2 ^ 16"
    using n div_mult2_eq [of n "2 ^ 16" 256] mult_div_mod_eq [of 256 "n div 2 ^ 16"]
    by (simp add: less_mult_imp_div_less)
  moreover have "256 * (n div 2 ^ 16) + n div 2 ^ 8 mod 256 = n div 2 ^ 8"
    using div_mult2_eq [of n "2 ^ 8" 256] mult_div_mod_eq [of 256 "n div 2 ^ 8"] by simp
  moreover have "256 * (n div 2 ^ 8) + n mod 256 = n"
    using mult_div_mod_eq [of 256 n] by simp
  ultimately show ?thesis by (simp add: be_val_def be32_def)
qed

lemma be32_be_val:
  assumes "length bs = 4"
  shows "be32 (be_val bs) = bs"
proof -
  obtain a b c d where bs: "bs = [a, b, c, d]"
    using assms by (auto simp: numeral_eq_Suc length_Suc_conv)
  let ?a = "of_char a :: nat" and ?b = "of_char b :: nat" and ?c = "of_char c :: nat" and ?d = "of_char d :: nat"
  have lt: "?a < 256" "?b < 256" "?c < 256" "?d < 256" by simp_all
  have v: "be_val bs = ((?a * 256 + ?b) * 256 + ?c) * 256 + ?d" by (simp add: bs be_val_def)
  have h: "(x * 256 + y) div 256 = x \<and> (x * 256 + y) mod 256 = y" if "y < 256" for x y :: nat
    using that by simp
  have p: "2 ^ 8 = (256 :: nat)" "2 ^ 16 = (256 * 256 :: nat)" "2 ^ 24 = (256 * 256 * 256 :: nat)" by simp_all
  have d8: "be_val bs div 256 = (?a * 256 + ?b) * 256 + ?c" unfolding v using h [OF lt(4)] by blast
  have d16: "be_val bs div (256 * 256) = ?a * 256 + ?b"
    unfolding div_mult2_eq d8 using h [OF lt(3)] by blast
  have d24: "be_val bs div (256 * 256 * 256) = ?a"
    unfolding div_mult2_eq [of _ "256 * 256"] d16 using h [OF lt(2)] by blast
  have "be_val bs mod 256 = ?d" unfolding v using h [OF lt(4)] by blast
  moreover have "be_val bs div 2 ^ 8 mod 256 = ?c" unfolding p d8 using h [OF lt(3)] by blast
  moreover have "be_val bs div 2 ^ 16 mod 256 = ?b" unfolding p d16 using h [OF lt(2)] by blast
  moreover have "be_val bs div 2 ^ 24 mod 256 = ?a" unfolding p d24 using lt(1) by simp
  ultimately have "be32 (be_val bs) = map char_of [?a, ?b, ?c, ?d]" by (simp only: be32_def)
  then show ?thesis by (simp add: bs)
qed

text \<open>The file with given parts, and the frame that parsing it gives.\<close>

definition file_of :: "bytes \<Rightarrow> bytes \<Rightarrow> bytes \<Rightarrow> bytes" where
  "file_of hdr ct sig = Magic @ be32 (length hdr) @ hdr @ ct @ sig"

definition frame_of :: "bytes \<Rightarrow> bytes \<Rightarrow> bytes \<Rightarrow> frame_file" where
  "frame_of hdr ct sig = \<lparr>fr_Raw = file_of hdr ct sig, fr_Header = hdr, fr_Ciphertext = ct,
     fr_signed = Magic @ be32 (length hdr) @ hdr @ ct, fr_sig = sig\<rparr>"

definition parts_ok :: "bytes \<Rightarrow> bytes \<Rightarrow> bytes \<Rightarrow> bool" where
  "parts_ok hdr ct sig \<longleftrightarrow> 0 < length hdr \<and> length hdr \<le> MaxHeader
     \<and> Overhead \<le> length ct \<and> length ct \<le> MaxCiphertext \<and> length sig = sigLen"

lemma seg_Parse_file:
  assumes "parts_ok hdr ct sig"
  shows "seg_Parse (file_of hdr ct sig) = Inr (frame_of hdr ct sig)"
proof -
  have "length hdr < 2 ^ 32" using assms by (simp add: parts_ok_def limits)
  then have n: "be_val (be32 (length hdr)) = length hdr" by (rule be_val_be32)
  have M: "length Magic = 4" by (simp add: Magic_def)
  have s: "length sig = 64" "16 \<le> length ct" using assms by (simp_all add: parts_ok_def limits)
  have "take 4 (file_of hdr ct sig) = Magic" "take 4 (drop 4 (file_of hdr ct sig)) = be32 (length hdr)"
    "take (length (file_of hdr ct sig) - sigLen) (file_of hdr ct sig) = Magic @ be32 (length hdr) @ hdr @ ct"
    "drop (length (file_of hdr ct sig) - sigLen) (file_of hdr ct sig) = sig"
    "drop prefixLen (take (prefixLen + length hdr) (file_of hdr ct sig)) = hdr"
    "drop (prefixLen + length hdr) (Magic @ be32 (length hdr) @ hdr @ ct) = ct"
    "length (file_of hdr ct sig) = prefixLen + length hdr + length ct + sigLen"
    using M s by (simp_all add: file_of_def limits)
  with assms n s show ?thesis
    by (simp add: seg_Parse_def parts_ok_def frame_of_def Let_def limits)
qed

lemma seg_Parse_Inr:
  assumes "seg_Parse raw = Inr f"
  shows "\<exists>hdr ct sig. parts_ok hdr ct sig \<and> raw = file_of hdr ct sig"
proof -
  define n where "n = be_val (take 4 (drop 4 raw))"
  define k where "k = length raw - sigLen"
  define hdr where "hdr = drop prefixLen (take (prefixLen + n) raw)"
  define ct where "ct = drop (prefixLen + n) (take k raw)"
  define sig where "sig = drop k raw"
  have c: "take 4 raw = Magic" "n \<noteq> 0" "n \<le> MaxHeader" "prefixLen + n + sigLen \<le> length raw"
      "length ct \<le> MaxCiphertext" "Overhead \<le> length ct"
    using assms unfolding seg_Parse_def Let_def n_def [symmetric] k_def [symmetric] ct_def [symmetric]
    by (auto simp: not_less split: if_splits)
  have l: "length hdr = n" "length sig = sigLen" using c by (simp_all add: hdr_def sig_def k_def)
  have b: "be32 (length hdr) = take 4 (drop 4 raw)"
    using c by (simp add: l n_def be32_be_val limits)
  have p: "prefixLen = 8" by (simp add: limits)
  have k: "prefixLen + n \<le> k" using c by (simp add: k_def)
  have "raw = take k raw @ sig" by (simp add: sig_def)
  also have "take k raw = take (prefixLen + n) raw @ ct"
    using k by (metis append_take_drop_id ct_def min.absorb1 take_take)
  also have "take (prefixLen + n) raw = take 8 raw @ hdr"
    by (metis append_take_drop_id hdr_def le_add1 min.absorb1 p take_take)
  also have "take 8 raw = take 4 raw @ take 4 (drop 4 raw)"
    using take_add [of 4 4 raw] by simp
  finally have "raw = file_of hdr ct sig" by (simp add: file_of_def b c(1))
  moreover have "parts_ok hdr ct sig" using c l by (simp add: parts_ok_def)
  ultimately show ?thesis by blast
qed

text \<open>
  C30. The framing is exact: a file parses exactly if it is the magic, the length of the header
  in four bytes, a header of 1 to 65536 bytes, a ciphertext of 16 bytes to 16 MiB and a
  signature of 64 bytes; the parts are returned as they are and every byte but the signature is
  signed. Nothing is read out of range.
\<close>

theorem seg_Parse_exact:
  "seg_Parse raw = Inr f \<longleftrightarrow>
     (\<exists>hdr ct sig. parts_ok hdr ct sig \<and> raw = file_of hdr ct sig \<and> f = frame_of hdr ct sig)"
  using seg_Parse_file seg_Parse_Inr by (metis sum.inject(2))

subsection \<open>An honest file opens\<close>

lemma dec_uint64_json: "n < 2 ^ 64 \<Longrightarrow> dec_uint64 c (nat_json n) = Some n"
  by (simp add: dec_uint64_def nat_json_def parse_uint_min)

lemma dec_int_json: "- (2 ^ 63) \<le> i \<Longrightarrow> i < 2 ^ 63 \<Longrightarrow> dec_int c (JNum (int_text i)) = Some i"
  by (simp add: dec_int_def parse_int64_text)

lemma dec_ptr_json: "dec_ptr [] dec_string c (ptr_json JStr p) = Some p"
  by (cases p) (simp_all add: dec_ptr_def ptr_json_def dec_string_def)

lemma no_dup_leaves [simp]: "no_dup (nat_json n)" "no_dup (ptr_json JStr p)"
  by (simp_all add: nat_json_def ptr_json_def split: option.split)

text \<open>The ranges of the header's numbers.\<close>

definition header_range :: "header \<Rightarrow> bool" where
  "header_range h \<longleftrightarrow> h_Seq h < 2 ^ 64 \<and> h_Epoch h < 2 ^ 64 \<and> h_ACLVersion h < 2 ^ 64 \<and> h_Schema h < 2 ^ 63"

lemma dec_header_json:
  assumes "header_range h" "header_check h"
  shows "dec_header zero_header (header_json h) = Some h" "no_dup (header_json h)"
proof -
  have "- (2 ^ 63) \<le> h_Schema h" using assms(2) by (auto simp: header_check_def split: if_splits)
  then show "dec_header zero_header (header_json h) = Some h"
    using assms(1)
    by (simp add: dec_header_def header_json_def zero_header_def dec_struct_def field_def find_field_def
        dec_string_def dec_uint64_json dec_int_json dec_ptr_json header_range_def)
  show "no_dup (header_json h)" by (simp add: header_json_def)
qed

text \<open>
  C31. An honest segment opens: what \<open>Seal\<close> makes from a valid header, a plaintext within the
  limit, the scope key and the device's signing key parses, verifies under the device's public
  key, gives back the header and, under the same key, the plaintext.
\<close>

theorem Seal_opens:
  assumes "seg_libs_ok L" and "header_check h" and "header_range h"
    and "json_text L (json_render L (header_json h)) = Some (header_json h)"
    and "0 < length (json_render L (header_json h))"
    and "Seal L (header_json h) (h_Nonce h) plain key priv = Inr raw"
  shows "\<exists>f. seg_Parse raw = Inr f \<and> fr_Verify L f (ed_public L priv)
    \<and> SegmentHeader L f = Inr h \<and> fr_Open L f key (h_Nonce h) = Inr plain \<and> fr_Hash L f = Hash L raw"
proof -
  let ?hdr = "json_render L (header_json h)"
  obtain nonce where n: "DecodeB64 (h_Nonce h) = Some nonce" "length nonce = NonceSizeX" "length key = KeySize"
      "length ?hdr \<le> MaxHeader" "length plain \<le> MaxPlaintext"
    using assms(6) by (auto simp: Seal_def Let_def split: if_splits option.splits)
  define ct where "ct = aead_seal L key nonce (gzip_write L plain) ?hdr"
  define sig where "sig = ed_sign L priv (Magic @ be32 (length ?hdr) @ ?hdr @ ct)"
  have raw: "raw = file_of ?hdr ct sig" "length ct \<le> MaxCiphertext"
    using assms(6) n by (auto simp: Seal_def Let_def ct_def sig_def file_of_def split: if_splits)
  have "crypto_ok L" using assms(1) by (simp add: seg_libs_ok_def)
  then have "parts_ok ?hdr ct sig"
    using assms(1,5) n raw by (simp add: parts_ok_def seg_libs_ok_def crypto_ok_def ct_def sig_def sigLen_def Overhead_def)
  then have f: "seg_Parse raw = Inr (frame_of ?hdr ct sig)" by (simp add: raw seg_Parse_file)
  moreover have "fr_Verify L (frame_of ?hdr ct sig) (ed_public L priv)"
    using \<open>crypto_ok L\<close> by (simp add: fr_Verify_def frame_of_def sig_def crypto_ok_def)
  moreover have "SegmentHeader L (frame_of ?hdr ct sig) = Inr h"
    using assms(2,4) dec_header_json [OF assms(3,2)] by (simp add: SegmentHeader_def frame_of_def DecodeStrict_Some [THEN iffD2])
  moreover have "fr_Open L (frame_of ?hdr ct sig) key (h_Nonce h) = Inr plain"
    using assms(1) n by (simp add: fr_Open_def frame_of_def seg_libs_ok_def ct_def gunzip_def)
  moreover have "fr_Hash L (frame_of ?hdr ct sig) = Hash L raw" by (simp add: fr_Hash_def frame_of_def raw)
  ultimately show ?thesis by blast
qed

definition sample_seg_libs :: "json \<Rightarrow> seg_libs" where
  "sample_seg_libs j =
     op_libs.extend (op_libs.truncate (sample_op_libs j)\<lparr>json_render := \<lambda>_. ''header''\<rparr>)
       (seg_libs.fields (\<lambda>k n p ad. p @ pad_to 16 ad)
          (\<lambda>k n ct ad. Some (take (length ct - 16) ct)) (\<lambda>p. p) (\<lambda>z. Some (z, 0)))"

lemma sample_seg_simps [simp]:
  "json_text (sample_seg_libs j) d = Some j" "json_render (sample_seg_libs j) j' = ''header''"
  "aead_seal (sample_seg_libs j) k n p ad = p @ pad_to 16 ad"
  "aead_open (sample_seg_libs j) k n ct ad = Some (take (length ct - 16) ct)"
  "gzip_write (sample_seg_libs j) p = p" "gzip_read (sample_seg_libs j) z = Some (z, 0)"
  "sha256 (sample_seg_libs j) = sha256 toy_crypto" "ed_public (sample_seg_libs j) = ed_public toy_crypto"
  "ed_sign (sample_seg_libs j) = ed_sign toy_crypto" "ed_verify (sample_seg_libs j) = ed_verify toy_crypto"
  by (simp_all add: sample_seg_libs_def sample_op_libs_def crypto.defs libs.defs op_libs.defs seg_libs.defs)

lemma sample_seg_libs_ok: "seg_libs_ok (sample_seg_libs j)"
  using toy_crypto_ok by (simp add: seg_libs_ok_def crypto_ok_def)

definition sample_header :: header where
  "sample_header = \<lparr>h_ClubID = ''club'', h_DeviceID = DeviceID toy_crypto ''key'', h_Scope = ScopeFinance,
     h_Seq = 1, h_Prev = None, h_Epoch = 1, h_ACLVersion = 1, h_Schema = 1,
     h_Nonce = EncodeB64 (pad_to 24 []), h_HLCMin = ''0000000000ff-0001'', h_HLCMax = ''0000000000ff-0001''\<rparr>"

lemma sample_header_ok: "header_check sample_header" "header_range sample_header"
proof -
  have t: "ts_string \<lparr>MS = 255, Counter = 1\<rparr> = ''0000000000ff-0001''" by code_simp
  have "hlc_parse ''0000000000ff-0001'' = Some \<lparr>MS = 255, Counter = 1\<rparr>"
    using hlc_parse_string [of "\<lparr>MS = 255, Counter = 1\<rparr>"] by (simp add: t ts_valid_def maxMS_def)
  moreover have "ValidDeviceID (DeviceID toy_crypto ''key'')"
    using toy_crypto_ok by (simp add: ValidDeviceID_iff DeviceID_shape crypto_ok_def)
  ultimately show "header_check sample_header"
    by (simp add: header_check_def sample_header_def ValidScope_iff Scopes_def checkNonce_def NonceSizeX_def
        ts_compare_def)
  show "header_range sample_header" by (simp add: header_range_def sample_header_def)
qed

theorem Seal_opens_witness:
  "\<exists>raw f. Seal (sample_seg_libs (header_json sample_header)) (header_json sample_header) (h_Nonce sample_header)
      ''[]'' (pad_to 32 ''k'') ''priv'' = Inr raw
    \<and> seg_Parse raw = Inr f
    \<and> fr_Open (sample_seg_libs (header_json sample_header)) f (pad_to 32 ''k'') (h_Nonce sample_header) = Inr ''[]''"
proof -
  let ?L = "sample_seg_libs (header_json sample_header)"
  obtain raw where "Seal ?L (header_json sample_header) (h_Nonce sample_header) ''[]'' (pad_to 32 ''k'') ''priv'' = Inr raw"
    by (simp add: Seal_def sample_header_def limits Let_def)
  with Seal_opens [OF sample_seg_libs_ok sample_header_ok, of "header_json sample_header" "''[]''" "pad_to 32 ''k''" "''priv''" raw]
  show ?thesis by auto
qed

end
