(* ===== verification/Transport.thy ===== *)
theory Transport
  imports GoLib
begin

text \<open>
  Moving files between devices (\<open>server/internal/sync/transport\<close>): path checks, the in-memory
  transport, and the synced folder. The folder is a map from paths to contents; directories are
  implied by the paths. What other clients of a cloud folder do between two steps of \<open>Create\<close> is
  a parameter.
\<close>

datatype tr_error = ErrExists | ErrNotExist | ErrInvalidPath | ErrIO

type_synonym files = "(string, bytes) gomap"

subsection \<open>Paths\<close>

text \<open>\<open>utf8.ValidString\<close>.\<close>

definition in_bytes :: "nat \<Rightarrow> nat \<Rightarrow> char \<Rightarrow> bool" where
  "in_bytes lo hi c \<longleftrightarrow> lo \<le> of_char c \<and> of_char c \<le> hi"

fun utf8_valid :: "string \<Rightarrow> bool" where
  "utf8_valid [] = True"
| "utf8_valid (a # r) =
     (if in_bytes 0 0x7F a then utf8_valid r
      else if in_bytes 0xC2 0xDF a then
        (case r of b # r' \<Rightarrow> in_bytes 0x80 0xBF b \<and> utf8_valid r' | _ \<Rightarrow> False)
      else if in_bytes 0xE0 0xEF a then
        (case r of
           b # c # r' \<Rightarrow>
             in_bytes (if in_bytes 0xE0 0xE0 a then 0xA0 else 0x80) (if in_bytes 0xED 0xED a then 0x9F else 0xBF) b
             \<and> in_bytes 0x80 0xBF c \<and> utf8_valid r'
         | _ \<Rightarrow> False)
      else if in_bytes 0xF0 0xF4 a then
        (case r of
           b # c # d # r' \<Rightarrow>
             in_bytes (if in_bytes 0xF0 0xF0 a then 0x90 else 0x80) (if in_bytes 0xF4 0xF4 a then 0x8F else 0xBF) b
             \<and> in_bytes 0x80 0xBF c \<and> in_bytes 0x80 0xBF d \<and> utf8_valid r'
         | _ \<Rightarrow> False)
      else False)"

fun split_slash :: "string \<Rightarrow> string list" where
  "split_slash [] = [[]]"
| "split_slash (c # r) =
     (if c = CHR ''/'' then [] # split_slash r
      else (case split_slash r of [] \<Rightarrow> [[c]] | w # ws \<Rightarrow> (c # w) # ws))"

text \<open>\<open>fs.ValidPath\<close>.\<close>

definition ValidPath :: "string \<Rightarrow> bool" where
  "ValidPath name \<longleftrightarrow>
     utf8_valid name \<and>
     (name = ''.'' \<or> list_all (\<lambda>e. e \<noteq> [] \<and> e \<noteq> ''.'' \<and> e \<noteq> ''..'') (split_slash name))"

definition CheckPath :: "string \<Rightarrow> bool" where
  "CheckPath path \<longleftrightarrow>
     (if \<not> ValidPath path \<or> path = ''.'' \<or> List.member path (CHR 0x5C) then False else True)"

text \<open>\<open>path.Dir\<close> of a clean path: what is before the last slash.\<close>

definition path_dir :: "string \<Rightarrow> string" where
  "path_dir p =
     (if List.member p (CHR ''/'') then rev (drop 1 (dropWhile (\<lambda>c. c \<noteq> CHR ''/'') (rev p))) else ''.'')"

definition path_join :: "string \<Rightarrow> string \<Rightarrow> string" where
  "path_join dir name = (if dir = ''.'' then name else dir @ ''/'' @ name)"

definition has_prefix :: "string \<Rightarrow> string \<Rightarrow> bool" where
  "has_prefix s p \<longleftrightarrow> take (length p) s = p"

subsection \<open>The in-memory transport\<close>

definition mem_List :: "files \<Rightarrow> string \<Rightarrow> string list" where
  "mem_List fs prefix = filter (\<lambda>p. has_prefix p prefix) (sort (map fst (gm_entries fs)))"

definition mem_Get :: "files \<Rightarrow> string \<Rightarrow> tr_error + bytes" where
  "mem_Get fs path =
     (if \<not> CheckPath path then Inl ErrInvalidPath
      else (case map_of fs path of None \<Rightarrow> Inl ErrNotExist | Some b \<Rightarrow> Inr b))"

definition mem_Create :: "string \<Rightarrow> bytes \<Rightarrow> files \<Rightarrow> (tr_error + unit) \<times> files" where
  "mem_Create path data fs =
     (if \<not> CheckPath path then (Inl ErrInvalidPath, fs)
      else if map_of fs path \<noteq> None then (Inl ErrExists, fs)
      else (Inr (), AList.update path data fs))"

definition mem_Delete :: "string \<Rightarrow> files \<Rightarrow> (tr_error + unit) \<times> files" where
  "mem_Delete path fs =
     (if \<not> CheckPath path then (Inl ErrInvalidPath, fs) else (Inr (), AList.delete path fs))"

subsection \<open>The synced folder\<close>

definition TempPrefix :: string where
  "TempPrefix = ''.tmp-''"

definition hex_of :: "bytes \<Rightarrow> string" where
  "hex_of bs = concat (map (\<lambda>c. fmt_uint 16 2 (of_char c)) bs)"

definition lf_List :: "files \<Rightarrow> string \<Rightarrow> tr_error + string list" where
  "lf_List fs prefix =
     (let slash = List.member prefix (CHR ''/'');
          dir = rev (drop 1 (dropWhile (\<lambda>c. c \<noteq> CHR ''/'') (rev prefix)))
      in if slash \<and> \<not> CheckPath dir then Inl ErrInvalidPath
         else Inr (filter (\<lambda>p. has_prefix p prefix) (map fst (gm_entries fs))))"

definition lf_Get :: "files \<Rightarrow> string \<Rightarrow> tr_error + bytes" where
  "lf_Get fs p =
     (if \<not> CheckPath p then Inl ErrInvalidPath
      else (case map_of fs p of None \<Rightarrow> Inl ErrNotExist | Some b \<Rightarrow> Inr b))"

text \<open>
  \<open>Create\<close>: the temporary file is linked to its name, or renamed where the file system has no hard
  links. \<open>race1\<close> is what others do after the temporary file is written, \<open>race2\<close> what they
  do between the existence check and the rename.
\<close>

definition lf_Create :: "bool \<Rightarrow> bytes \<Rightarrow> (files \<Rightarrow> files) \<Rightarrow> (files \<Rightarrow> files) \<Rightarrow> string \<Rightarrow> bytes \<Rightarrow> files
    \<Rightarrow> (tr_error + unit) \<times> files" where
  "lf_Create links rnd race1 race2 p data fs =
     (if \<not> CheckPath p then (Inl ErrInvalidPath, fs)
      else if map_of fs p \<noteq> None then (Inl ErrExists, fs)
      else
        (let tmp = path_join (path_dir p) (TempPrefix @ hex_of (take 8 rnd)) in
         if map_of fs tmp \<noteq> None then (Inl ErrIO, fs)
         else
           (let fs1 = race1 (AList.update tmp data fs) in
            if links \<and> map_of fs1 tmp \<noteq> None then
              (if map_of fs1 p \<noteq> None then (Inl ErrExists, AList.delete tmp fs1)
               else (Inr (), AList.delete tmp (AList.update p (gm_get [] fs1 tmp) fs1)))
            else if map_of fs1 p \<noteq> None then (Inl ErrExists, AList.delete tmp fs1)
            else
              (let fs2 = race2 fs1 in
               case map_of fs2 tmp of
                 None \<Rightarrow> (Inl ErrIO, fs2)
               | Some b \<Rightarrow> (Inr (), AList.update p b (AList.delete tmp fs2))))))"

definition lf_Delete :: "string \<Rightarrow> files \<Rightarrow> (tr_error + unit) \<times> files" where
  "lf_Delete p fs = (if \<not> CheckPath p then (Inl ErrInvalidPath, fs) else (Inr (), AList.delete p fs))"

subsection \<open>The interface\<close>

text \<open>
  What the code relies on: creating a file makes it readable and was not possible before, no other
  file is lost, and a failure because the file exists is true.
\<close>

locale file_store =
  fixes get :: "'r \<Rightarrow> string \<Rightarrow> tr_error + bytes"
    and create :: "string \<Rightarrow> bytes \<Rightarrow> 'r \<Rightarrow> (tr_error + unit) \<times> 'r"
  assumes create_new: "create p b r = (Inr (), r') \<Longrightarrow> get r p = Inl ErrNotExist \<and> get r' p = Inr b"
    and create_keeps: "create p b r = (x, r') \<Longrightarrow> get r q = Inr c \<Longrightarrow> get r' q = Inr c"

interpretation mem: file_store mem_Get mem_Create
proof
  show "mem_Get r p = Inl ErrNotExist \<and> mem_Get r' p = Inr b" if "mem_Create p b r = (Inr (), r')" for p b r r'
    using that by (auto simp: mem_Create_def mem_Get_def update_conv' split: if_splits)
  show "mem_Get r' q = Inr c" if "mem_Create p b r = (x, r')" "mem_Get r q = Inr c" for p b r x r' q c
    using that by (auto simp: mem_Create_def mem_Get_def update_conv' split: if_splits option.splits)
qed

text \<open>The folder while no other client interferes.\<close>

interpretation lf: file_store lf_Get "lf_Create links rnd id id"
proof
  show "lf_Get r p = Inl ErrNotExist \<and> lf_Get r' p = Inr b" if "lf_Create links rnd id id p b r = (Inr (), r')" for p b r r'
    using that by (auto simp: lf_Create_def lf_Get_def Let_def update_conv' delete_conv' gm_get_def split: if_splits)
  show "lf_Get r' q = Inr c" if "lf_Create links rnd id id p b r = (x, r')" "lf_Get r q = Inr c" for p b r x r' q c
    using that by (auto simp: lf_Create_def lf_Get_def Let_def update_conv' delete_conv' gm_get_def split: if_splits option.splits)
qed

text \<open>
  On a file system with hard links, \<open>Create\<close> never changes a file that exists, also when other
  clients create it at the same time; and when it reports success the file holds the data.
\<close>

lemma create_never_overwrites:
  assumes "lf_Create True rnd race1 race2 p data fs = (res, fs')"
    and "map_of (race1 (AList.update (path_join (path_dir p) (TempPrefix @ hex_of (take 8 rnd))) data fs))
           (path_join (path_dir p) (TempPrefix @ hex_of (take 8 rnd))) = Some data"
    and "CheckPath p" and "map_of fs p = None" and "map_of fs (path_join (path_dir p) (TempPrefix @ hex_of (take 8 rnd))) = None"
  shows "res = (if map_of (race1 (AList.update (path_join (path_dir p) (TempPrefix @ hex_of (take 8 rnd))) data fs)) p = None
           then Inr () else Inl ErrExists)
     \<and> (q \<noteq> path_join (path_dir p) (TempPrefix @ hex_of (take 8 rnd)) \<longrightarrow>
         map_of fs' q = (if res = Inr () \<and> q = p then Some data
           else map_of (race1 (AList.update (path_join (path_dir p) (TempPrefix @ hex_of (take 8 rnd))) data fs)) q))"
  using assms by (auto simp: lf_Create_def Let_def update_conv' delete_conv' gm_get_def split: if_splits)

end
