(* ===== verification/Snapshot.thy ===== *)
theory Snapshot
  imports SyncWrite Segment Transport
begin

text \<open>
  Snapshots and the upload queue (\<open>server/internal/sync/replica/snapshot.go\<close>, \<open>build.go\<close>):
  reading the state of a scope, its JSON form, the checks of a received snapshot, loading it, and
  uploading the queued files.
\<close>

subsection \<open>Data\<close>

record snap_cell =
  sc_V :: val
  sc_Clock :: clk

record snap_row =
  sr_T :: string
  sr_PK :: row
  sr_Cells :: "(string, snap_cell) gomap option"

record snapshot =
  sn_Rows :: "snap_row list"
  sn_Pending :: "change list"

record sdb = wdb +
  e_uploads :: "(string, bytes) gomap"
  e_bases :: "(scope, string \<times> string) gomap"

definition zero_change :: change where
  "zero_change = \<lparr>ch_T = [], ch_PK = None, ch_Set = None, ch_Clock = zero_clk, ch_Clocks = None\<rparr>"

definition dec_clk :: "clk decoder" where
  "dec_clk = dec_struct
     [field ''e'' k_Epoch (\<lambda>x r. r\<lparr>k_Epoch := x\<rparr>) dec_uint64,
      field ''h'' k_HLC (\<lambda>x r. r\<lparr>k_HLC := x\<rparr>) dec_string,
      field ''d'' k_Device (\<lambda>x r. r\<lparr>k_Device := x\<rparr>) dec_string]"

definition dec_change :: "('c) op_libs_scheme \<Rightarrow> change decoder" where
  "dec_change L = dec_struct
     [field ''t'' ch_T (\<lambda>x r. r\<lparr>ch_T := x\<rparr>) dec_string,
      field ''pk'' ch_PK (\<lambda>x r. r\<lparr>ch_PK := x\<rparr>) (dec_map VNil (dec_any L)),
      field ''set'' ch_Set (\<lambda>x r. r\<lparr>ch_Set := x\<rparr>) (dec_map VNil (dec_any L)),
      field ''clock'' ch_Clock (\<lambda>x r. r\<lparr>ch_Clock := x\<rparr>) dec_clk,
      field ''clocks'' ch_Clocks (\<lambda>x r. r\<lparr>ch_Clocks := x\<rparr>) (dec_map zero_clk dec_clk)]"

text \<open>The clock of a cell is embedded: its fields stand beside the value.\<close>

definition dec_cell :: "('c) op_libs_scheme \<Rightarrow> snap_cell decoder" where
  "dec_cell L = dec_struct
     [field ''v'' sc_V (\<lambda>x r. r\<lparr>sc_V := x\<rparr>) (dec_any L),
      field ''e'' (\<lambda>r. k_Epoch (sc_Clock r)) (\<lambda>x r. r\<lparr>sc_Clock := (sc_Clock r)\<lparr>k_Epoch := x\<rparr>\<rparr>) dec_uint64,
      field ''h'' (\<lambda>r. k_HLC (sc_Clock r)) (\<lambda>x r. r\<lparr>sc_Clock := (sc_Clock r)\<lparr>k_HLC := x\<rparr>\<rparr>) dec_string,
      field ''d'' (\<lambda>r. k_Device (sc_Clock r)) (\<lambda>x r. r\<lparr>sc_Clock := (sc_Clock r)\<lparr>k_Device := x\<rparr>\<rparr>) dec_string]"

definition dec_snap_row :: "('c) op_libs_scheme \<Rightarrow> snap_row decoder" where
  "dec_snap_row L = dec_struct
     [field ''t'' sr_T (\<lambda>x r. r\<lparr>sr_T := x\<rparr>) dec_string,
      field ''pk'' sr_PK (\<lambda>x r. r\<lparr>sr_PK := x\<rparr>) (dec_map VNil (dec_any L)),
      field ''cells'' sr_Cells (\<lambda>x r. r\<lparr>sr_Cells := x\<rparr>) (dec_map \<lparr>sc_V = VNil, sc_Clock = zero_clk\<rparr> (dec_cell L))]"

definition dec_snapshot :: "('c) op_libs_scheme \<Rightarrow> snapshot decoder" where
  "dec_snapshot L = dec_struct
     [field ''rows'' sn_Rows (\<lambda>x r. r\<lparr>sn_Rows := x\<rparr>)
        (dec_slice \<lparr>sr_T = [], sr_PK = None, sr_Cells = None\<rparr> (dec_snap_row L)),
      field ''pending'' sn_Pending (\<lambda>x r. r\<lparr>sn_Pending := x\<rparr>) (dec_slice zero_change (dec_change L))]"

text \<open>\<open>Encode\<close>.\<close>

definition clk_fields :: "clk \<Rightarrow> (string \<times> json) list" where
  "clk_fields c = [(''e'', nat_json (k_Epoch c)), (''h'', JStr (k_HLC c)), (''d'', JStr (k_Device c))]"

definition change_json :: "change \<Rightarrow> json" where
  "change_json ch = JObj
     ([(''t'', JStr (ch_T ch)), (''pk'', map_json val_json (ch_PK ch)), (''set'', map_json val_json (ch_Set ch)),
       (''clock'', JObj (clk_fields (ch_Clock ch)))]
      @ (if (case ch_Clocks ch of None \<Rightarrow> [] | Some m \<Rightarrow> m) = [] then []
         else [(''clocks'', map_json (\<lambda>c. JObj (clk_fields c)) (ch_Clocks ch))]))"

definition cell_json :: "snap_cell \<Rightarrow> json" where
  "cell_json c = JObj ((''v'', val_json (sc_V c)) # clk_fields (sc_Clock c))"

definition snap_row_json :: "snap_row \<Rightarrow> json" where
  "snap_row_json r = JObj
     [(''t'', JStr (sr_T r)), (''pk'', map_json val_json (sr_PK r)), (''cells'', map_json cell_json (sr_Cells r))]"

definition snap_Encode :: "('c) op_libs_scheme \<Rightarrow> snapshot \<Rightarrow> bytes" where
  "snap_Encode L s = json_render L
     (JObj [(''rows'', list_json snap_row_json (sn_Rows s)), (''pending'', list_json change_json (sn_Pending s))])"

subsection \<open>Reading the state of a scope\<close>

definition row_cells :: "('s) schema_scheme \<Rightarrow> ('d) rdb_scheme \<Rightarrow> db_table \<Rightarrow> (string, val) gomap \<Rightarrow> (string, snap_cell) gomap" where
  "row_cells S d t cells =
     (let key = EncodePK (Some (filter (\<lambda>(c, v). List.member (PK t) c) (map (\<lambda>c. (col_name c, gm_get VNil cells (col_name c))) (sc_columns S (Name t)))))
      in List.map_filter (\<lambda>c.
           let v = gm_get VNil cells (col_name c) in
           if col_name c = ''updated_at'' then None
           else (case fieldClocks d (Name t) key (col_name c) of
                   Some clk \<Rightarrow> Some (col_name c, \<lparr>sc_V = v, sc_Clock = clk\<rparr>)
                 | None \<Rightarrow> if v = VNil then None else Some (col_name c, \<lparr>sc_V = v, sc_Clock = zero_clk\<rparr>)))
          (sc_columns S (Name t)))"

definition read_row :: "('s) schema_scheme \<Rightarrow> ('d) rdb_scheme \<Rightarrow> db_table \<Rightarrow> (string, val) gomap \<Rightarrow> snap_row" where
  "read_row S d t cells =
     \<lparr>sr_T = Name t,
      sr_PK = Some (filter (\<lambda>(c, v). List.member (PK t) c) (map (\<lambda>c. (col_name c, gm_get VNil cells (col_name c))) (sc_columns S (Name t)))),
      sr_Cells = Some (row_cells S d t cells)\<rparr>"

text \<open>\<open>ORDER BY\<close> the key columns, which hold text.\<close>

definition pk_order :: "db_table \<Rightarrow> (string, val) gomap \<Rightarrow> string list" where
  "pk_order t cells = map (\<lambda>c. case gm_get VNil cells c of VStr s \<Rightarrow> s | _ \<Rightarrow> []) (PK t)"

definition ReadState :: "('s) schema_scheme \<Rightarrow> scope \<Rightarrow> ('d) rdb_scheme \<Rightarrow> snapshot" where
  "ReadState S s d =
     \<lparr>sn_Rows = concat (map (\<lambda>t. map (read_row S d t)
         (sort_key (pk_order t) (map snd (gm_entries (r_rows d (Name t)))))) (filter (\<lambda>t. Scope t = s) SyncedTables)),
      sn_Pending = List.map_filter (\<lambda>(i, ps, ch, reason). if ps = s then Some ch else None) (r_pending d)\<rparr>"

subsection \<open>Checking a received snapshot\<close>

definition checkClock :: "clk \<Rightarrow> bool \<Rightarrow> bool" where
  "checkClock c zeroOK =
     (if zeroOK \<and> c = zero_clk then True
      else if k_Epoch c < 1 \<or> \<not> ValidDeviceID (k_Device c) then False
      else hlc_parse (k_HLC c) \<noteq> None)"

definition snap_cells :: "snap_row \<Rightarrow> (string, snap_cell) gomap" where
  "snap_cells r = (case sr_Cells r of None \<Rightarrow> [] | Some m \<Rightarrow> m)"

definition check_snap_row :: "('s) schema_scheme \<Rightarrow> scope \<Rightarrow> snap_row \<Rightarrow> op_error + unit" where
  "check_snap_row S s r =
     (if \<not> gm_all (\<lambda>c cell. checkClock (sc_Clock cell) True) (snap_cells r) then Inl ErrInvalidOp
      else Validate S s \<lparr>o_T = sr_T r, o_PK = sr_PK r, o_HLC = ''000000000000-0000'',
             o_Set = Some (map (\<lambda>(c, cell). (c, sc_V cell)) (gm_entries (snap_cells r))), o_Purge = []\<rparr>)"

definition check_snap_pending :: "('s) schema_scheme \<Rightarrow> scope \<Rightarrow> change \<Rightarrow> op_error + unit" where
  "check_snap_pending S s ch =
     (case Validate S s \<lparr>o_T = ch_T ch, o_PK = ch_PK ch, o_HLC = k_HLC (ch_Clock ch), o_Set = ch_Set ch, o_Purge = []\<rparr> of
        Inl e \<Rightarrow> Inl e
      | Inr _ \<Rightarrow>
          if list_all (\<lambda>c. checkClock c False) (map snd (gm_entries (case ch_Clocks ch of None \<Rightarrow> [] | Some m \<Rightarrow> m)) @ [ch_Clock ch])
          then Inr () else Inl ErrInvalidOp)"

fun first_error :: "('a \<Rightarrow> 'e + unit) \<Rightarrow> 'a list \<Rightarrow> 'e + unit" where
  "first_error f [] = Inr ()"
| "first_error f (x # xs) = (case f x of Inl e \<Rightarrow> Inl e | Inr _ \<Rightarrow> first_error f xs)"

definition DecodeSnapshot :: "('s) schema_scheme \<Rightarrow> ('c) op_libs_scheme \<Rightarrow> scope \<Rightarrow> bytes \<Rightarrow> op_error + snapshot" where
  "DecodeSnapshot S L s plain =
     (case DecodeStrict (json_text L) (dec_snapshot L) \<lparr>sn_Rows = [], sn_Pending = []\<rparr> plain of
        None \<Rightarrow> Inl ErrInvalidOp
      | Some sn \<Rightarrow>
          (case first_error (check_snap_row S s) (sn_Rows sn) of
             Inl e \<Rightarrow> Inl e
           | Inr _ \<Rightarrow>
               (case first_error (check_snap_pending S s) (sn_Pending sn) of
                  Inl e \<Rightarrow> Inl e
                | Inr _ \<Rightarrow> Inr sn)))"

subsection \<open>Loading a snapshot\<close>

definition row_change :: "snap_row \<Rightarrow> change" where
  "row_change r =
     (let es = gm_entries (snap_cells r) in
      \<lparr>ch_T = sr_T r, ch_PK = sr_PK r, ch_Set = Some (map (\<lambda>(c, cell). (c, sc_V cell)) es),
       ch_Clock = foldl (\<lambda>m (c, cell). if clk_Less m (sc_Clock cell) then sc_Clock cell else m) zero_clk es,
       ch_Clocks = Some (map (\<lambda>(c, cell). (c, sc_Clock cell)) es)\<rparr>)"

fun load_rows :: "('s) schema_scheme \<Rightarrow> scope \<Rightarrow> snap_row list \<Rightarrow> ('d) rdb_scheme \<Rightarrow> sql_error + ('d) rdb_scheme" where
  "load_rows S s [] d = Inr d"
| "load_rows S s (r # rs) d =
     (case Apply S (row_change r) d of
        Inl e \<Rightarrow> Inl e
      | Inr (Written cols, d') \<Rightarrow> load_rows S s rs d'
      | Inr (Pending why, d') \<Rightarrow> load_rows S s rs (AddPending s (row_change r) why d'))"

definition Load :: "('s) schema_scheme \<Rightarrow> scope \<Rightarrow> snapshot \<Rightarrow> ('d) rdb_scheme \<Rightarrow> sql_error + ('d) rdb_scheme" where
  "Load S s sn d =
     (case load_rows S s (sn_Rows sn) d of
        Inl e \<Rightarrow> Inl e
      | Inr d' \<Rightarrow> Inr (fold (\<lambda>ch. AddPending s ch ''from snapshot'') (sn_Pending sn) d'))"

subsection \<open>The upload queue\<close>

text \<open>\<open>None\<close>: the path is queued already, which the primary key of the table refuses.\<close>

definition QueueUpload :: "string \<Rightarrow> bytes \<Rightarrow> ('d) sdb_scheme \<Rightarrow> ('d) sdb_scheme option" where
  "QueueUpload path data d =
     (if map_of (e_uploads d) path \<noteq> None then None
      else Some (d\<lparr>e_uploads := e_uploads d @ [(path, data)]\<rparr>))"

datatype upload_result = Uploaded nat "string list" | UploadFailed nat tr_error

fun upload_loop :: "('r \<Rightarrow> string \<Rightarrow> tr_error + bytes) \<Rightarrow> (string \<Rightarrow> bytes \<Rightarrow> 'r \<Rightarrow> (tr_error + unit) \<times> 'r)
    \<Rightarrow> (string \<times> bytes) list \<Rightarrow> nat \<Rightarrow> string list \<Rightarrow> string list \<Rightarrow> (string, bytes) gomap \<Rightarrow> 'r
    \<Rightarrow> upload_result \<times> (string, bytes) gomap \<times> 'r" where
  "upload_loop get create [] n blocked stopped queue r = (Uploaded n blocked, queue, r)"
| "upload_loop get create ((path, data) # fs) n blocked stopped queue r =
     (if List.member stopped (path_dir path) then upload_loop get create fs n blocked stopped queue r
      else
        (case create path data r of
           (Inr _, r') \<Rightarrow> upload_loop get create fs (Suc n) blocked stopped (AList.delete path queue) r'
         | (Inl e, r') \<Rightarrow>
             if e = ErrExists then
               (case get r' path of
                  Inl e' \<Rightarrow> (UploadFailed n e', queue, r')
                | Inr got \<Rightarrow>
                    if got \<noteq> data then upload_loop get create fs n (blocked @ [path]) (path_dir path # stopped) queue r'
                    else upload_loop get create fs (Suc n) blocked stopped (AList.delete path queue) r')
             else (UploadFailed n e, queue, r')))"

definition Upload :: "('r \<Rightarrow> string \<Rightarrow> tr_error + bytes) \<Rightarrow> (string \<Rightarrow> bytes \<Rightarrow> 'r \<Rightarrow> (tr_error + unit) \<times> 'r)
    \<Rightarrow> ('d) sdb_scheme \<Rightarrow> 'r \<Rightarrow> upload_result \<times> ('d) sdb_scheme \<times> 'r" where
  "Upload get create d r =
     (case upload_loop get create (sort_key fst (gm_entries (e_uploads d))) 0 [] [] (e_uploads d) r of
        (res, queue, r') \<Rightarrow> (res, d\<lparr>e_uploads := queue\<rparr>, r'))"

subsection \<open>Writing a snapshot\<close>

definition SetBase :: "scope \<Rightarrow> string \<Rightarrow> string \<Rightarrow> ('d) sdb_scheme \<Rightarrow> ('d) sdb_scheme" where
  "SetBase s path hash d = d\<lparr>e_bases := AList.update s (path, hash) (e_bases d)\<rparr>"

record snapshot_spec =
  sp_ClubID :: string
  sp_DeviceID :: string
  sp_Sign :: bytes
  sp_Scope :: scope
  sp_Epoch :: nat
  sp_Key :: bytes
  sp_ACLVersion :: nat
  sp_HLC :: timestamp
  sp_Streams :: "(string, frontier) gomap option"

datatype snap_error = SnapSeal seg_error | SnapQueued

definition WriteSnapshot :: "('s) schema_scheme \<Rightarrow> ('c) seg_libs_scheme \<Rightarrow> bytes \<Rightarrow> snapshot_spec \<Rightarrow> ('d) sdb_scheme
    \<Rightarrow> snap_error + (string \<times> string \<times> ('d) sdb_scheme)" where
  "WriteSnapshot S L random spec d =
     (let plain = snap_Encode L (ReadState S (sp_Scope spec) d);
          nonce = NewNonce random;
          streams = (case sp_Streams spec of None \<Rightarrow> Some [] | Some m \<Rightarrow> Some m);
          hdr = \<lparr>sh_Type = SnapshotType, sh_ClubID = sp_ClubID spec, sh_DeviceID = sp_DeviceID spec, sh_Scope = sp_Scope spec,
                 sh_Streams = streams, sh_Epoch = sp_Epoch spec, sh_ACLVersion = sp_ACLVersion spec, sh_Schema = SchemaVersion,
                 sh_Nonce = nonce, sh_HLC = ts_string (sp_HLC spec)\<rparr>
      in case Seal L (snapshot_header_json hdr) nonce plain (sp_Key spec) (sp_Sign spec) of
           Inl e \<Rightarrow> Inl (SnapSeal e)
         | Inr data \<Rightarrow>
             (let path = SnapshotPath (sp_Scope spec) (sp_Epoch spec) (sh_HLC hdr) (sp_DeviceID spec);
                  hash = Hash L data
              in case QueueUpload path data d of
                   None \<Rightarrow> Inl SnapQueued
                 | Some d' \<Rightarrow> Inr (path, hash, SetBase (sp_Scope spec) path hash d')))"

subsection \<open>Uploading never loses a file\<close>

context file_store
begin

lemma upload_loop_keeps:
  "upload_loop get create fs n blocked stopped queue r = (res, queue', r') \<Longrightarrow> get r p = Inr b \<Longrightarrow> get r' p = Inr b"
proof (induction fs arbitrary: n blocked stopped queue r)
  case (Cons f fs)
  obtain path data where f: "f = (path, data)" by fastforce
  obtain x r1 where c: "create path data r = (x, r1)" by fastforce
  have k: "get r1 p = Inr b" using create_keeps [OF c Cons.prems(2)] .
  show ?case
    using Cons.prems(1) Cons.IH [OF _ k] Cons.IH [OF _ Cons.prems(2)] k c f
    by (auto split: if_splits sum.splits)
qed simp

lemma upload_loop_queue:
  "upload_loop get create fs n blocked stopped queue r = (res, queue', r') \<Longrightarrow>
     if map_of queue' p = None then map_of queue p = None \<or> (\<exists>b. (p, b) \<in> set fs \<and> get r' p = Inr b)
     else map_of queue' p = map_of queue p"
proof (induction fs arbitrary: n blocked stopped queue r)
  case (Cons f fs)
  obtain path data where f: "f = (path, data)" by fastforce
  obtain x r1 where c: "create path data r = (x, r1)" by fastforce
  have gone: ?case
    if "upload_loop get create fs n' blocked stopped (AList.delete path queue) r1 = (res, queue', r')" "get r1 path = Inr data" for n'
    using Cons.IH [OF that(1)] upload_loop_keeps [OF that(1) that(2)] f
    by (auto simp: delete_conv' split: if_splits)
  have skip: ?case
    if "upload_loop get create fs n' blocked' stopped' queue r1' = (res, queue', r')" for n' blocked' stopped' r1'
    using Cons.IH [OF that] f by (auto split: if_splits)
  show ?case
  proof (cases "List.member stopped (path_dir path)")
    case True
    then have "upload_loop get create fs n blocked stopped queue r = (res, queue', r')" using Cons.prems f by simp
    then show ?thesis by (rule skip)
  next
    case not_stopped: False
    show ?thesis
    proof (cases x)
      case (Inr u)
      then have "get r1 path = Inr data" using create_new c by simp
      moreover have "upload_loop get create fs (Suc n) blocked stopped (AList.delete path queue) r1 = (res, queue', r')"
        using Cons.prems not_stopped c f Inr by simp
      ultimately show ?thesis using gone by blast
    next
      case (Inl e)
      have step: "(if e = ErrExists then
               (case get r1 path of
                  Inl e' \<Rightarrow> (UploadFailed n e', queue, r1)
                | Inr got \<Rightarrow>
                    if got \<noteq> data
                    then upload_loop get create fs n (blocked @ [path]) (path_dir path # stopped) queue r1
                    else upload_loop get create fs (Suc n) blocked stopped (AList.delete path queue) r1)
             else (UploadFailed n e, queue, r1)) = (res, queue', r')"
        using Cons.prems not_stopped c f Inl by simp
      have idle: ?thesis if "queue' = queue" using that by (auto split: if_splits)
      show ?thesis
      proof (cases "e = ErrExists")
        case exists: True
        show ?thesis
        proof (cases "get r1 path")
          case (Inl e')
          then show ?thesis using step exists idle by simp
        next
          case got: (Inr b)
          show ?thesis
          proof (cases "b = data")
            case True
            then have "upload_loop get create fs (Suc n) blocked stopped (AList.delete path queue) r1 = (res, queue', r')"
              using step exists got by simp
            then show ?thesis using gone got True by blast
          next
            case False
            then have "upload_loop get create fs n (blocked @ [path]) (path_dir path # stopped) queue r1 = (res, queue', r')"
              using step exists got by simp
            then show ?thesis by (rule skip)
          qed
        qed
      next
        case False
        then show ?thesis using step idle by simp
      qed
    qed
  qed
qed simp

end


end
