(* ===== verification/Acl.thy ===== *)
theory Acl
  imports GoJson Identity Scopes Hlc
begin

text \<open>
  The genesis file and one version of the access control list:
  \<open>server/internal/sync/acl/roles.go\<close>, \<open>genesis.go\<close> and \<open>acl.go\<close>. The sentinel
  errors are the constructors of \<open>acl_error\<close>; the text an error carries beside its sentinel
  is not modelled. \<open>SlicePanic\<close> stands for the run-time panic of slicing beyond the end of a
  slice, which \<open>Verify_no_panic\<close> excludes.
\<close>

subsection \<open>Roles\<close>

type_synonym perm = string

definition PermRead :: perm where "PermRead = ''r''"
definition PermReadWrite :: perm where "PermReadWrite = ''rw''"

definition CanRead :: "perm \<Rightarrow> bool" where
  "CanRead p \<longleftrightarrow> p = PermRead \<or> p = PermReadWrite"

definition CanWrite :: "perm \<Rightarrow> bool" where
  "CanWrite p \<longleftrightarrow> p = PermReadWrite"

lemmas perm_defs = PermRead_def PermReadWrite_def CanRead_def CanWrite_def

text \<open>A map variable is nil or holds a map; reading a nil map is reading an empty one.\<close>

definition gm_of :: "('k, 'v) gomap option \<Rightarrow> ('k, 'v) gomap" where
  "gm_of m = (case m of None \<Rightarrow> [] | Some es \<Rightarrow> es)"

type_synonym role = "(scope, perm) gomap option"

definition role_perm :: "role \<Rightarrow> scope \<Rightarrow> perm" where
  "role_perm r s = gm_get [] (gm_of r) s"

definition Requires :: "(scope, scope list) gomap" where
  "Requires =
     [(ScopeMembersContact, [ScopeMembersCore]),
      (ScopeMembersBank, [ScopeMembersCore]),
      (ScopeFinance, [ScopeMembersCore]),
      (ScopeInventory, [ScopeMembersCore])]"

definition CheckDependencies :: "role \<Rightarrow> bool" where
  "CheckDependencies r \<longleftrightarrow>
     gm_all (\<lambda>s p. if \<not> CanRead p then True
                    else list_all (\<lambda>need. CanRead (role_perm r need)) (gm_get [] Requires s))
            (gm_of r)"

definition RoleBoard :: string where "RoleBoard = ''board''"
definition RoleTreasurer :: string where "RoleTreasurer = ''treasurer''"
definition RoleSecretary :: string where "RoleSecretary = ''secretary''"
definition RoleCoach :: string where "RoleCoach = ''coach''"
definition RoleEquipmentManager :: string where "RoleEquipmentManager = ''equipment_manager''"

lemmas role_ids = RoleBoard_def RoleTreasurer_def RoleSecretary_def RoleCoach_def RoleEquipmentManager_def

definition DefaultRoles :: "(string, role) gomap option" where
  "DefaultRoles = Some
     [(RoleBoard, Some
        [(ScopeMembersCore, PermReadWrite), (ScopeMembersContact, PermReadWrite),
         (ScopeMembersBank, PermReadWrite), (ScopeFinance, PermReadWrite),
         (ScopeInventory, PermReadWrite), (ScopeAdmin, PermReadWrite)]),
      (RoleTreasurer, Some
        [(ScopeMembersCore, PermRead), (ScopeMembersContact, PermRead),
         (ScopeMembersBank, PermReadWrite), (ScopeFinance, PermReadWrite),
         (ScopeInventory, PermRead)]),
      (RoleSecretary, Some
        [(ScopeMembersCore, PermReadWrite), (ScopeMembersContact, PermReadWrite),
         (ScopeInventory, PermRead)]),
      (RoleCoach, Some
        [(ScopeMembersCore, PermRead), (ScopeInventory, PermRead)]),
      (RoleEquipmentManager, Some
        [(ScopeMembersCore, PermRead), (ScopeInventory, PermReadWrite)])]"

subsection \<open>Genesis\<close>

definition ProtocolVersion :: int where "ProtocolVersion = 1"
definition genesisType :: string where "genesisType = ''ocm.club''"

record genesis =
  g_Type :: string
  g_Protocol :: int
  g_ClubID :: string
  g_Name :: string
  g_CreatedAt :: string
  g_RootSignPub :: string
  g_RootAgeRecipient :: string
  g_rootPub :: bytes

definition zero_genesis :: genesis where
  "zero_genesis = \<lparr>g_Type = [], g_Protocol = 0, g_ClubID = [], g_Name = [], g_CreatedAt = [],
     g_RootSignPub = [], g_RootAgeRecipient = [], g_rootPub = []\<rparr>"

definition dec_genesis :: "genesis decoder" where
  "dec_genesis = dec_struct
     [field ''type'' g_Type (\<lambda>x r. r\<lparr>g_Type := x\<rparr>) dec_string,
      field ''protocol'' g_Protocol (\<lambda>x r. r\<lparr>g_Protocol := x\<rparr>) dec_int,
      field ''club_id'' g_ClubID (\<lambda>x r. r\<lparr>g_ClubID := x\<rparr>) dec_string,
      field ''name'' g_Name (\<lambda>x r. r\<lparr>g_Name := x\<rparr>) dec_string,
      field ''created_at'' g_CreatedAt (\<lambda>x r. r\<lparr>g_CreatedAt := x\<rparr>) dec_string,
      field ''root_sign_pub'' g_RootSignPub (\<lambda>x r. r\<lparr>g_RootSignPub := x\<rparr>) dec_string,
      field ''root_age_recipient'' g_RootAgeRecipient (\<lambda>x r. r\<lparr>g_RootAgeRecipient := x\<rparr>) dec_string]"

text \<open>\<open>None\<close> is \<open>ErrBadGenesis\<close>.\<close>

definition ParseGenesis :: "('c) libs_scheme \<Rightarrow> bytes \<Rightarrow> bytes \<Rightarrow> genesis option" where
  "ParseGenesis L raw sig =
     (case DecodeStrict (json_text L) dec_genesis zero_genesis raw of
        None \<Rightarrow> None
      | Some g \<Rightarrow>
          if g_Type g \<noteq> genesisType then None
          else if g_Protocol g \<noteq> ProtocolVersion then None
          else if \<not> uuid_ok L (g_ClubID g) then None
          else
            (case ParsePublicKey (g_RootSignPub g) of
               None \<Rightarrow> None
             | Some pub \<Rightarrow>
                 if \<not> age_recipient L (g_RootAgeRecipient g) then None
                 else if \<not> wire_verify L pub raw sig then None
                 else Some (g\<lparr>g_rootPub := pub\<rparr>)))"

definition RootPub :: "genesis \<Rightarrow> bytes" where
  "RootPub g = g_rootPub g"

definition Matches :: "genesis \<Rightarrow> string \<Rightarrow> string \<Rightarrow> bool" where
  "Matches g clubID rootSignPub =
     (if g_ClubID g \<noteq> clubID \<or> g_RootSignPub g \<noteq> rootSignPub then False else True)"

text \<open>
  Pinning: a club file that is accepted is signed by the key it names, and two accepted club
  files that match the same pinned club id and root key have the same club and the same signing
  key. So once a club is pinned, no other key can take the place of its root key.
\<close>

theorem genesis_pinned:
  assumes "ParseGenesis L raw sig = Some g" and "ParseGenesis L raw' sig' = Some g'"
    and "Matches g club pub" and "Matches g' club pub"
  shows "wire_verify L (RootPub g) raw sig \<and> wire_verify L (RootPub g) raw' sig'
    \<and> RootPub g = RootPub g' \<and> g_ClubID g = g_ClubID g' \<and> ParsePublicKey pub = Some (RootPub g)"
  using assms by (auto simp: ParseGenesis_def Matches_def RootPub_def split: option.splits if_splits)

lemma default_roles_valid:
  "gm_all (\<lambda>i r. CheckDependencies r) (gm_of DefaultRoles)"
  "gm_all (\<lambda>i r. CanWrite (role_perm r ScopeAdmin) = (i = RoleBoard)) (gm_of DefaultRoles)"
  by (simp_all add: DefaultRoles_def gm_of_def gm_all_def gm_entries_def role_ids scope_defs CheckDependencies_def
      perm_defs Requires_def role_perm_def gm_get_def)

subsection \<open>Devices and the list\<close>

definition StatusActive :: string where "StatusActive = ''active''"
definition StatusRevoked :: string where "StatusRevoked = ''revoked''"
definition AuthorRoot :: string where "AuthorRoot = ''root''"
definition aclType :: string where "aclType = ''ocm.acl''"

lemma status_distinct [simp]: "StatusActive \<noteq> StatusRevoked" "StatusRevoked \<noteq> StatusActive"
  by (simp_all add: StatusActive_def StatusRevoked_def)

record cutoff =
  c_Seq :: nat
  c_Hash :: "string option"

definition cutoff_Equal :: "cutoff \<Rightarrow> cutoff \<Rightarrow> bool" where
  "cutoff_Equal c o' =
     (if c_Seq c \<noteq> c_Seq o' \<or> (c_Hash c = None) \<noteq> (c_Hash o' = None) then False
      else c_Hash c = None \<or> the (c_Hash c) = the (c_Hash o'))"

record device =
  d_DeviceID :: string
  d_SignPub :: string
  d_AgeRecipient :: string
  d_Person :: string
  d_DeviceName :: string
  d_Role :: string
  d_Status :: string
  d_AddedIn :: nat
  d_RevokedIn :: nat
  d_Cutoff :: "(scope, cutoff) gomap option"

record acl =
  a_Type :: string
  a_ClubID :: string
  a_Version :: nat
  a_Prev :: "string option"
  a_Author :: string
  a_CreatedHLC :: string
  a_Roles :: "(string, role) gomap option"
  a_Devices :: "device list"
  a_Epochs :: "(scope, nat) gomap option"
  a_ClockEpochs :: "(scope, nat) gomap option"
  a_KeyChecks :: "(scope, string list) gomap option"
  a_MinSchema :: int

definition zero_cutoff :: cutoff where
  "zero_cutoff = \<lparr>c_Seq = 0, c_Hash = None\<rparr>"

definition zero_device :: device where
  "zero_device = \<lparr>d_DeviceID = [], d_SignPub = [], d_AgeRecipient = [], d_Person = [],
     d_DeviceName = [], d_Role = [], d_Status = [], d_AddedIn = 0, d_RevokedIn = 0, d_Cutoff = None\<rparr>"

definition zero_acl :: acl where
  "zero_acl = \<lparr>a_Type = [], a_ClubID = [], a_Version = 0, a_Prev = None, a_Author = [],
     a_CreatedHLC = [], a_Roles = None, a_Devices = [], a_Epochs = None, a_ClockEpochs = None,
     a_KeyChecks = None, a_MinSchema = 0\<rparr>"

definition dec_cutoff :: "cutoff decoder" where
  "dec_cutoff = dec_struct
     [field ''seq'' c_Seq (\<lambda>x r. r\<lparr>c_Seq := x\<rparr>) dec_uint64,
      field ''hash'' c_Hash (\<lambda>x r. r\<lparr>c_Hash := x\<rparr>) (dec_ptr [] dec_string)]"

definition dec_device :: "device decoder" where
  "dec_device = dec_struct
     [field ''device_id'' d_DeviceID (\<lambda>x r. r\<lparr>d_DeviceID := x\<rparr>) dec_string,
      field ''sign_pub'' d_SignPub (\<lambda>x r. r\<lparr>d_SignPub := x\<rparr>) dec_string,
      field ''age_recipient'' d_AgeRecipient (\<lambda>x r. r\<lparr>d_AgeRecipient := x\<rparr>) dec_string,
      field ''person'' d_Person (\<lambda>x r. r\<lparr>d_Person := x\<rparr>) dec_string,
      field ''device_name'' d_DeviceName (\<lambda>x r. r\<lparr>d_DeviceName := x\<rparr>) dec_string,
      field ''role'' d_Role (\<lambda>x r. r\<lparr>d_Role := x\<rparr>) dec_string,
      field ''status'' d_Status (\<lambda>x r. r\<lparr>d_Status := x\<rparr>) dec_string,
      field ''added_in'' d_AddedIn (\<lambda>x r. r\<lparr>d_AddedIn := x\<rparr>) dec_uint64,
      field ''revoked_in'' d_RevokedIn (\<lambda>x r. r\<lparr>d_RevokedIn := x\<rparr>) dec_uint64,
      field ''cutoff'' d_Cutoff (\<lambda>x r. r\<lparr>d_Cutoff := x\<rparr>) (dec_map zero_cutoff dec_cutoff)]"

definition dec_acl :: "acl decoder" where
  "dec_acl = dec_struct
     [field ''type'' a_Type (\<lambda>x r. r\<lparr>a_Type := x\<rparr>) dec_string,
      field ''club_id'' a_ClubID (\<lambda>x r. r\<lparr>a_ClubID := x\<rparr>) dec_string,
      field ''version'' a_Version (\<lambda>x r. r\<lparr>a_Version := x\<rparr>) dec_uint64,
      field ''prev'' a_Prev (\<lambda>x r. r\<lparr>a_Prev := x\<rparr>) (dec_ptr [] dec_string),
      field ''author'' a_Author (\<lambda>x r. r\<lparr>a_Author := x\<rparr>) dec_string,
      field ''created_hlc'' a_CreatedHLC (\<lambda>x r. r\<lparr>a_CreatedHLC := x\<rparr>) dec_string,
      field ''roles'' a_Roles (\<lambda>x r. r\<lparr>a_Roles := x\<rparr>) (dec_map None (dec_map [] dec_string)),
      field ''devices'' a_Devices (\<lambda>x r. r\<lparr>a_Devices := x\<rparr>) (dec_slice zero_device dec_device),
      field ''epochs'' a_Epochs (\<lambda>x r. r\<lparr>a_Epochs := x\<rparr>) (dec_map 0 dec_uint64),
      field ''clock_epochs'' a_ClockEpochs (\<lambda>x r. r\<lparr>a_ClockEpochs := x\<rparr>) (dec_map 0 dec_uint64),
      field ''key_checks'' a_KeyChecks (\<lambda>x r. r\<lparr>a_KeyChecks := x\<rparr>)
        (dec_map [] (dec_slice [] dec_string)),
      field ''min_schema'' a_MinSchema (\<lambda>x r. r\<lparr>a_MinSchema := x\<rparr>) dec_int]"

definition Active :: "device \<Rightarrow> bool" where
  "Active d \<longleftrightarrow> d_Status d = StatusActive"

definition acl_Device :: "acl \<Rightarrow> string \<Rightarrow> device option" where
  "acl_Device a i = find (\<lambda>d. d_DeviceID d = i) (a_Devices a)"

definition acl_role :: "acl \<Rightarrow> string \<Rightarrow> role" where
  "acl_role a r = gm_get None (gm_of (a_Roles a)) r"

definition acl_Perm :: "acl \<Rightarrow> string \<Rightarrow> scope \<Rightarrow> perm" where
  "acl_Perm a deviceID s =
     (case acl_Device a deviceID of
        None \<Rightarrow> []
      | Some d \<Rightarrow> if \<not> Active d then [] else role_perm (acl_role a (d_Role d)) s)"

definition IsAdmin :: "acl \<Rightarrow> string \<Rightarrow> bool" where
  "IsAdmin a deviceID \<longleftrightarrow> CanWrite (acl_Perm a deviceID ScopeAdmin)"

definition Readers :: "acl \<Rightarrow> scope \<Rightarrow> string list" where
  "Readers a s =
     map d_DeviceID (filter (\<lambda>d. Active d \<and> CanRead (role_perm (acl_role a (d_Role d)) s)) (a_Devices a))"

text \<open>
  A deep copy through JSON: the same value, except that an empty cutoff map, which
  \<open>omitempty\<close> leaves out, comes back as nil.
\<close>

definition Clone :: "acl \<Rightarrow> acl" where
  "Clone a = a\<lparr>a_Devices :=
     map (\<lambda>d. d\<lparr>d_Cutoff := if gm_len (gm_of (d_Cutoff d)) = 0 then None else d_Cutoff d\<rparr>) (a_Devices a)\<rparr>"

record version =
  v_ACL :: acl
  v_Raw :: bytes
  v_Sig :: bytes
  v_Sum :: bytes

definition v_Hash :: "version \<Rightarrow> string" where
  "v_Hash v = FormatHash (v_Sum v)"

definition v_Path :: "version \<Rightarrow> string" where
  "v_Path v = ACLPath (a_Version (v_ACL v)) (v_Sum v)"

definition v_Next :: "version \<Rightarrow> string \<Rightarrow> timestamp \<Rightarrow> acl" where
  "v_Next v author created =
     (Clone (v_ACL v))\<lparr>a_Version := u64 (a_Version (v_ACL v) + 1), a_Prev := Some (v_Hash v),
        a_Author := author, a_CreatedHLC := ts_string created\<rparr>"

subsection \<open>Verification of one version\<close>

datatype acl_error = ErrMalformed | ErrWrongClub | ErrBadPrev | ErrNotAuthorized | ErrBadSignature
  | ErrEpochDecreased | ErrKeyChecks | ErrDeviceChanged | ErrScopeDeps | ErrCutoff
  | ErrLostConcurrent | ErrRollback | SlicePanic

text \<open>The cutoffs of a revoked device, the device list with the ids seen so far, the whole list.\<close>

definition cutoff_entry_ok :: "scope \<Rightarrow> cutoff \<Rightarrow> bool" where
  "cutoff_entry_ok s c =
     (if \<not> ValidScope s then False
      else if c_Seq c = 0 \<and> c_Hash c \<noteq> None then False
      else if c_Seq c \<noteq> 0 then
        (case c_Hash c of None \<Rightarrow> False | Some h \<Rightarrow> ParseHash h \<noteq> None)
      else True)"

definition device_format_ok :: "('c) libs_scheme \<Rightarrow> acl \<Rightarrow> device \<Rightarrow> bool" where
  "device_format_ok L a d =
     (case ParsePublicKey (d_SignPub d) of
        None \<Rightarrow> False
      | Some pub \<Rightarrow>
          if DeviceID L pub \<noteq> d_DeviceID d then False
          else if \<not> age_recipient L (d_AgeRecipient d) then False
          else if d_AddedIn d < 1 \<or> a_Version a < d_AddedIn d then False
          else if d_Status d = StatusActive then
            (if d_RevokedIn d \<noteq> 0 \<or> d_Cutoff d \<noteq> None then False
             else map_of (gm_of (a_Roles a)) (d_Role d) \<noteq> None)
          else if d_Status d = StatusRevoked then
            (if d_RevokedIn d < d_AddedIn d \<or> a_Version a < d_RevokedIn d then False
             else gm_all cutoff_entry_ok (gm_of (d_Cutoff d)))
          else False)"

fun devices_format_ok :: "('c) libs_scheme \<Rightarrow> acl \<Rightarrow> string list \<Rightarrow> device list \<Rightarrow> bool" where
  "devices_format_ok L a seen [] = True"
| "devices_format_ok L a seen (d # ds) =
     (if List.member seen (d_DeviceID d) then False
      else if \<not> device_format_ok L a d then False
      else devices_format_ok L a (d_DeviceID d # seen) ds)"

definition role_format_ok :: "string \<Rightarrow> role \<Rightarrow> bool" where
  "role_format_ok i r =
     (if i = [] then False
      else gm_all (\<lambda>s p. if \<not> ValidScope s then False
                         else if p \<noteq> PermRead \<and> p \<noteq> PermReadWrite then False else True) (gm_of r))"

definition checkFormat :: "('c) libs_scheme \<Rightarrow> acl \<Rightarrow> acl_error + unit" where
  "checkFormat L a =
     (if a_Author a \<noteq> AuthorRoot \<and> \<not> ValidDeviceID (a_Author a) then Inl ErrMalformed
      else if hlc_parse (a_CreatedHLC a) = None then Inl ErrMalformed
      else if a_MinSchema a < 1 then Inl ErrMalformed
      else if \<not> gm_all role_format_ok (gm_of (a_Roles a)) then Inl ErrMalformed
      else if gm_len (gm_of (a_Epochs a)) \<noteq> length Scopes then Inl ErrMalformed
      else if \<not> list_all (\<lambda>s. 1 \<le> gm_get 0 (gm_of (a_Epochs a)) s) Scopes then Inl ErrMalformed
      else if gm_len (gm_of (a_ClockEpochs a)) \<noteq> length Scopes then Inl ErrMalformed
      else if \<not> list_all (\<lambda>s. 1 \<le> gm_get 0 (gm_of (a_ClockEpochs a)) s) Scopes then Inl ErrMalformed
      else if \<not> devices_format_ok L a [] (a_Devices a) then Inl ErrMalformed
      else Inr ())"

definition epoch_of :: "acl \<Rightarrow> scope \<Rightarrow> nat" where
  "epoch_of a s = gm_get 0 (gm_of (a_Epochs a)) s"

definition clock_epoch_of :: "acl \<Rightarrow> scope \<Rightarrow> nat" where
  "clock_epoch_of a s = gm_get 0 (gm_of (a_ClockEpochs a)) s"

definition key_checks_of :: "acl \<Rightarrow> scope \<Rightarrow> string list" where
  "key_checks_of a s = gm_get [] (gm_of (a_KeyChecks a)) s"

text \<open>
  One round of the loop of \<open>checkEpochs\<close>, for the scope \<open>s\<close>. The conversion
  \<open>uint64(len(checks))\<close> is exact: the length of a slice is below 2^63.
\<close>

definition checkEpochs_scope :: "acl option \<Rightarrow> acl \<Rightarrow> scope \<Rightarrow> unit \<Rightarrow> acl_error + unit" where
  "checkEpochs_scope prev a s u =
     (if (case prev of None \<Rightarrow> False | Some p \<Rightarrow> epoch_of a s < epoch_of p s) then Inl ErrEpochDecreased
      else if length (key_checks_of a s) \<noteq> epoch_of a s then Inl ErrKeyChecks
      else if \<not> list_all (\<lambda>c. ParseHash c \<noteq> None) (key_checks_of a s) then Inl ErrKeyChecks
      else
        (case prev of
           None \<Rightarrow> Inr ()
         | Some p \<Rightarrow>
             if length (key_checks_of a s) < length (key_checks_of p s) then Inl SlicePanic
             else if take (length (key_checks_of p s)) (key_checks_of a s) \<noteq> key_checks_of p s
               then Inl ErrKeyChecks
             else if clock_epoch_of a s < clock_epoch_of p s then Inl ErrEpochDecreased
             else Inr ()))"

definition checkEpochs :: "acl option \<Rightarrow> acl \<Rightarrow> acl_error + unit" where
  "checkEpochs prev a =
     (case fold_err (checkEpochs_scope prev a) Scopes () of
        Inl e \<Rightarrow> Inl e
      | Inr _ \<Rightarrow>
          if gm_len (gm_of (a_KeyChecks a)) \<noteq> length Scopes then Inl ErrKeyChecks else Inr ())"

text \<open>\<open>maps.EqualFunc(m, n, Cutoff.Equal)\<close>.\<close>

definition cutoffs_Equal :: "(scope, cutoff) gomap option \<Rightarrow> (scope, cutoff) gomap option \<Rightarrow> bool" where
  "cutoffs_Equal m n =
     (if gm_len (gm_of m) \<noteq> gm_len (gm_of n) then False
      else gm_all (\<lambda>s c. case map_of (gm_of n) s of None \<Rightarrow> False | Some c' \<Rightarrow> cutoff_Equal c c') (gm_of m))"

definition checkDevices_old :: "acl \<Rightarrow> acl \<Rightarrow> device \<Rightarrow> unit \<Rightarrow> acl_error + unit" where
  "checkDevices_old prev a old u =
     (case acl_Device a (d_DeviceID old) of
        None \<Rightarrow> Inl ErrDeviceChanged
      | Some d \<Rightarrow>
          if d_SignPub d \<noteq> d_SignPub old \<or> d_AgeRecipient d \<noteq> d_AgeRecipient old \<or> d_AddedIn d \<noteq> d_AddedIn old
            then Inl ErrDeviceChanged
          else if \<not> Active old \<and> Active d then Inl ErrDeviceChanged
          else if \<not> Active old \<and> (d_RevokedIn d \<noteq> d_RevokedIn old \<or> \<not> cutoffs_Equal (d_Cutoff d) (d_Cutoff old))
            then Inl ErrDeviceChanged
          else if Active old \<and> \<not> Active d \<and> d_RevokedIn d \<noteq> a_Version a then Inl ErrDeviceChanged
          else if Active old \<and> \<not> Active d \<and>
              \<not> list_all (\<lambda>s. (map_of (gm_of (d_Cutoff d)) s \<noteq> None) = CanWrite (acl_Perm prev (d_DeviceID old) s)) Scopes
            then Inl ErrCutoff
          else Inr ())"

definition checkDevices :: "acl option \<Rightarrow> acl \<Rightarrow> acl_error + unit" where
  "checkDevices prev a =
     (case prev of
        None \<Rightarrow> if list_all (\<lambda>d. \<not> (d_AddedIn d \<noteq> 1 \<or> \<not> Active d)) (a_Devices a) then Inr () else Inl ErrDeviceChanged
      | Some p \<Rightarrow>
          (case fold_err (checkDevices_old p a) (a_Devices p) () of
             Inl e \<Rightarrow> Inl e
           | Inr _ \<Rightarrow>
               if list_all (\<lambda>d. \<not> (acl_Device p (d_DeviceID d) = None \<and> (d_AddedIn d \<noteq> a_Version a \<or> \<not> Active d)))
                    (a_Devices a)
               then Inr () else Inl ErrDeviceChanged))"

text \<open>Rules 1 and 2, then the signing key of rule 3.\<close>

definition check_link :: "version option \<Rightarrow> acl \<Rightarrow> acl_error + unit" where
  "check_link prev a =
     (case prev of
        None \<Rightarrow>
          if a_Version a \<noteq> 1 \<or> a_Prev a \<noteq> None then Inl ErrBadPrev
          else if a_Author a \<noteq> AuthorRoot then Inl ErrNotAuthorized
          else Inr ()
      | Some p \<Rightarrow>
          if a_Version a \<noteq> u64 (a_Version (v_ACL p) + 1) then Inl ErrBadPrev
          else if a_Prev a = None \<or> the (a_Prev a) \<noteq> v_Hash p then Inl ErrBadPrev
          else Inr ())"

definition signer_of :: "genesis \<Rightarrow> version option \<Rightarrow> acl \<Rightarrow> acl_error + bytes" where
  "signer_of g prev a =
     (if a_Author a = AuthorRoot then Inr (RootPub g)
      else
        (case prev of
           None \<Rightarrow> Inl ErrNotAuthorized
         | Some p \<Rightarrow>
             if \<not> IsAdmin (v_ACL p) (a_Author a) then Inl ErrNotAuthorized
             else
               (case ParsePublicKey (d_SignPub (the (acl_Device (v_ACL p) (a_Author a)))) of
                  None \<Rightarrow> Inl ErrMalformed
                | Some pub \<Rightarrow> Inr pub)))"

definition Verify :: "('c) libs_scheme \<Rightarrow> genesis \<Rightarrow> version option \<Rightarrow> bytes \<Rightarrow> bytes \<Rightarrow> acl_error + version" where
  "Verify L g prev raw sig =
     (case DecodeStrict (json_text L) dec_acl zero_acl raw of
        None \<Rightarrow> Inl ErrMalformed
      | Some a \<Rightarrow>
          if a_Type a \<noteq> aclType then Inl ErrMalformed
          else if a_ClubID a \<noteq> g_ClubID g then Inl ErrWrongClub
          else
            (case check_link prev a of Inl e \<Rightarrow> Inl e | Inr _ \<Rightarrow>
            (case signer_of g prev a of Inl e \<Rightarrow> Inl e | Inr signer \<Rightarrow>
              if \<not> wire_verify L signer raw sig then Inl ErrBadSignature
              else
                (case checkFormat L a of Inl e \<Rightarrow> Inl e | Inr _ \<Rightarrow>
                (case checkEpochs (map_option v_ACL prev) a of Inl e \<Rightarrow> Inl e | Inr _ \<Rightarrow>
                (case checkDevices (map_option v_ACL prev) a of Inl e \<Rightarrow> Inl e | Inr _ \<Rightarrow>
                  if \<not> gm_all (\<lambda>i r. CheckDependencies r) (gm_of (a_Roles a)) then Inl ErrScopeDeps
                  else Inr \<lparr>v_ACL = a, v_Raw = raw, v_Sig = sig, v_Sum = sha256 L raw\<rparr>)))))) "

subsection \<open>What an accepted version satisfies\<close>

lemma Verify_Inr:
  "Verify L g prev raw sig = Inr v \<longleftrightarrow>
     (\<exists>a signer. DecodeStrict (json_text L) dec_acl zero_acl raw = Some a
        \<and> a_Type a = aclType \<and> a_ClubID a = g_ClubID g
        \<and> check_link prev a = Inr () \<and> signer_of g prev a = Inr signer \<and> wire_verify L signer raw sig
        \<and> checkFormat L a = Inr () \<and> checkEpochs (map_option v_ACL prev) a = Inr ()
        \<and> checkDevices (map_option v_ACL prev) a = Inr ()
        \<and> gm_all (\<lambda>i r. CheckDependencies r) (gm_of (a_Roles a))
        \<and> v = \<lparr>v_ACL = a, v_Raw = raw, v_Sig = sig, v_Sum = sha256 L raw\<rparr>)"
  unfolding Verify_def by (auto split: option.splits sum.splits if_splits)

lemma Verify_facts:
  assumes "Verify L g prev raw sig = Inr v"
  shows "checkFormat L (v_ACL v) = Inr ()" "checkEpochs (map_option v_ACL prev) (v_ACL v) = Inr ()"
    "checkDevices (map_option v_ACL prev) (v_ACL v) = Inr ()"
    "gm_all (\<lambda>i r. CheckDependencies r) (gm_of (a_Roles (v_ACL v)))" "check_link prev (v_ACL v) = Inr ()"
    "a_Type (v_ACL v) = aclType" "a_ClubID (v_ACL v) = g_ClubID g"
  using assms by (auto simp: Verify_Inr)

lemma acl_Device_Some: "acl_Device a i = Some d \<Longrightarrow> d \<in> set (a_Devices a) \<and> d_DeviceID d = i"
  by (auto simp: acl_Device_def find_Some_iff)

lemma acl_Device_None: "acl_Device a i = None \<longleftrightarrow> i \<notin> d_DeviceID ` set (a_Devices a)"
  by (auto simp: acl_Device_def find_None_iff)

lemma IsAdmin_Device: "IsAdmin a i \<Longrightarrow> \<exists>d. acl_Device a i = Some d \<and> Active d"
  by (auto simp: IsAdmin_def acl_Perm_def CanWrite_def PermReadWrite_def split: option.splits if_splits)

lemma devices_format_ok_iff:
  "devices_format_ok L a seen ds \<longleftrightarrow>
     list_all (device_format_ok L a) ds \<and> distinct (map d_DeviceID ds)
     \<and> set (map d_DeviceID ds) \<inter> set seen = {}"
  by (induction ds arbitrary: seen) auto

lemma checkFormat_Inr:
  "checkFormat L a = Inr () \<longleftrightarrow>
     (a_Author a = AuthorRoot \<or> ValidDeviceID (a_Author a)) \<and> hlc_parse (a_CreatedHLC a) \<noteq> None
     \<and> 1 \<le> a_MinSchema a \<and> gm_all role_format_ok (gm_of (a_Roles a))
     \<and> gm_len (gm_of (a_Epochs a)) = length Scopes \<and> (\<forall>s \<in> set Scopes. 1 \<le> epoch_of a s)
     \<and> gm_len (gm_of (a_ClockEpochs a)) = length Scopes \<and> (\<forall>s \<in> set Scopes. 1 \<le> clock_epoch_of a s)
     \<and> list_all (device_format_ok L a) (a_Devices a) \<and> distinct (map d_DeviceID (a_Devices a))"
  by (auto simp: checkFormat_def devices_format_ok_iff list_all_iff epoch_of_def clock_epoch_of_def
      split: if_splits)

lemma Device_of_member:
  assumes "distinct (map d_DeviceID (a_Devices a))" "d \<in> set (a_Devices a)"
  shows "acl_Device a (d_DeviceID d) = Some d"
proof -
  obtain d' where "acl_Device a (d_DeviceID d) = Some d'"
    using assms(2) by (cases "acl_Device a (d_DeviceID d)") (auto simp: acl_Device_None)
  with assms show ?thesis by (metis acl_Device_Some eq_key_imp_eq_value distinct_map inj_onD)
qed

lemma checkEpochs_scope_Inr:
  "checkEpochs_scope prev a s () = Inr () \<longleftrightarrow>
     length (key_checks_of a s) = epoch_of a s \<and> list_all (\<lambda>c. ParseHash c \<noteq> None) (key_checks_of a s)
     \<and> (\<forall>p. prev = Some p \<longrightarrow> epoch_of p s \<le> epoch_of a s \<and> clock_epoch_of p s \<le> clock_epoch_of a s
          \<and> length (key_checks_of p s) \<le> length (key_checks_of a s)
          \<and> take (length (key_checks_of p s)) (key_checks_of a s) = key_checks_of p s)"
  by (auto simp: checkEpochs_scope_def not_less split: option.splits)

lemma checkEpochs_Inr:
  "checkEpochs prev a = Inr () \<longleftrightarrow>
     (\<forall>s \<in> set Scopes. checkEpochs_scope prev a s () = Inr ())
     \<and> gm_len (gm_of (a_KeyChecks a)) = length Scopes"
  unfolding checkEpochs_def fold_err_unit [symmetric] by (auto split: sum.splits)

lemma checkDevices_old_Inr:
  "checkDevices_old p a old () = Inr () \<longleftrightarrow>
     (\<exists>d. acl_Device a (d_DeviceID old) = Some d \<and> d_SignPub d = d_SignPub old
        \<and> d_AgeRecipient d = d_AgeRecipient old \<and> d_AddedIn d = d_AddedIn old
        \<and> (if Active old
           then Active d \<or> (d_RevokedIn d = a_Version a
               \<and> (\<forall>s \<in> set Scopes. (map_of (gm_of (d_Cutoff d)) s \<noteq> None) = CanWrite (acl_Perm p (d_DeviceID old) s)))
           else \<not> Active d \<and> d_RevokedIn d = d_RevokedIn old \<and> cutoffs_Equal (d_Cutoff d) (d_Cutoff old)))"
  by (auto simp: checkDevices_old_def list_all_iff split: option.splits if_splits)

lemma checkDevices_Inr:
  "checkDevices (Some p) a = Inr () \<longleftrightarrow>
     (\<forall>old \<in> set (a_Devices p). checkDevices_old p a old () = Inr ())
     \<and> (\<forall>d \<in> set (a_Devices a). acl_Device p (d_DeviceID d) = None \<longrightarrow> d_AddedIn d = a_Version a \<and> Active d)"
  unfolding checkDevices_def fold_err_unit [symmetric] by (auto simp: list_all_iff split: sum.splits if_splits)

subsection \<open>No panic\<close>

lemma no_slice_panic:
  "check_link prev a \<noteq> Inl SlicePanic" "signer_of g prev a \<noteq> Inl SlicePanic"
  "checkFormat L a \<noteq> Inl SlicePanic" "checkDevices_old p a old u \<noteq> Inl SlicePanic"
  by (auto simp: check_link_def signer_of_def checkFormat_def checkDevices_old_def split: option.splits)

lemma checkDevices_no_panic: "checkDevices prev a \<noteq> Inl SlicePanic"
  using fold_err_Inl [of "checkDevices_old p a" "a_Devices p" "()" SlicePanic for p]
  by (auto simp: checkDevices_def no_slice_panic split: option.splits sum.splits)

lemma checkEpochs_no_panic:
  assumes "\<And>p. prev = Some p \<Longrightarrow> \<forall>s \<in> set Scopes. length (key_checks_of p s) = epoch_of p s"
  shows "checkEpochs prev a \<noteq> Inl SlicePanic"
proof -
  have "checkEpochs_scope prev a s u \<noteq> Inl SlicePanic" if "s \<in> set Scopes" for s u
    using assms that by (auto simp: checkEpochs_scope_def split: option.splits)
  then show ?thesis
    using fold_err_Inl [of "checkEpochs_scope prev a" Scopes "()" SlicePanic]
    by (auto simp: checkEpochs_def split: sum.splits)
qed

lemma Verify_key_checks:
  "Verify L g prev raw sig = Inr v \<Longrightarrow> s \<in> set Scopes \<Longrightarrow> length (key_checks_of (v_ACL v) s) = epoch_of (v_ACL v) s"
  by (auto simp: Verify_Inr checkEpochs_Inr checkEpochs_scope_Inr)

text \<open>
  Verifying against a previous version that was itself accepted never slices beyond the end
  of the key checks, and the lookup of the author's key never dereferences a missing device.
\<close>

theorem Verify_no_panic:
  assumes "prev = None \<or> (\<exists>pp raw' sig' p. prev = Some p \<and> Verify L g pp raw' sig' = Inr p)"
  shows "Verify L g prev raw sig \<noteq> Inl SlicePanic
    \<and> (case prev of None \<Rightarrow> True | Some p \<Rightarrow> if IsAdmin (v_ACL p) i then acl_Device (v_ACL p) i \<noteq> None else True)"
proof -
  have "checkEpochs (map_option v_ACL prev) a \<noteq> Inl SlicePanic" for a
    using assms Verify_key_checks by (intro checkEpochs_no_panic) fastforce
  then have "Verify L g prev raw sig \<noteq> Inl SlicePanic"
    by (auto simp: Verify_def no_slice_panic checkDevices_no_panic split: option.splits sum.splits)
  then show ?thesis by (auto dest: IsAdmin_Device split: option.splits)
qed

subsection \<open>Authority\<close>

text \<open>
  C32. An accepted version is signed by the root key, or by the key of a device that was an active
  administrator in the previous version; it names that previous version by number and by hash. Version 1 is always signed by the root key.
\<close>

theorem Verify_authority:
  assumes "Verify L g prev raw sig = Inr v"
  shows "(a_Author (v_ACL v) = AuthorRoot \<and> wire_verify L (RootPub g) raw sig
          \<or> (\<exists>p d pub. prev = Some p \<and> acl_Device (v_ACL p) (a_Author (v_ACL v)) = Some d \<and> Active d
              \<and> CanWrite (role_perm (acl_role (v_ACL p) (d_Role d)) ScopeAdmin)
              \<and> ParsePublicKey (d_SignPub d) = Some pub \<and> wire_verify L pub raw sig))
    \<and> (case prev of
         None \<Rightarrow> a_Version (v_ACL v) = 1 \<and> a_Prev (v_ACL v) = None \<and> a_Author (v_ACL v) = AuthorRoot
       | Some p \<Rightarrow> a_Version (v_ACL v) = u64 (a_Version (v_ACL p) + 1) \<and> a_Prev (v_ACL v) = Some (FormatHash (v_Sum p)))
    \<and> v_Raw v = raw \<and> v_Sig v = sig \<and> v_Sum v = sha256 L raw \<and> a_ClubID (v_ACL v) = g_ClubID g"
proof -
  obtain signer where link: "check_link prev (v_ACL v) = Inr ()"
    and signer: "signer_of g prev (v_ACL v) = Inr signer" "wire_verify L signer raw sig"
    and rest: "v_Raw v = raw" "v_Sig v = sig" "v_Sum v = sha256 L raw" "a_ClubID (v_ACL v) = g_ClubID g"
    using assms by (auto simp: Verify_Inr)
  have "a_Author (v_ACL v) = AuthorRoot \<and> wire_verify L (RootPub g) raw sig
          \<or> (\<exists>p d pub. prev = Some p \<and> acl_Device (v_ACL p) (a_Author (v_ACL v)) = Some d \<and> Active d
              \<and> CanWrite (role_perm (acl_role (v_ACL p) (d_Role d)) ScopeAdmin)
              \<and> ParsePublicKey (d_SignPub d) = Some pub \<and> wire_verify L pub raw sig)"
    using signer by (auto simp: signer_of_def IsAdmin_def acl_Perm_def CanWrite_def PermReadWrite_def
        split: if_splits option.splits)
  moreover have "case prev of
         None \<Rightarrow> a_Version (v_ACL v) = 1 \<and> a_Prev (v_ACL v) = None \<and> a_Author (v_ACL v) = AuthorRoot
       | Some p \<Rightarrow> a_Version (v_ACL v) = u64 (a_Version (v_ACL p) + 1) \<and> a_Prev (v_ACL v) = Some (FormatHash (v_Sum p))"
    using link by (auto simp: check_link_def v_Hash_def split: option.splits if_splits)
  ultimately show ?thesis using rest by blast
qed

subsection \<open>Histories\<close>

lemma cutoff_Equal_iff: "cutoff_Equal c c' \<longleftrightarrow> c = c'"
  by (cases c; cases c') (auto simp: cutoff_Equal_def)

lemma cutoffs_Equal_iff: "cutoffs_Equal m n \<longleftrightarrow> map_of (gm_of m) = map_of (gm_of n)"
proof
  assume e: "cutoffs_Equal m n"
  then have sub: "map_of (gm_of m) s = Some c \<Longrightarrow> map_of (gm_of n) s = Some c" for s c
    by (auto simp: cutoffs_Equal_def gm_all_iff cutoff_Equal_iff split: if_splits option.splits)
  have "card (dom (map_of (gm_of m))) = card (dom (map_of (gm_of n)))"
    using e by (auto simp: cutoffs_Equal_def gm_len_card split: if_splits)
  moreover have "dom (map_of (gm_of m)) \<subseteq> dom (map_of (gm_of n))" using sub by auto
  ultimately have "dom (map_of (gm_of m)) = dom (map_of (gm_of n))"
    by (simp add: card_subset_eq finite_dom_map_of)
  with sub show "map_of (gm_of m) = map_of (gm_of n)"
    by (intro ext) (metis domIff option.exhaust)
next
  assume "map_of (gm_of m) = map_of (gm_of n)"
  then show "cutoffs_Equal m n"
    by (auto simp: cutoffs_Equal_def gm_all_iff cutoff_Equal_iff gm_len_card)
qed

text \<open>A sequence of versions, each accepted after the one before it.\<close>

fun verified_from :: "('c) libs_scheme \<Rightarrow> genesis \<Rightarrow> version option \<Rightarrow> version list \<Rightarrow> bool" where
  "verified_from L g prev [] = True"
| "verified_from L g prev (v # vs) =
     (Verify L g prev (v_Raw v) (v_Sig v) = Inr v \<and> verified_from L g (Some v) vs)"

lemma verified_from_append:
  "verified_from L g prev (us @ vs) \<longleftrightarrow>
     verified_from L g prev us \<and> verified_from L g (if us = [] then prev else Some (List.last us)) vs"
  by (induction us arbitrary: prev) auto

lemma verified_from_related:
  assumes step: "\<And>p v. Verify L g (Some p) (v_Raw v) (v_Sig v) = Inr v \<Longrightarrow> R p v"
    and refl: "\<And>p. R p p" and trans: "\<And>a b c. R a b \<Longrightarrow> R b c \<Longrightarrow> R a c"
    and chain: "verified_from L g (Some p) vs" and v: "v \<in> set vs"
  shows "R p v"
  using chain v
proof (induction vs arbitrary: p)
  case (Cons w ws)
  then have "R p w" using step by simp
  with Cons trans refl show ?case by auto
qed simp

text \<open>The device keeps its identity, and a revocation stays as it is.\<close>

definition device_kept :: "string \<Rightarrow> version \<Rightarrow> version \<Rightarrow> bool" where
  "device_kept i u w \<longleftrightarrow>
     (case acl_Device (v_ACL u) i of
        None \<Rightarrow> True
      | Some d \<Rightarrow>
          (case acl_Device (v_ACL w) i of
             None \<Rightarrow> False
           | Some d' \<Rightarrow> d_SignPub d' = d_SignPub d \<and> d_AgeRecipient d' = d_AgeRecipient d
               \<and> d_AddedIn d' = d_AddedIn d
               \<and> (if Active d then True
                  else \<not> Active d' \<and> d_RevokedIn d' = d_RevokedIn d
                     \<and> map_of (gm_of (d_Cutoff d')) = map_of (gm_of (d_Cutoff d)))))"

lemma device_kept_trans: "device_kept i a b \<Longrightarrow> device_kept i b c \<Longrightarrow> device_kept i a c"
  by (auto simp: device_kept_def split: option.splits if_splits)

lemma device_kept_step:
  assumes "Verify L g (Some p) raw sig = Inr v"
  shows "device_kept i p v"
proof (cases "acl_Device (v_ACL p) i")
  case (Some d)
  with assms have "checkDevices_old (v_ACL p) (v_ACL v) d () = Inr ()"
    by (auto simp: Verify_Inr checkDevices_Inr dest: acl_Device_Some)
  moreover have "d_DeviceID d = i" using Some by (auto dest: acl_Device_Some)
  ultimately show ?thesis
    by (auto simp: device_kept_def checkDevices_old_Inr Some cutoffs_Equal_iff)
qed (simp add: device_kept_def)

text \<open>
  C33. In every accepted history a device of one version is in every later version, with the same
  keys and the same \<open>added_in\<close>; once revoked it stays revoked, with the same \<open>revoked_in\<close>
  and the same cutoffs.
\<close>

theorem devices_never_removed:
  assumes "verified_from L g prev (u # vs)" and "w \<in> set (u # vs)"
  shows "device_kept i u w"
proof -
  have refl: "device_kept i a a" for a by (auto simp: device_kept_def split: option.splits)
  have "verified_from L g (Some u) vs" using assms(1) by simp
  then have "w \<in> set vs \<Longrightarrow> device_kept i u w"
    by (rule verified_from_related [of L g "device_kept i", rotated 3])
       (auto intro: device_kept_step refl device_kept_trans)
  with assms(2) refl show ?thesis by auto
qed

definition epochs_kept :: "version \<Rightarrow> version \<Rightarrow> bool" where
  "epochs_kept u w \<longleftrightarrow>
     list_all (\<lambda>s. epoch_of (v_ACL u) s \<le> epoch_of (v_ACL w) s
        \<and> clock_epoch_of (v_ACL u) s \<le> clock_epoch_of (v_ACL w) s
        \<and> take (length (key_checks_of (v_ACL u) s)) (key_checks_of (v_ACL w) s) = key_checks_of (v_ACL u) s) Scopes"

lemma take_prefix_trans:
  "take (length xs) ys = xs \<Longrightarrow> take (length ys) zs = ys \<Longrightarrow> take (length xs) zs = xs"
  by (metis min.absorb1 nle_le take_all take_take)

lemma epochs_kept_step: "Verify L g (Some p) raw sig = Inr v \<Longrightarrow> epochs_kept p v"
  by (auto simp: Verify_Inr checkEpochs_Inr checkEpochs_scope_Inr epochs_kept_def list_all_iff)

text \<open>
  C34. In every accepted history the epochs and clock epochs of a scope never decrease, the
  published key checks are only appended to, and there is one for every epoch, which starts at 1.
\<close>

theorem epochs_only_grow:
  assumes "verified_from L g prev (u # vs)" and "w \<in> set (u # vs)"
  shows "epochs_kept u w \<and>
    list_all (\<lambda>s. 1 \<le> epoch_of (v_ACL w) s \<and> length (key_checks_of (v_ACL w) s) = epoch_of (v_ACL w) s) Scopes"
proof -
  have refl: "epochs_kept a a" for a by (simp add: epochs_kept_def list_all_iff)
  have trans: "epochs_kept a b \<Longrightarrow> epochs_kept b c \<Longrightarrow> epochs_kept a c" for a b c
    unfolding epochs_kept_def list_all_iff by (meson order_trans take_prefix_trans)
  have "verified_from L g (Some u) vs" using assms(1) by simp
  then have "w \<in> set vs \<Longrightarrow> epochs_kept u w"
    by (rule verified_from_related [of L g epochs_kept, rotated 3])
       (auto intro: epochs_kept_step refl trans)
  moreover obtain p where "Verify L g p (v_Raw w) (v_Sig w) = Inr w"
    using assms by (metis split_list verified_from.simps(2) verified_from_append)
  then have "list_all (\<lambda>s. 1 \<le> epoch_of (v_ACL w) s \<and> length (key_checks_of (v_ACL w) s) = epoch_of (v_ACL w) s) Scopes"
    using Verify_facts(1,2) [of L g p "v_Raw w" "v_Sig w" w]
    by (auto simp: checkFormat_Inr checkEpochs_Inr checkEpochs_scope_Inr list_all_iff)
  ultimately show ?thesis using assms(2) refl by auto
qed

subsection \<open>Revocation and roles\<close>

lemma cutoff_entry_ok_D: "cutoff_entry_ok s c \<Longrightarrow> s \<in> set Scopes \<and> (c_Seq c = 0) = (c_Hash c = None)"
  by (auto simp: cutoff_entry_ok_def ValidScope_iff split: if_splits option.splits)

text \<open>
  A device that was active and is revoked by an accepted version carries that version's number
  and exactly one cutoff for each scope it could write immediately before, no cutoff for any
  other scope, and a hash in a cutoff exactly if its position is not 0.
\<close>

theorem revocation_cutoffs:
  assumes "Verify L g (Some p) raw sig = Inr v"
    and "acl_Device (v_ACL p) i = Some old" "Active old"
    and "acl_Device (v_ACL v) i = Some d" "\<not> Active d"
  shows "d_RevokedIn d = a_Version (v_ACL v)
    \<and> dom (map_of (gm_of (d_Cutoff d))) = {s \<in> set Scopes. CanWrite (acl_Perm (v_ACL p) i s)}
    \<and> gm_all (\<lambda>s c. (c_Seq c = 0) = (c_Hash c = None)) (gm_of (d_Cutoff d))"
proof -
  have ids: "d_DeviceID old = i" "old \<in> set (a_Devices (v_ACL p))" "d \<in> set (a_Devices (v_ACL v))"
    using assms(2,4) by (auto dest: acl_Device_Some)
  have "checkDevices_old (v_ACL p) (v_ACL v) old () = Inr ()"
    using Verify_facts(3) [OF assms(1)] ids by (simp add: checkDevices_Inr)
  then have old: "d_RevokedIn d = a_Version (v_ACL v)"
      "\<forall>s \<in> set Scopes. (map_of (gm_of (d_Cutoff d)) s \<noteq> None) = CanWrite (acl_Perm (v_ACL p) i s)"
    using assms ids by (auto simp: checkDevices_old_Inr)
  have "device_format_ok L (v_ACL v) d"
    using Verify_facts(1) [OF assms(1)] ids by (simp add: checkFormat_Inr list_all_iff)
  with assms(5) have "gm_all cutoff_entry_ok (gm_of (d_Cutoff d))"
    by (auto simp: device_format_ok_def Active_def split: option.splits if_splits)
  then have entries: "\<And>s c. map_of (gm_of (d_Cutoff d)) s = Some c \<Longrightarrow>
      s \<in> set Scopes \<and> (c_Seq c = 0) = (c_Hash c = None)"
    unfolding gm_all_iff by (blast dest: cutoff_entry_ok_D)
  have "dom (map_of (gm_of (d_Cutoff d))) = {s \<in> set Scopes. CanWrite (acl_Perm (v_ACL p) i s)}"
    using old(2) entries by auto
  with old(1) entries show ?thesis by (simp add: gm_all_iff)
qed

lemma acl_Perm_role:
  assumes "acl_Perm a i s \<noteq> []"
  shows "\<exists>d r. acl_Device a i = Some d \<and> Active d \<and> map_of (gm_of (a_Roles a)) (d_Role d) = Some r
    \<and> (\<forall>s. acl_Perm a i s = role_perm r s)"
proof -
  obtain d where d: "acl_Device a i = Some d" "Active d" and ne: "role_perm (acl_role a (d_Role d)) s \<noteq> []"
    using assms by (auto simp: acl_Perm_def split: option.splits if_splits)
  from ne obtain r where "map_of (gm_of (a_Roles a)) (d_Role d) = Some r"
    by (auto simp: acl_role_def gm_get_def role_perm_def gm_of_def [of None] split: option.splits)
  with d show ?thesis by (auto simp: acl_Perm_def acl_role_def gm_get_def)
qed

lemma role_entry_D:
  "(if \<not> ValidScope s then False else if p \<noteq> PermRead \<and> p \<noteq> PermReadWrite then False else True)
   \<longleftrightarrow> s \<in> set Scopes \<and> CanRead p"
  by (auto simp: ValidScope_iff CanRead_def)

text \<open>
  In an accepted version, whoever can read a scope can read every scope it requires
  (\<open>members.core\<close> for the contact, bank, finance and inventory scopes), and permissions are
  only ever none, read or read and write on known scopes.
\<close>

theorem scope_dependencies_hold:
  assumes "Verify L g prev raw sig = Inr v" and "acl_Perm (v_ACL v) i s \<noteq> []"
  shows "CanRead (acl_Perm (v_ACL v) i s) \<and> s \<in> set Scopes
    \<and> list_all (\<lambda>need. CanRead (acl_Perm (v_ACL v) i need)) (gm_get [] Requires s)"
proof -
  let ?a = "v_ACL v"
  obtain d :: device and r where r: "map_of (gm_of (a_Roles ?a)) (d_Role d) = Some r" "\<forall>s. acl_Perm ?a i s = role_perm r s"
    using acl_Perm_role [OF assms(2)] by blast
  then obtain p where p: "map_of (gm_of r) s = Some p" "acl_Perm ?a i s = p"
    using assms(2) by (auto simp: role_perm_def gm_get_def split: option.splits)
  have "role_format_ok (d_Role d) r" "CheckDependencies r"
    using Verify_facts(1,4) [OF assms(1)] r(1) by (auto simp: checkFormat_Inr gm_all_iff)
  then have "CanRead p \<and> s \<in> set Scopes"
      "CanRead p \<Longrightarrow> list_all (\<lambda>need. CanRead (role_perm r need)) (gm_get [] Requires s)"
    using p(1) role_entry_D by (auto simp: role_format_ok_def CheckDependencies_def gm_all_iff split: if_splits)
  with p(2) r(2) show ?thesis by simp
qed

subsection \<open>An honest successor is accepted\<close>

definition clone_device :: "device \<Rightarrow> device" where
  "clone_device d = d\<lparr>d_Cutoff := if gm_len (gm_of (d_Cutoff d)) = 0 then None else d_Cutoff d\<rparr>"

lemma gm_of_None [simp]: "gm_of None = []"
  by (simp add: gm_of_def)

lemma gm_len_0: "gm_len m = 0 \<longleftrightarrow> map_of m = Map.empty"
  by (simp add: gm_len_card finite_dom_map_of)

lemma clone_device_simps [simp]:
  "d_DeviceID (clone_device d) = d_DeviceID d" "d_SignPub (clone_device d) = d_SignPub d"
  "d_AgeRecipient (clone_device d) = d_AgeRecipient d" "d_Role (clone_device d) = d_Role d"
  "d_Status (clone_device d) = d_Status d" "d_AddedIn (clone_device d) = d_AddedIn d"
  "d_RevokedIn (clone_device d) = d_RevokedIn d" "Active (clone_device d) = Active d"
  "map_of (gm_of (d_Cutoff (clone_device d))) = map_of (gm_of (d_Cutoff d))"
  by (simp_all add: clone_device_def Active_def gm_len_0)

lemma clone_device_Cutoff_None: "d_Cutoff d = None \<Longrightarrow> d_Cutoff (clone_device d) = None"
  by (simp add: clone_device_def)

lemma v_Next_simps [simp]:
  "a_Type (v_Next v i t) = a_Type (v_ACL v)" "a_ClubID (v_Next v i t) = a_ClubID (v_ACL v)"
  "a_Version (v_Next v i t) = u64 (a_Version (v_ACL v) + 1)" "a_Prev (v_Next v i t) = Some (v_Hash v)"
  "a_Author (v_Next v i t) = i" "a_CreatedHLC (v_Next v i t) = ts_string t"
  "a_Roles (v_Next v i t) = a_Roles (v_ACL v)" "a_Epochs (v_Next v i t) = a_Epochs (v_ACL v)"
  "a_ClockEpochs (v_Next v i t) = a_ClockEpochs (v_ACL v)" "a_MinSchema (v_Next v i t) = a_MinSchema (v_ACL v)"
  "a_KeyChecks (v_Next v i t) = a_KeyChecks (v_ACL v)"
  "a_Devices (v_Next v i t) = map clone_device (a_Devices (v_ACL v))"
  "epoch_of (v_Next v i t) = epoch_of (v_ACL v)" "clock_epoch_of (v_Next v i t) = clock_epoch_of (v_ACL v)"
  "key_checks_of (v_Next v i t) = key_checks_of (v_ACL v)"
  by (auto simp: v_Next_def Clone_def clone_device_def fun_eq_iff epoch_of_def clock_epoch_of_def key_checks_of_def)

lemma v_Next_Device: "acl_Device (v_Next v i t) x = map_option clone_device (acl_Device (v_ACL v) x)"
proof -
  have "find (\<lambda>d. d_DeviceID d = x) (map clone_device ds) = map_option clone_device (find (\<lambda>d. d_DeviceID d = x) ds)" for ds
    by (induction ds) auto
  then show ?thesis by (simp add: acl_Device_def)
qed

lemma device_format_clone:
  assumes "device_format_ok L a d" and "a_Version a \<le> a_Version b" and "a_Roles b = a_Roles a"
  shows "device_format_ok L b (clone_device d)"
proof -
  have "gm_all P (gm_of (d_Cutoff (clone_device d))) = gm_all P (gm_of (d_Cutoff d))" for P
    by (simp add: gm_all_iff)
  with assms show ?thesis
    by (auto simp: device_format_ok_def clone_device_Cutoff_None split: option.splits if_splits)
qed

lemma device_format_id:
  assumes "crypto_ok L" and "device_format_ok L a d"
  shows "ValidDeviceID (d_DeviceID d)"
proof -
  obtain pub where "DeviceID L pub = d_DeviceID d"
    using assms(2) by (auto simp: device_format_ok_def split: option.splits if_splits)
  moreover have "length (sha256 L pub) = 32" using assms(1) by (simp add: crypto_ok_def)
  ultimately show ?thesis by (metis ValidDeviceID_iff DeviceID_shape)
qed

text \<open>
  Completeness of the rules: the draft that \<open>Next\<close> makes from an accepted version, dated with
  a valid timestamp and signed by a key the rules allow (the root key or an active
  administrator's), is accepted as the next version, up to version \<open>2 ^ 64 - 1\<close>.
\<close>

theorem Next_accepted:
  assumes "crypto_ok L" and "Verify L g prev raw0 sig0 = Inr v" and "a_Version (v_ACL v) + 1 < 2 ^ 64"
    and "signer_of g (Some v) (v_Next v author created) = Inr (ed_public L priv)" and "ts_valid created"
    and "DecodeStrict (json_text L) dec_acl zero_acl raw = Some (v_Next v author created)"
  shows "Verify L g (Some v) raw (wire_sign L priv raw) =
    Inr \<lparr>v_ACL = v_Next v author created, v_Raw = raw, v_Sig = wire_sign L priv raw, v_Sum = sha256 L raw\<rparr>"
proof -
  let ?n = "v_Next v author created"
  note facts = Verify_facts [OF assms(2)]
  have ver: "a_Version ?n = a_Version (v_ACL v) + 1" using assms(3) by (simp add: u64_def)
  have devs: "list_all (device_format_ok L (v_ACL v)) (a_Devices (v_ACL v))" "distinct (map d_DeviceID (a_Devices (v_ACL v)))"
    using facts(1) by (auto simp: checkFormat_Inr)
  have author: "author = AuthorRoot \<or> ValidDeviceID author"
  proof (cases "author = AuthorRoot")
    case False
    then obtain d where "d \<in> set (a_Devices (v_ACL v))" "d_DeviceID d = author"
      using assms(4) by (auto simp: signer_of_def dest!: IsAdmin_Device acl_Device_Some split: if_splits)
    then show ?thesis using devs(1) device_format_id [OF assms(1)] by (auto simp: list_all_iff)
  qed simp
  have "list_all (device_format_ok L ?n) (a_Devices ?n)"
    using devs(1) ver by (auto simp: list_all_iff intro!: device_format_clone)
  then have "checkFormat L ?n = Inr ()"
    using facts(1) author assms(5) devs(2) by (simp add: checkFormat_Inr hlc_parse_string comp_def)
  moreover have "checkEpochs (Some (v_ACL v)) ?n = Inr ()"
    using facts(2) by (simp add: checkEpochs_Inr checkEpochs_scope_Inr)
  moreover have "checkDevices (Some (v_ACL v)) ?n = Inr ()"
    using Device_of_member [OF devs(2)] by (auto simp: checkDevices_Inr checkDevices_old_Inr v_Next_Device cutoffs_Equal_iff)
  moreover have "check_link (Some v) ?n = Inr ()"
    by (simp add: check_link_def)
  moreover have "wire_verify L (ed_public L priv) raw (wire_sign L priv raw)"
    using wire_verify_sign [OF assms(1), of priv raw 0] by simp
  ultimately show ?thesis
    using facts(4,6,7) by (simp add: Verify_def assms(4,6))
qed

end
