(* ===== verification/AclSample.thy ===== *)
theory AclSample
  imports Acl
begin

text \<open>
  A concrete club: the two accepted versions at which the theorems of \<open>Acl\<close> and of the
  theories that use it are applied, and these applications.
\<close>

text \<open>
  Two devices in version 1, the second revoked in version 2: the inputs at which the theorems
  above are applied.
\<close>

definition sample_pub :: "string \<Rightarrow> bytes" where
  "sample_pub k = ed_public toy_crypto k"

definition sample_id :: "string \<Rightarrow> string" where
  "sample_id k = DeviceID toy_crypto (sample_pub k)"

definition sample_device_json :: "string \<Rightarrow> string \<Rightarrow> (string \<times> json) list \<Rightarrow> json" where
  "sample_device_json k r fs = JObj
     ([(''device_id'', JStr (sample_id k)), (''sign_pub'', JStr (EncodeB64 (sample_pub k))),
       (''age_recipient'', JStr ''age1''), (''person'', JStr k), (''role'', JStr r),
       (''added_in'', JNum ''1'')] @ fs)"

definition sample_acl_json :: "string \<Rightarrow> json \<Rightarrow> string \<Rightarrow> json list \<Rightarrow> json" where
  "sample_acl_json ver prev author devices = JObj
     [(''type'', JStr aclType), (''club_id'', JStr ''club''), (''version'', JNum ver), (''prev'', prev),
      (''author'', JStr author), (''created_hlc'', JStr ''0000000000ff-0001''),
      (''roles'', JObj
        [(RoleBoard, JObj [(ScopeMembersCore, JStr ''rw''), (ScopeAdmin, JStr ''rw'')]),
         (RoleTreasurer, JObj [(ScopeMembersCore, JStr ''r''), (ScopeFinance, JStr ''rw'')])]),
      (''devices'', JArr devices),
      (''epochs'', JObj (map (\<lambda>s. (s, JNum ''1'')) Scopes)),
      (''clock_epochs'', JObj (map (\<lambda>s. (s, JNum ''1'')) Scopes)),
      (''key_checks'', JObj (map (\<lambda>s. (s, JArr [JStr (Hash toy_crypto s)])) Scopes)),
      (''min_schema'', JNum ''1'')]"

definition sample_json1 :: json where
  "sample_json1 = sample_acl_json ''1'' JNull AuthorRoot
     [sample_device_json ''anna'' RoleBoard [(''status'', JStr StatusActive)],
      sample_device_json ''bert'' RoleTreasurer [(''status'', JStr StatusActive)]]"

definition sample_json2 :: json where
  "sample_json2 = sample_acl_json ''2'' (JStr (Hash toy_crypto ''one'')) (sample_id ''anna'')
     [sample_device_json ''anna'' RoleBoard [(''status'', JStr StatusActive)],
      sample_device_json ''bert'' RoleTreasurer
        [(''status'', JStr StatusRevoked), (''revoked_in'', JNum ''2''),
         (''cutoff'', JObj [(ScopeFinance, JObj [(''seq'', JNum ''7''), (''hash'', JStr (Hash toy_crypto ''segment''))])])]]"

definition sample_json3 :: json where
  "sample_json3 = sample_acl_json ''2'' (JStr (Hash toy_crypto ''one'')) (sample_id ''anna'')
     [sample_device_json ''anna'' RoleBoard [(''status'', JStr StatusActive)],
      sample_device_json ''bert'' RoleTreasurer [(''status'', JStr StatusActive)]]"

definition sample_genesis_json :: json where
  "sample_genesis_json = JObj
     [(''type'', JStr genesisType), (''protocol'', JNum ''1''), (''club_id'', JStr ''club''),
      (''name'', JStr ''SV''), (''created_at'', JStr ''2024-01-01T00:00:00Z''),
      (''root_sign_pub'', JStr (EncodeB64 (sample_pub ''root''))), (''root_age_recipient'', JStr ''age1'')]"

definition sample_libs :: libs where
  "sample_libs = crypto.extend toy_crypto
     (libs.fields
       (\<lambda>raw. if raw = ''one'' then Some sample_json1 else if raw = ''two'' then Some sample_json2
          else if raw = ''next'' then Some sample_json3
          else if raw = ''club.json'' then Some sample_genesis_json else None)
       (\<lambda>s. s = ''age1'') (\<lambda>s. s \<noteq> []))"

definition sample_genesis :: genesis where
  "sample_genesis = zero_genesis\<lparr>g_ClubID := ''club'', g_rootPub := ed_public toy_crypto ''root''\<rparr>"

definition sample_version :: "bytes \<Rightarrow> string \<Rightarrow> version" where
  "sample_version raw priv =
     \<lparr>v_ACL = the (DecodeStrict (json_text sample_libs) dec_acl zero_acl raw), v_Raw = raw,
      v_Sig = wire_sign toy_crypto priv raw, v_Sum = sha256 toy_crypto raw\<rparr>"

definition sample_v3 :: version where "sample_v3 = sample_version ''next'' ''anna''"
definition sample_v1 :: version where "sample_v1 = sample_version ''one'' ''root''"
definition sample_v2 :: version where "sample_v2 = sample_version ''two'' ''anna''"

lemma sample_libs_simps [simp]:
  "sha256 sample_libs = sha256 toy_crypto" "ed_public sample_libs = ed_public toy_crypto"
  "ed_sign sample_libs = ed_sign toy_crypto" "ed_verify sample_libs = ed_verify toy_crypto"
  "json_text sample_libs ''one'' = Some sample_json1" "json_text sample_libs ''two'' = Some sample_json2"
  "json_text sample_libs ''next'' = Some sample_json3" "json_text sample_libs ''junk'' = None"
  "json_text sample_libs ''club.json'' = Some sample_genesis_json" "uuid_ok sample_libs x = (x \<noteq> [])"
  "age_recipient sample_libs s = (s = ''age1'')"
  by (simp_all add: sample_libs_def crypto.defs libs.defs)

lemma sample_crypto_ok: "crypto_ok sample_libs"
  using toy_crypto_ok by (simp add: crypto_ok_def)

lemma sample_no_dup: "no_dup sample_json1" "no_dup sample_json2" "no_dup sample_json3"
  by (simp_all add: sample_json1_def sample_json2_def sample_json3_def sample_acl_json_def sample_device_json_def Scopes_def scope_defs role_ids)

lemma sample_numbers:
  "parse_uint 10 64 ''1'' = Some 1" "parse_uint 10 64 ''2'' = Some 2" "parse_uint 10 64 ''7'' = Some 7"
  "parse_int64 ''1'' = Some 1"
  by (simp_all add: parse_int64_def parse_uint_def digit_val_def in_range_def is_dec_def)

lemmas decoder_simps = dec_struct_def field_def find_field_def dec_string_def dec_uint64_def dec_map_def
  dec_slice_def dec_ptr_def dec_int_def

definition sample_acl :: "nat \<Rightarrow> string option \<Rightarrow> string \<Rightarrow> device list \<Rightarrow> acl" where
  "sample_acl n p author ds =
     \<lparr>a_Type = aclType, a_ClubID = ''club'', a_Version = n, a_Prev = p, a_Author = author,
      a_CreatedHLC = ''0000000000ff-0001'',
      a_Roles = Some [(RoleBoard, Some [(ScopeMembersCore, ''rw''), (ScopeAdmin, ''rw'')]),
         (RoleTreasurer, Some [(ScopeMembersCore, ''r''), (ScopeFinance, ''rw'')])],
      a_Devices = ds, a_Epochs = Some (map (\<lambda>s. (s, 1)) Scopes), a_ClockEpochs = Some (map (\<lambda>s. (s, 1)) Scopes),
      a_KeyChecks = Some (map (\<lambda>s. (s, [Hash toy_crypto s])) Scopes), a_MinSchema = 1\<rparr>"

definition sample_active :: "string \<Rightarrow> string \<Rightarrow> device" where
  "sample_active k r = \<lparr>d_DeviceID = sample_id k, d_SignPub = EncodeB64 (sample_pub k), d_AgeRecipient = ''age1'', d_Person = k,
      d_DeviceName = [], d_Role = r, d_Status = StatusActive, d_AddedIn = 1, d_RevokedIn = 0, d_Cutoff = None\<rparr>"

definition sample_revoked :: "string \<Rightarrow> string \<Rightarrow> device" where
  "sample_revoked k r = \<lparr>d_DeviceID = sample_id k, d_SignPub = EncodeB64 (sample_pub k), d_AgeRecipient = ''age1'', d_Person = k,
      d_DeviceName = [], d_Role = r, d_Status = StatusRevoked, d_AddedIn = 1, d_RevokedIn = 2,
      d_Cutoff = Some [(ScopeFinance, \<lparr>c_Seq = 7, c_Hash = Some (Hash toy_crypto ''segment'')\<rparr>)]\<rparr>"

lemma sample_dec_device:
  "dec_device zero_device (sample_device_json k r [(''status'', JStr StatusActive)]) = Some (sample_active k r)"
  "dec_device zero_device (sample_device_json k r
        [(''status'', JStr StatusRevoked), (''revoked_in'', JNum ''2''),
         (''cutoff'', JObj [(ScopeFinance, JObj [(''seq'', JNum ''7''), (''hash'', JStr (Hash toy_crypto ''segment''))])])])
   = Some (sample_revoked k r)"
  by (simp_all add: sample_device_json_def dec_device_def decoder_simps sample_numbers zero_device_def
      dec_cutoff_def zero_cutoff_def sample_active_def sample_revoked_def)

lemma sample_dec_acl:
  assumes "parse_uint 10 64 ver = Some n" "dec_ptr [] dec_string None prev = Some p"
    "dec_items zero_device dec_device [] devices = Some ds"
  shows "dec_acl zero_acl (sample_acl_json ver prev author devices) = Some (sample_acl n p author ds)"
  using assms
  by (simp add: sample_acl_def sample_acl_json_def dec_acl_def dec_struct_def field_def find_field_def dec_string_def
      dec_uint64_def dec_map_def dec_slice_def dec_int_def sample_numbers zero_acl_def Scopes_def scope_defs role_ids)

definition sample_acl1 :: acl where
  "sample_acl1 = sample_acl 1 None AuthorRoot [sample_active ''anna'' RoleBoard, sample_active ''bert'' RoleTreasurer]"
definition sample_acl2 :: acl where
  "sample_acl2 = sample_acl 2 (Some (Hash toy_crypto ''one'')) (sample_id ''anna'')
     [sample_active ''anna'' RoleBoard, sample_revoked ''bert'' RoleTreasurer]"

definition sample_acl3 :: acl where
  "sample_acl3 = sample_acl 2 (Some (Hash toy_crypto ''one'')) (sample_id ''anna'')
     [sample_active ''anna'' RoleBoard, sample_active ''bert'' RoleTreasurer]"

lemma sample_dec3: "dec_acl zero_acl sample_json3 = Some sample_acl3"
  unfolding sample_json3_def sample_acl3_def
  by (intro sample_dec_acl) (simp_all add: sample_numbers dec_ptr_def dec_string_def sample_dec_device)

lemma sample_dec1: "dec_acl zero_acl sample_json1 = Some sample_acl1"
  unfolding sample_json1_def sample_acl1_def
  by (intro sample_dec_acl) (simp_all add: sample_numbers dec_ptr_def sample_dec_device)

lemma sample_dec2: "dec_acl zero_acl sample_json2 = Some sample_acl2"
  unfolding sample_json2_def sample_acl2_def
  by (intro sample_dec_acl) (simp_all add: sample_numbers dec_ptr_def dec_string_def sample_dec_device)

lemma sample_decode:
  "DecodeStrict (json_text sample_libs) dec_acl zero_acl ''one'' = Some sample_acl1"
  "DecodeStrict (json_text sample_libs) dec_acl zero_acl ''two'' = Some sample_acl2"
  "DecodeStrict (json_text sample_libs) dec_acl zero_acl ''next'' = Some sample_acl3"
  by (simp_all add: DecodeStrict_Some sample_no_dup sample_dec1 sample_dec2 sample_dec3)

lemma sample_roles: "gm_all role_format_ok (gm_of (a_Roles (sample_acl n p i ds)))"
  "gm_all (\<lambda>i r. CheckDependencies r) (gm_of (a_Roles (sample_acl n p i ds)))"
  by (simp_all add: sample_acl_def gm_of_def gm_all_def gm_entries_def role_format_ok_def role_ids scope_defs
     CheckDependencies_def ValidScope_iff Scopes_def perm_defs Requires_def role_perm_def gm_get_def)

lemma sample_fields [simp]:
  "a_Type (sample_acl n p i ds) = aclType" "a_ClubID (sample_acl n p i ds) = ''club''"
  "a_Version (sample_acl n p i ds) = n" "a_Prev (sample_acl n p i ds) = p"
  "a_Author (sample_acl n p i ds) = i" "a_CreatedHLC (sample_acl n p i ds) = ''0000000000ff-0001''"
  "a_Devices (sample_acl n p i ds) = ds" "a_MinSchema (sample_acl n p i ds) = 1"
  "d_DeviceID (sample_active k r) = sample_id k" "d_DeviceID (sample_revoked k r) = sample_id k"
  "d_SignPub (sample_active k r) = EncodeB64 (sample_pub k)" "d_SignPub (sample_revoked k r) = EncodeB64 (sample_pub k)"
  "d_AgeRecipient (sample_active k r) = ''age1''" "d_AgeRecipient (sample_revoked k r) = ''age1''"
  "Active (sample_active k r)" "\<not> Active (sample_revoked k r)"
  "d_AddedIn (sample_active k r) = 1" "d_AddedIn (sample_revoked k r) = 1"
  "d_Role (sample_active k r) = r" "d_RevokedIn (sample_revoked k r) = 2"
  "d_Cutoff (sample_revoked k r) = Some [(ScopeFinance, \<lparr>c_Seq = 7, c_Hash = Some (Hash toy_crypto ''segment'')\<rparr>)]"
  by (simp_all add: sample_acl_def sample_active_def sample_revoked_def Active_def)

lemma sample_pub_simps [simp]: "length (sample_pub k) = 32" "ParsePublicKey (EncodeB64 (sample_pub k)) = Some (sample_pub k)"
  "ParseHash (Hash toy_crypto x) = Some (sha256 toy_crypto x)"
  using toy_crypto_ok by (simp_all add: sample_pub_def crypto_ok_def ParsePublicKey_Encode Hash_def ParseHash_Format)

lemma sample_ids [simp]: "DeviceID sample_libs (sample_pub k) = sample_id k"
  by (simp add: sample_id_def DeviceID_def)

lemma sample_ids_distinct: "sample_id ''anna'' \<noteq> sample_id ''bert''"
  using toy_crypto_ok unfolding sample_id_def
  by (subst DeviceID_inj) (simp_all add: crypto_ok_def sample_pub_def toy_crypto_def pad_to_def)

lemma sample_ids_valid: "ValidDeviceID (sample_id k)"
  using toy_crypto_ok by (simp add: sample_id_def ValidDeviceID_iff DeviceID_shape crypto_ok_def)

lemma sample_devices_ok:
  "1 \<le> n \<Longrightarrow> r = RoleBoard \<or> r = RoleTreasurer \<Longrightarrow> device_format_ok sample_libs (sample_acl n p i ds) (sample_active k r)"
  "2 \<le> n \<Longrightarrow> device_format_ok sample_libs (sample_acl n p i ds) (sample_revoked k r)"
  by (auto simp: device_format_ok_def sample_active_def sample_revoked_def sample_acl_def gm_of_def role_ids
     gm_all_def gm_entries_def cutoff_entry_ok_def ValidScope_iff Scopes_def)

lemma sample_epochs: "s \<in> set Scopes \<Longrightarrow> epoch_of (sample_acl n p i ds) s = 1"
   "s \<in> set Scopes \<Longrightarrow> clock_epoch_of (sample_acl n p i ds) s = 1"
   "s \<in> set Scopes \<Longrightarrow> key_checks_of (sample_acl n p i ds) s = [Hash toy_crypto s]"
  by (auto simp: epoch_of_def clock_epoch_of_def key_checks_of_def sample_acl_def gm_of_def gm_get_def Scopes_def scope_defs)

lemma sample_lens: "gm_len (gm_of (a_Epochs (sample_acl n p i ds))) = length Scopes"
  "gm_len (gm_of (a_ClockEpochs (sample_acl n p i ds))) = length Scopes"
  "gm_len (gm_of (a_KeyChecks (sample_acl n p i ds))) = length Scopes"
  by (simp_all add: sample_acl_def gm_len_def gm_of_def gm_entries_def Scopes_def scope_defs)

lemma sample_hlc: "hlc_parse ''0000000000ff-0001'' = Some \<lparr>MS = 255, Counter = 1\<rparr>"
proof -
  have e: "ts_string \<lparr>MS = 255, Counter = 1\<rparr> = ''0000000000ff-0001''" by code_simp
  show ?thesis using hlc_parse_string [of "\<lparr>MS = 255, Counter = 1\<rparr>"] by (simp add: e ts_valid_def maxMS_def)
qed

lemma sample_v: "v_ACL sample_v1 = sample_acl1" "v_ACL sample_v2 = sample_acl2" "v_ACL sample_v3 = sample_acl3"
  "v_Raw sample_v1 = ''one''" "v_Raw sample_v2 = ''two''" "v_Raw sample_v3 = ''next''"
  "v_Sum sample_v1 = sha256 toy_crypto ''one''" "v_Sum sample_v2 = sha256 toy_crypto ''two''" "v_Sum sample_v3 = sha256 toy_crypto ''next''"
  "v_Sig sample_v1 = wire_sign toy_crypto ''root'' ''one''" "v_Sig sample_v2 = wire_sign toy_crypto ''anna'' ''two''"
  "v_Sig sample_v3 = wire_sign toy_crypto ''anna'' ''next''"
  by (simp_all add: sample_v1_def sample_v2_def sample_v3_def sample_version_def sample_decode)

lemma sample_verify: "wire_verify sample_libs (ed_public toy_crypto k) m (wire_sign toy_crypto k m)"
  using wire_verify_sign [OF sample_crypto_ok, of k m 0] by (simp add: wire_sign_def)

lemma sample_perm:
  "IsAdmin sample_acl1 (sample_id ''anna'')"
  "s \<in> set Scopes \<Longrightarrow> CanWrite (acl_Perm sample_acl1 (sample_id ''bert'') s) = (s = ScopeFinance)"
  using sample_ids_distinct
  by (auto simp: IsAdmin_def acl_Perm_def acl_Device_def sample_acl1_def acl_role_def role_perm_def
      sample_acl_def gm_get_def gm_of_def role_ids perm_defs scope_defs Scopes_def)

lemma sample_v1_ok: "Verify sample_libs sample_genesis None (v_Raw sample_v1) (v_Sig sample_v1) = Inr sample_v1"
proof -
  have "checkFormat sample_libs sample_acl1 = Inr ()"
    unfolding checkFormat_Inr sample_acl1_def using sample_roles sample_lens sample_epochs sample_ids_distinct
    by (simp add: sample_devices_ok sample_hlc)
  moreover have "checkEpochs None sample_acl1 = Inr ()"
    using sample_lens sample_epochs by (simp add: checkEpochs_Inr checkEpochs_scope_Inr sample_acl1_def)
  moreover have "checkDevices None sample_acl1 = Inr ()"
    by (simp add: checkDevices_def sample_acl1_def)
  moreover have "check_link None sample_acl1 = Inr ()"
    "signer_of sample_genesis None sample_acl1 = Inr (ed_public toy_crypto ''root'')"
    by (simp_all add: check_link_def signer_of_def sample_acl1_def RootPub_def sample_genesis_def)
  moreover have "gm_all (\<lambda>i r. CheckDependencies r) (gm_of (a_Roles sample_acl1))"
    using sample_roles(2) by (simp add: sample_acl1_def)
  ultimately show ?thesis
    using sample_verify
    by (simp add: Verify_def sample_v sample_decode)
       (simp add: sample_acl1_def sample_genesis_def sample_v1_def sample_version_def sample_decode)
qed

lemma sample_signer:
  assumes "a_Author a = sample_id ''anna''"
  shows "signer_of sample_genesis (Some sample_v1) a = Inr (ed_public toy_crypto ''anna'')"
proof -
  have "length (sample_id ''anna'') = 26" using sample_ids_valid by (simp add: ValidDeviceID_iff is_device_id_def)
  then have "sample_id ''anna'' \<noteq> AuthorRoot" by (auto simp: AuthorRoot_def)
  with assms show ?thesis
    using sample_perm(1)
    by (simp add: signer_of_def sample_v, simp add: sample_acl1_def acl_Device_def, simp add: sample_pub_def)
qed

lemma sample_v2_ok: "Verify sample_libs sample_genesis (Some sample_v1) (v_Raw sample_v2) (v_Sig sample_v2) = Inr sample_v2"
proof -
  have "checkFormat sample_libs sample_acl2 = Inr ()"
    unfolding checkFormat_Inr sample_acl2_def using sample_roles sample_lens sample_epochs sample_ids_distinct
    by (simp add: sample_devices_ok sample_hlc sample_ids_valid)
  moreover have "checkEpochs (Some sample_acl1) sample_acl2 = Inr ()"
    using sample_lens sample_epochs by (simp add: checkEpochs_Inr checkEpochs_scope_Inr sample_acl1_def sample_acl2_def)
  moreover have "checkDevices (Some sample_acl1) sample_acl2 = Inr ()"
    using sample_ids_distinct sample_perm(2)
    by (auto simp: checkDevices_Inr checkDevices_old_Inr sample_acl1_def sample_acl2_def acl_Device_def gm_of_def)
  moreover have "check_link (Some sample_v1) sample_acl2 = Inr ()"
    by (simp add: check_link_def sample_v v_Hash_def Hash_def sample_acl1_def sample_acl2_def u64_def)
  moreover have "signer_of sample_genesis (Some sample_v1) sample_acl2 = Inr (ed_public toy_crypto ''anna'')"
    by (rule sample_signer) (simp add: sample_acl2_def)
  moreover have "gm_all (\<lambda>i r. CheckDependencies r) (gm_of (a_Roles sample_acl2))"
    using sample_roles(2) by (simp add: sample_acl2_def)
  ultimately show ?thesis
    using sample_verify
    by (simp add: Verify_def sample_v sample_decode)
       (simp add: sample_acl2_def sample_genesis_def sample_v2_def sample_version_def sample_decode)
qed

lemma sample_v3_ok: "Verify sample_libs sample_genesis (Some sample_v1) (v_Raw sample_v3) (v_Sig sample_v3) = Inr sample_v3"
proof -
  have "checkFormat sample_libs sample_acl3 = Inr ()"
    unfolding checkFormat_Inr sample_acl3_def using sample_roles sample_lens sample_epochs sample_ids_distinct
    by (simp add: sample_devices_ok sample_hlc sample_ids_valid)
  moreover have "checkEpochs (Some sample_acl1) sample_acl3 = Inr ()"
    using sample_lens sample_epochs by (simp add: checkEpochs_Inr checkEpochs_scope_Inr sample_acl1_def sample_acl3_def)
  moreover have "checkDevices (Some sample_acl1) sample_acl3 = Inr ()"
    using sample_ids_distinct
    by (auto simp: checkDevices_Inr checkDevices_old_Inr sample_acl1_def sample_acl3_def acl_Device_def)
  moreover have "check_link (Some sample_v1) sample_acl3 = Inr ()"
    by (simp add: check_link_def sample_v v_Hash_def Hash_def sample_acl1_def sample_acl3_def u64_def)
  moreover have "signer_of sample_genesis (Some sample_v1) sample_acl3 = Inr (ed_public toy_crypto ''anna'')"
    by (rule sample_signer) (simp add: sample_acl3_def)
  moreover have "gm_all (\<lambda>i r. CheckDependencies r) (gm_of (a_Roles sample_acl3))"
    using sample_roles(2) by (simp add: sample_acl3_def)
  ultimately show ?thesis
    using sample_verify
    by (simp add: Verify_def sample_v sample_decode)
       (simp add: sample_acl3_def sample_genesis_def sample_v3_def sample_version_def sample_decode)
qed

lemma sample_chain: "verified_from sample_libs sample_genesis None [sample_v1, sample_v2]"
  using sample_v1_ok sample_v2_ok by simp

theorem Verify_no_panic_witness:
  "Verify sample_libs sample_genesis (Some sample_v1) ''two'' [] \<noteq> Inl SlicePanic
   \<and> acl_Device sample_acl1 (sample_id ''anna'') \<noteq> None"
proof -
  have "Some sample_v1 = None \<or> (\<exists>pp raw' sig' p. Some sample_v1 = Some p
      \<and> Verify sample_libs sample_genesis pp raw' sig' = Inr p)"
    using sample_v1_ok by blast
  from Verify_no_panic [OF this, of "''two''" "[]" "sample_id ''anna''"] show ?thesis
    using sample_perm(1) by (simp add: sample_v)
qed

theorem Verify_authority_witness:
  "IsAdmin sample_acl1 (sample_id ''anna'') \<and> a_Prev sample_acl2 = Some (FormatHash (v_Sum sample_v1))"
  using Verify_authority [OF sample_v2_ok] sample_perm(1) by (simp add: sample_v)

theorem devices_never_removed_witness:
  "device_kept (sample_id ''bert'') sample_v1 sample_v2 \<and> device_kept (sample_id ''bert'') sample_v2 sample_v2"
  using devices_never_removed [OF sample_chain, of sample_v2 "sample_id ''bert''"]
    devices_never_removed [of sample_libs sample_genesis "Some sample_v1" sample_v2 "[]" sample_v2 "sample_id ''bert''"] sample_v2_ok
  by simp

theorem epochs_only_grow_witness: "epochs_kept sample_v1 sample_v2"
  using epochs_only_grow [OF sample_chain, of sample_v2] by simp

theorem revocation_cutoffs_witness:
  "\<exists>d. acl_Device sample_acl2 (sample_id ''bert'') = Some d \<and> \<not> Active d
     \<and> dom (map_of (gm_of (d_Cutoff d))) = {s \<in> set Scopes. CanWrite (acl_Perm sample_acl1 (sample_id ''bert'') s)}"
proof -
  have "acl_Device (v_ACL sample_v1) (sample_id ''bert'') = Some (sample_active ''bert'' RoleTreasurer)"
    "acl_Device (v_ACL sample_v2) (sample_id ''bert'') = Some (sample_revoked ''bert'' RoleTreasurer)"
    using sample_ids_distinct by (simp_all add: sample_v sample_acl1_def sample_acl2_def acl_Device_def)
  from this(2) revocation_cutoffs [OF sample_v2_ok this(1) _ this(2)] show ?thesis by (simp add: sample_v)
qed

theorem scope_dependencies_hold_witness:
  "CanRead (acl_Perm sample_acl1 (sample_id ''bert'') ScopeFinance)"
proof -
  have "CanWrite (acl_Perm sample_acl1 (sample_id ''bert'') ScopeFinance)"
    using sample_perm(2) by (simp add: Scopes_def)
  then have "acl_Perm (v_ACL sample_v1) (sample_id ''bert'') ScopeFinance \<noteq> []"
    by (auto simp: sample_v CanWrite_def PermReadWrite_def)
  from scope_dependencies_hold [OF sample_v1_ok this] show ?thesis by (simp add: sample_v)
qed

theorem Next_accepted_witness:
  "\<exists>v. Verify sample_libs sample_genesis (Some sample_v1) ''next'' (wire_sign sample_libs ''anna'' ''next'') = Inr v"
proof -
  let ?t = "\<lparr>MS = 255, Counter = 1\<rparr> :: timestamp"
  have ts: "ts_valid ?t" by (simp add: ts_valid_def maxMS_def)
  have t: "ts_string ?t = ''0000000000ff-0001''" by code_simp
  have next_acl: "v_Next sample_v1 (sample_id ''anna'') ?t = sample_acl3"
    by (simp add: v_Next_def sample_v Clone_def sample_acl1_def sample_acl3_def sample_acl_def sample_active_def
        u64_def v_Hash_def Hash_def gm_len_def gm_entries_def t)
  have "a_Version (v_ACL sample_v1) + 1 < 2 ^ 64" by (simp add: sample_v sample_acl1_def)
  moreover have "signer_of sample_genesis (Some sample_v1) (v_Next sample_v1 (sample_id ''anna'') ?t)
      = Inr (ed_public sample_libs ''anna'')"
    using sample_signer by simp
  moreover have "DecodeStrict (json_text sample_libs) dec_acl zero_acl ''next'' = Some (v_Next sample_v1 (sample_id ''anna'') ?t)"
    by (simp add: next_acl sample_decode)
  ultimately show ?thesis using Next_accepted [OF sample_crypto_ok sample_v1_ok _ _ ts] by blast
qed

theorem genesis_pinned_witness:
  "\<exists>g. ParseGenesis sample_libs ''club.json'' (wire_sign toy_crypto ''root'' ''club.json'') = Some g
     \<and> ParsePublicKey (EncodeB64 (sample_pub ''root'')) = Some (RootPub g)"
proof -
  have "DecodeStrict (json_text sample_libs) dec_genesis zero_genesis ''club.json'' =
      Some \<lparr>g_Type = genesisType, g_Protocol = 1, g_ClubID = ''club'', g_Name = ''SV'',
        g_CreatedAt = ''2024-01-01T00:00:00Z'', g_RootSignPub = EncodeB64 (sample_pub ''root''),
        g_RootAgeRecipient = ''age1'', g_rootPub = []\<rparr>"
    by (simp add: DecodeStrict_Some sample_genesis_json_def dec_genesis_def decoder_simps sample_numbers zero_genesis_def)
  then obtain g where g: "ParseGenesis sample_libs ''club.json'' (wire_sign toy_crypto ''root'' ''club.json'') = Some g"
      "Matches g ''club'' (EncodeB64 (sample_pub ''root''))"
    using sample_verify [of "''root''" "''club.json''"]
    by (simp add: ParseGenesis_def ProtocolVersion_def Matches_def sample_pub_def [symmetric])
  from genesis_pinned [OF g(1) g(1) g(2) g(2)] g(1) show ?thesis by blast
qed

end
