(* ===== verification/AclChain.thy ===== *)
theory AclChain
  imports AclSample
begin

text \<open>
  \<open>server/internal/sync/acl/chain.go\<close>: building the chain of accepted versions from the files
  found in the sync root and in the local cache, and the rollback check.
\<close>

record candidate =
  cd_Path :: string
  cd_Raw :: bytes
  cd_Sig :: bytes

record rejection =
  rj_Path :: string
  rj_Err :: acl_error
  rj_Lost :: "version option"

definition rejected_with :: "acl_error \<Rightarrow> candidate \<Rightarrow> rejection" where
  "rejected_with e c = \<lparr>rj_Path = cd_Path c, rj_Err = e, rj_Lost = None\<rparr>"

text \<open>The three variables of the first loop: \<open>byVersion\<close>, \<open>seen\<close> and \<open>rejected\<close>.\<close>

record index =
  ix_byVersion :: "(nat, candidate list) gomap"
  ix_seen :: "(nat \<times> bytes) list"
  ix_rejected :: "rejection list"

definition index_candidate :: "('c) libs_scheme \<Rightarrow> candidate \<Rightarrow> index \<Rightarrow> index" where
  "index_candidate L c ix =
     (case layout_parse (cd_Path c) of
        None \<Rightarrow> ix\<lparr>ix_rejected := ix_rejected ix @ [rejected_with ErrMalformed c]\<rparr>
      | Some e \<Rightarrow>
          if e_kind e \<noteq> KindACL then ix\<lparr>ix_rejected := ix_rejected ix @ [rejected_with ErrMalformed c]\<rparr>
          else
            (let digest = sha256 L (cd_Raw c) in
             if ACLHashPrefix digest \<noteq> e_hash_prefix e
             then ix\<lparr>ix_rejected := ix_rejected ix @ [rejected_with ErrMalformed c]\<rparr>
             else if List.member (ix_seen ix) (e_version e, digest) then ix
             else ix\<lparr>ix_seen := (e_version e, digest) # ix_seen ix,
                     ix_byVersion := AList.update (e_version e)
                       (gm_get [] (ix_byVersion ix) (e_version e) @ [c]) (ix_byVersion ix)\<rparr>))"

definition index_all :: "('c) libs_scheme \<Rightarrow> candidate list \<Rightarrow> index" where
  "index_all L cands = fold (index_candidate L) cands \<lparr>ix_byVersion = [], ix_seen = [], ix_rejected = []\<rparr>"

text \<open>One candidate of version \<open>n\<close> against the current head: the loop over \<open>byVersion[n]\<close>.\<close>

definition check_candidate :: "('c) libs_scheme \<Rightarrow> genesis \<Rightarrow> version option \<Rightarrow> nat \<Rightarrow> candidate \<Rightarrow> acl_error + version" where
  "check_candidate L g head n c =
     (case Verify L g head (cd_Raw c) (cd_Sig c) of
        Inl e \<Rightarrow> Inl e
      | Inr v \<Rightarrow> if a_Version (v_ACL v) \<noteq> n then Inl ErrMalformed else Inr v)"

fun resolve_round :: "('c) libs_scheme \<Rightarrow> genesis \<Rightarrow> version option \<Rightarrow> nat \<Rightarrow> candidate list
    \<Rightarrow> version list \<times> version option \<times> rejection list \<Rightarrow> version list \<times> version option \<times> rejection list" where
  "resolve_round L g head n [] st = st"
| "resolve_round L g head n (c # cs) (valid, winner, rejected) =
     (case check_candidate L g head n c of
        Inl e \<Rightarrow> resolve_round L g head n cs (valid, winner, rejected @ [rejected_with e c])
      | Inr v \<Rightarrow>
          resolve_round L g head n cs
            (valid @ [v],
             (case winner of None \<Rightarrow> Some v | Some w \<Rightarrow> if v_Sum v < v_Sum w then Some v else Some w),
             rejected))"

text \<open>
  The valid versions that lost. The source compares pointers; candidates of one resolve_round differ in
  their digest, so their versions are different values.
\<close>

definition lost :: "version list \<Rightarrow> version option \<Rightarrow> rejection list" where
  "lost valid winner =
     map (\<lambda>v. \<lparr>rj_Path = v_Path v, rj_Err = ErrLostConcurrent, rj_Lost = Some v\<rparr>)
       (filter (\<lambda>v. Some v \<noteq> winner) valid)"

definition unlinked :: "(nat, candidate list) gomap \<Rightarrow> nat \<Rightarrow> rejection list" where
  "unlinked by n =
     concat (map (\<lambda>k. map (rejected_with ErrBadPrev) (gm_get [] by k))
       (sort (filter (\<lambda>k. n < k) (map fst (gm_entries by)))))"

text \<open>The versions from \<open>n\<close> on that have candidates: the loop ends because they run out.\<close>

definition remaining :: "(nat, candidate list) gomap \<Rightarrow> nat \<Rightarrow> nat" where
  "remaining by n = length (filter (\<lambda>k. n \<le> k) (map fst by))"

lemma remaining_less:
  assumes "gm_get [] by n \<noteq> []"
  shows "remaining by (Suc n) < remaining by n"
proof -
  have "n \<in> set (map fst by)"
    using assms map_of_eq_None_iff [of "by" n] by (cases "map_of by n") (auto simp: gm_get_def)
  moreover have le: "length (filter (\<lambda>k. Suc n \<le> k) ks) \<le> length (filter (\<lambda>k. n \<le> k) ks)" for ks :: "nat list"
    by (induction ks) auto
  have "n \<in> set ks \<Longrightarrow> length (filter (\<lambda>k. Suc n \<le> k) ks) < length (filter (\<lambda>k. n \<le> k) ks)" for ks
    using le by (induction ks) (auto simp: less_Suc_eq_le)
  ultimately show ?thesis unfolding remaining_def by blast
qed

function resolve_loop :: "('c) libs_scheme \<Rightarrow> genesis \<Rightarrow> (nat, candidate list) gomap \<Rightarrow> nat
    \<Rightarrow> version option \<Rightarrow> version list \<Rightarrow> rejection list \<Rightarrow> version list \<times> rejection list" where
  "resolve_loop L g by n head chain rejected =
     (case resolve_round L g head n (gm_get [] by n) ([], None, rejected) of
        (valid, winner, rejected') \<Rightarrow>
          (case winner of
             None \<Rightarrow> (chain, rejected' @ lost valid winner @ unlinked by n)
           | Some w \<Rightarrow>
               resolve_loop L g by (Suc n) (Some w) (chain @ [w]) (rejected' @ lost valid winner)))"
  by pat_completeness auto
termination
  by (relation "measure (\<lambda>(L, g, by, n, head, chain, rej). remaining by n)")
     (auto intro!: remaining_less)

declare resolve_loop.simps [simp del]

definition Resolve :: "('c) libs_scheme \<Rightarrow> genesis \<Rightarrow> candidate list \<Rightarrow> version list \<times> rejection list" where
  "Resolve L g cands =
     (let ix = index_all L cands in resolve_loop L g (ix_byVersion ix) 1 None [] (ix_rejected ix))"

definition CheckRollback :: "version list \<Rightarrow> nat \<Rightarrow> acl_error + unit" where
  "CheckRollback chain highestAccepted =
     (let head = (if chain \<noteq> [] then a_Version (v_ACL (List.last chain)) else 0) in
      if head < highestAccepted then Inl ErrRollback else Inr ())"

subsection \<open>Candidates by version\<close>

text \<open>The candidate's file name is that of an ACL version \<open>n\<close> with the digest of its content.\<close>

definition names :: "('c) libs_scheme \<Rightarrow> nat \<Rightarrow> candidate \<Rightarrow> bool" where
  "names L n c \<longleftrightarrow>
     (case layout_parse (cd_Path c) of
        None \<Rightarrow> False
      | Some e \<Rightarrow> e_kind e = KindACL \<and> e_version e = n \<and> e_hash_prefix e = ACLHashPrefix (sha256 L (cd_Raw c)))"

text \<open>The candidates of version \<open>n\<close> after the first ones, each content once.\<close>

fun dedup :: "('c) libs_scheme \<Rightarrow> nat \<Rightarrow> bytes list \<Rightarrow> candidate list \<Rightarrow> candidate list" where
  "dedup L n seen [] = []"
| "dedup L n seen (c # cs) =
     (if names L n c \<and> sha256 L (cd_Raw c) \<notin> set seen
      then c # dedup L n (sha256 L (cd_Raw c) # seen) cs else dedup L n seen cs)"

definition seen_of :: "index \<Rightarrow> nat \<Rightarrow> bytes list" where
  "seen_of ix n = map snd (filter (\<lambda>(k, _). k = n) (ix_seen ix))"

lemma gm_get_update: "gm_get z (AList.update k v m) n = (if n = k then v else gm_get z m n)"
  by (simp add: gm_get_def update_conv')

lemma set_seen_of: "d \<in> set (seen_of ix n) \<longleftrightarrow> (n, d) \<in> set (ix_seen ix)"
  by (force simp: seen_of_def)

lemma index_candidate_byVersion:
  "gm_get [] (ix_byVersion (index_candidate L c ix)) n =
     gm_get [] (ix_byVersion ix) n
       @ (if names L n c \<and> sha256 L (cd_Raw c) \<notin> set (seen_of ix n) then [c] else [])"
  by (auto simp: index_candidate_def names_def gm_get_update set_seen_of Let_def split: option.splits)

lemma index_candidate_seen:
  "set (seen_of (index_candidate L c ix) n) =
     (if names L n c then insert (sha256 L (cd_Raw c)) (set (seen_of ix n)) else set (seen_of ix n))"
  by (auto simp: index_candidate_def names_def set_seen_of Let_def split: option.splits)

lemma dedup_cong: "set seen = set seen' \<Longrightarrow> dedup L n seen cs = dedup L n seen' cs"
proof (induction cs arbitrary: seen seen')
  case (Cons c cs)
  then have "dedup L n seen cs = dedup L n seen' cs"
      "dedup L n (sha256 L (cd_Raw c) # seen) cs = dedup L n (sha256 L (cd_Raw c) # seen') cs"
    by (metis list.simps(15))+
  with Cons.prems show ?case by simp
qed simp

lemma fold_index_byVersion:
  "gm_get [] (ix_byVersion (fold (index_candidate L) cs ix)) n =
     gm_get [] (ix_byVersion ix) n @ dedup L n (seen_of ix n) cs"
proof (induction cs arbitrary: ix)
  case (Cons c cs)
  have "names L n c \<Longrightarrow> dedup L n (seen_of (index_candidate L c ix) n) cs
      = dedup L n (sha256 L (cd_Raw c) # seen_of ix n) cs"
    by (rule dedup_cong) (simp add: index_candidate_seen)
  moreover have "\<not> names L n c \<or> sha256 L (cd_Raw c) \<in> set (seen_of ix n) \<Longrightarrow>
      dedup L n (seen_of (index_candidate L c ix) n) cs = dedup L n (seen_of ix n) cs"
    by (rule dedup_cong) (auto simp: index_candidate_seen)
  ultimately show ?case by (auto simp: Cons.IH index_candidate_byVersion)
qed simp

lemma byVersion_dedup: "gm_get [] (ix_byVersion (index_all L cands)) n = dedup L n [] cands"
  by (simp add: index_all_def fold_index_byVersion) (simp add: gm_get_def seen_of_def)

lemma dedup_sound: "c \<in> set (dedup L n seen cs) \<Longrightarrow> c \<in> set cs \<and> names L n c \<and> sha256 L (cd_Raw c) \<notin> set seen"
proof (induction cs arbitrary: seen)
  case (Cons a cs)
  then show ?case
    using Cons.IH [of seen] Cons.IH [of "sha256 L (cd_Raw a) # seen"] by (auto split: if_splits)
qed simp

lemma dedup_complete:
  "c \<in> set cs \<Longrightarrow> names L n c \<Longrightarrow> sha256 L (cd_Raw c) \<in> set seen
     \<or> (\<exists>c' \<in> set (dedup L n seen cs). sha256 L (cd_Raw c') = sha256 L (cd_Raw c))"
proof (induction cs arbitrary: seen)
  case (Cons a cs)
  then show ?case
    using Cons.IH [of seen] Cons.IH [of "sha256 L (cd_Raw a) # seen"] by auto
qed simp

lemma dedup_distinct: "distinct (map (\<lambda>c. sha256 L (cd_Raw c)) (dedup L n seen cs))"
  by (induction cs arbitrary: seen) (auto dest: dedup_sound)

subsection \<open>One round\<close>

text \<open>The versions a list of candidates offers as successors of the head.\<close>

definition offers :: "('c) libs_scheme \<Rightarrow> genesis \<Rightarrow> version option \<Rightarrow> nat \<Rightarrow> candidate list \<Rightarrow> version set" where
  "offers L g head n cs = {v. \<exists>c \<in> set cs. check_candidate L g head n c = Inr v}"

lemma offers_Cons:
  "offers L g head n (c # cs) =
     (case check_candidate L g head n c of Inl e \<Rightarrow> offers L g head n cs | Inr v \<Rightarrow> insert v (offers L g head n cs))"
  by (auto simp: offers_def split: sum.splits)

lemma check_candidate_Inr:
  "check_candidate L g head n c = Inr v \<longleftrightarrow> Verify L g head (cd_Raw c) (cd_Sig c) = Inr v \<and> a_Version (v_ACL v) = n"
  by (auto simp: check_candidate_def split: sum.splits)

text \<open>The winner is a least element of the offers and of the winner so far.\<close>

definition least_of :: "version set \<Rightarrow> version option \<Rightarrow> bool" where
  "least_of S winner \<longleftrightarrow>
     (case winner of None \<Rightarrow> S = {} | Some w \<Rightarrow> w \<in> S \<and> (\<forall>v \<in> S. \<not> v_Sum v < v_Sum w))"

lemma resolve_round_winner:
  assumes "least_of S winner"
  shows "least_of (S \<union> offers L g head n cs) (fst (snd (resolve_round L g head n cs (valid, winner, rej))))"
  using assms
proof (induction cs arbitrary: valid winner rej S)
  case Nil
  then show ?case by (simp add: offers_def)
next
  case (Cons c cs)
  show ?case
  proof (cases "check_candidate L g head n c")
    case (Inl e)
    with Cons.IH [OF Cons.prems] show ?thesis by (simp add: offers_Cons)
  next
    case (Inr v)
    have "least_of (insert v S)
        (case winner of None \<Rightarrow> Some v | Some w \<Rightarrow> if v_Sum v < v_Sum w then Some v else Some w)"
      using Cons.prems by (auto simp: least_of_def split: option.splits)
    from Cons.IH [OF this] Inr show ?thesis by (simp add: offers_Cons)
  qed
qed

lemma resolve_round_valid:
  "set (fst (resolve_round L g head n cs (valid, winner, rej))) = set valid \<union> offers L g head n cs"
  by (induction cs arbitrary: valid winner rej) (auto simp: offers_Cons offers_def split: sum.splits)

subsection \<open>The chain\<close>

text \<open>
  What the loop promises: \<open>chain\<close> continues the head through version after version, each one a
  least element of what the candidates offer there, until they offer nothing.
\<close>

fun winning :: "('c) libs_scheme \<Rightarrow> genesis \<Rightarrow> (nat \<Rightarrow> candidate list) \<Rightarrow> nat \<Rightarrow> version option \<Rightarrow> version list \<Rightarrow> bool" where
  "winning L g at n head [] = (offers L g head n (at n) = {})"
| "winning L g at n head (v # vs) =
     (least_of (offers L g head n (at n)) (Some v) \<and> winning L g at (Suc n) (Some v) vs)"

lemma resolve_loop_winning:
  "\<exists>vs. fst (resolve_loop L g by n head chain rej) = chain @ vs \<and> winning L g (gm_get [] by) n head vs"
proof (induction L g "by" n head chain rej rule: resolve_loop.induct)
  case (1 L g "by" n head chain rej)
  obtain valid winner rej' where r: "resolve_round L g head n (gm_get [] by n) ([], None, rej) = (valid, winner, rej')"
    by (cases "resolve_round L g head n (gm_get [] by n) ([], None, rej)")
  have w: "least_of (offers L g head n (gm_get [] by n)) winner"
    using resolve_round_winner [of "{}" None L g head n "gm_get [] by n" "[]" rej] by (simp add: r least_of_def)
  show ?case
  proof (cases winner)
    case None
    with w r show ?thesis by (auto simp: resolve_loop.simps least_of_def)
  next
    case (Some v)
    then obtain vs where "fst (resolve_loop L g by (Suc n) (Some v) (chain @ [v]) (rej' @ lost valid winner)) = (chain @ [v]) @ vs"
        "winning L g (gm_get [] by) (Suc n) (Some v) vs"
      using 1 r by metis
    with w r Some show ?thesis by (intro exI [of _ "v # vs"]) (simp add: resolve_loop.simps)
  qed
qed

lemma Resolve_winning: "winning L g (\<lambda>n. dedup L n [] cands) 1 None (fst (Resolve L g cands))"
  using resolve_loop_winning [of L g "ix_byVersion (index_all L cands)" 1 None "[]" "ix_rejected (index_all L cands)"]
  by (auto simp: Resolve_def Let_def byVersion_dedup [abs_def])

lemma winning_verified:
  assumes "winning L g at n head vs"
  shows "verified_from L g head vs \<and> map (\<lambda>v. a_Version (v_ACL v)) vs = [n..<n + length vs]"
  using assms
proof (induction vs arbitrary: n head)
  case (Cons v vs)
  then have "v \<in> offers L g head n (at n)" by (simp add: least_of_def)
  then have "Verify L g head (v_Raw v) (v_Sig v) = Inr v \<and> a_Version (v_ACL v) = n"
    by (auto simp: offers_def check_candidate_Inr Verify_Inr)
  moreover have "[n..<n + length (v # vs)] = n # [Suc n..<Suc n + length vs]"
    by (simp add: upt_conv_Cons del: upt_Suc)
  moreover have "verified_from L g (Some v) vs \<and> map (\<lambda>v. a_Version (v_ACL v)) vs = [Suc n..<Suc n + length vs]"
    using Cons.IH [of "Suc n" "Some v"] Cons.prems unfolding winning.simps by blast
  ultimately show ?case by (simp del: upt_Suc)
qed simp


subsection \<open>Independence of the order of the files\<close>

text \<open>No two candidates have the same digest with a different content or signature file.\<close>

definition consistent :: "('c) libs_scheme \<Rightarrow> candidate list \<Rightarrow> bool" where
  "consistent L cands \<longleftrightarrow>
     (\<forall>c \<in> set cands. \<forall>c' \<in> set cands.
        sha256 L (cd_Raw c) = sha256 L (cd_Raw c') \<longrightarrow> cd_Raw c = cd_Raw c' \<and> cd_Sig c = cd_Sig c')"

lemma check_candidate_cong:
  "cd_Raw c = cd_Raw c' \<Longrightarrow> cd_Sig c = cd_Sig c' \<Longrightarrow> check_candidate L g head n c = check_candidate L g head n c'"
  by (simp add: check_candidate_def)

lemma offers_dedup:
  assumes "consistent L cands"
  shows "offers L g head n (dedup L n [] cands) = offers L g head n (filter (names L n) cands)"
proof
  show "offers L g head n (dedup L n [] cands) \<subseteq> offers L g head n (filter (names L n) cands)"
    by (auto simp: offers_def dest: dedup_sound)
  show "offers L g head n (filter (names L n) cands) \<subseteq> offers L g head n (dedup L n [] cands)"
  proof
    fix v assume "v \<in> offers L g head n (filter (names L n) cands)"
    then obtain c where c: "c \<in> set cands" "names L n c" "check_candidate L g head n c = Inr v"
      by (auto simp: offers_def)
    then obtain c' where c': "c' \<in> set (dedup L n [] cands)" "sha256 L (cd_Raw c') = sha256 L (cd_Raw c)"
      using dedup_complete [of c cands L n "[]"] by auto
    then have "c' \<in> set cands" by (blast dest: dedup_sound)
    with c c' assms have "check_candidate L g head n c' = Inr v"
      unfolding consistent_def by (metis check_candidate_cong)
    with c' show "v \<in> offers L g head n (dedup L n [] cands)" by (auto simp: offers_def)
  qed
qed

lemma offers_digest_inj:
  assumes "consistent L cands" "v \<in> offers L g head n (filter P cands)" "w \<in> offers L g head n (filter P cands)"
    "v_Sum v = v_Sum w"
  shows "v = w"
proof -
  obtain c c' where c: "c \<in> set cands" "check_candidate L g head n c = Inr v"
    and c': "c' \<in> set cands" "check_candidate L g head n c' = Inr w"
    using assms(2,3) by (auto simp: offers_def)
  have "v_Sum v = sha256 L (cd_Raw c)" "v_Sum w = sha256 L (cd_Raw c')"
    using c c' by (auto simp: check_candidate_Inr Verify_Inr)
  then have "cd_Raw c = cd_Raw c'" "cd_Sig c = cd_Sig c'"
    using assms(1,4) c(1) c'(1) unfolding consistent_def by metis+
  then have "check_candidate L g head n c = check_candidate L g head n c'" by (rule check_candidate_cong)
  with c c' show ?thesis by simp
qed

lemma winning_unique:
  assumes inj: "\<And>n head v w. v \<in> offers L g head n (at n) \<Longrightarrow> w \<in> offers L g head n (at n) \<Longrightarrow> v_Sum v = v_Sum w \<Longrightarrow> v = w"
    and eq: "\<And>n head. offers L g head n (at n) = offers L g head n (at' n)"
  shows "winning L g at n head vs \<Longrightarrow> winning L g at' n head vs' \<Longrightarrow> vs = vs'"
proof (induction vs arbitrary: vs' n head)
  case Nil
  then show ?case by (cases vs') (auto simp: eq least_of_def)
next
  case (Cons v vs)
  then obtain w ws where vs': "vs' = w # ws" by (cases vs') (auto simp: eq [symmetric] least_of_def)
  have v: "v \<in> offers L g head n (at n)" "w \<in> offers L g head n (at n)" "\<not> v_Sum w < v_Sum v" "\<not> v_Sum v < v_Sum w"
    using Cons.prems by (auto simp: vs' eq [symmetric] least_of_def)
  then have "v = w" by (intro inj) auto
  with Cons show ?case by (auto simp: vs')
qed


text \<open>
  The rollback check passes exactly for chains at least as long as the highest version
  accepted before; it looks at the number only.
\<close>

theorem CheckRollback_length:
  "CheckRollback (fst (Resolve L g cands)) h = (if h \<le> length (fst (Resolve L g cands)) then Inr () else Inl ErrRollback)"
proof -
  let ?c = "fst (Resolve L g cands)"
  have m: "map (\<lambda>v. a_Version (v_ACL v)) ?c = [1..<1 + length ?c]"
    using winning_verified [OF Resolve_winning] by blast
  have "a_Version (v_ACL (List.last ?c)) = length ?c" if "?c \<noteq> []"
  proof -
    have "a_Version (v_ACL (List.last ?c)) = List.last [1..<1 + length ?c]"
      using that m by (metis last_map)
    with that show ?thesis by (cases ?c) auto
  qed
  then show ?thesis by (auto simp: CheckRollback_def Let_def)
qed

subsection \<open>Concrete files\<close>

definition acl_file :: "('c) libs_scheme \<Rightarrow> nat \<Rightarrow> bytes \<Rightarrow> bytes \<Rightarrow> candidate" where
  "acl_file L n raw sig = \<lparr>cd_Path = ACLPath n (sha256 L raw), cd_Raw = raw, cd_Sig = sig\<rparr>"

lemma acl_file_simps [simp]: "cd_Raw (acl_file L n raw sig) = raw" "cd_Sig (acl_file L n raw sig) = sig"
  by (simp_all add: acl_file_def)

lemma names_acl_file:
  assumes "crypto_ok L" "0 < n" "n < 10 ^ 8"
  shows "names L m (acl_file L n raw sig) \<longleftrightarrow> m = n"
proof -
  have "layout_parse (ACLPath n (sha256 L raw)) =
      Some (entry_of KindACL\<lparr>e_version := n, e_hash_prefix := ACLHashPrefix (sha256 L raw)\<rparr>)"
    using assms by (intro parse_acl_path) (auto simp: crypto_ok_def)
  then show ?thesis by (auto simp: names_def acl_file_def entry_of_def)
qed

lemma Resolve_eqI:
  assumes "winning L g (\<lambda>n. dedup L n [] cands) 1 None vs"
  shows "fst (Resolve L g cands) = vs"
proof (rule winning_unique [OF _ _ Resolve_winning assms])
  show "v = w" if v: "v \<in> offers L g head n (dedup L n [] cands)" and w: "w \<in> offers L g head n (dedup L n [] cands)"
    and e: "v_Sum v = v_Sum w" for n head v w
  proof -
    obtain c c' where c: "c \<in> set (dedup L n [] cands)" "check_candidate L g head n c = Inr v"
      and c': "c' \<in> set (dedup L n [] cands)" "check_candidate L g head n c' = Inr w"
      using v w unfolding offers_def by blast
    then have "sha256 L (cd_Raw c) = sha256 L (cd_Raw c')"
      using e by (auto simp: check_candidate_Inr Verify_Inr)
    with c(1) c'(1) have "c = c'" using dedup_distinct [of L n "[]" cands] by (auto simp: distinct_map dest: inj_onD)
    with c c' show ?thesis by simp
  qed
qed simp

definition sample_file1 :: candidate where "sample_file1 = acl_file sample_libs 1 ''one'' (v_Sig sample_v1)"
definition sample_file2 :: candidate where "sample_file2 = acl_file sample_libs 2 ''two'' (v_Sig sample_v2)"
definition sample_file3 :: candidate where "sample_file3 = acl_file sample_libs 2 ''next'' (v_Sig sample_v3)"

lemma sample_names:
  "names sample_libs n sample_file1 = (n = 1)" "names sample_libs n sample_file2 = (n = 2)"
  "names sample_libs n sample_file3 = (n = 2)" "names sample_libs n (acl_file sample_libs (Suc 0) x y) = (n = 1)"
  using sample_crypto_ok by (simp_all add: sample_file1_def sample_file2_def sample_file3_def names_acl_file)

lemma sample_offers:
  "check_candidate sample_libs sample_genesis None (Suc 0) sample_file1 = Inr sample_v1"
  "check_candidate sample_libs sample_genesis (Some sample_v1) (Suc (Suc 0)) sample_file2 = Inr sample_v2"
  "check_candidate sample_libs sample_genesis (Some sample_v1) (Suc (Suc 0)) sample_file3 = Inr sample_v3"
  using sample_v1_ok sample_v2_ok sample_v3_ok
  by (simp_all add: check_candidate_def sample_file1_def sample_file2_def sample_file3_def sample_v)
     (simp_all add: sample_acl1_def sample_acl2_def sample_acl3_def)

lemma sample_files [simp]:
  "cd_Raw sample_file1 = ''one''" "cd_Raw sample_file2 = ''two''" "cd_Raw sample_file3 = ''next''"
  by (simp_all add: sample_file1_def sample_file2_def sample_file3_def)

lemma offers_simps [simp]: "offers L g head n [] = {}"
  by (simp add: offers_def)

lemma sample_digests:
  "sha256 toy_crypto ''two'' \<noteq> sha256 toy_crypto ''next''" "sha256 toy_crypto ''next'' < sha256 toy_crypto ''two''"
  by (simp_all add: toy_crypto_def pad_to_def)

text \<open>
  A fork takes the place of an accepted version: two devices hold the version that revokes a
  device; when a concurrent child of the version before it appears with a smaller digest, the
  chain switches to it, the revoked device is active again, and the rollback check passes
  because the number of versions did not shrink.
\<close>

theorem fork_undoes_revocation:
  "fst (Resolve sample_libs sample_genesis [sample_file1, sample_file2]) = [sample_v1, sample_v2]
   \<and> fst (Resolve sample_libs sample_genesis [sample_file1, sample_file2, sample_file3]) = [sample_v1, sample_v3]
   \<and> map_option Active (acl_Device (v_ACL sample_v2) (sample_id ''bert'')) = Some False
   \<and> map_option Active (acl_Device (v_ACL sample_v3) (sample_id ''bert'')) = Some True
   \<and> CheckRollback [sample_v1, sample_v3] 2 = Inr ()"
proof (intro conjI)
  show "fst (Resolve sample_libs sample_genesis [sample_file1, sample_file2]) = [sample_v1, sample_v2]"
    by (rule Resolve_eqI) (simp add: sample_names offers_Cons sample_offers least_of_def)
  show "fst (Resolve sample_libs sample_genesis [sample_file1, sample_file2, sample_file3]) = [sample_v1, sample_v3]"
    using sample_digests
    by (intro Resolve_eqI) (auto simp: sample_names offers_Cons sample_offers least_of_def sample_v)
  show "map_option Active (acl_Device (v_ACL sample_v2) (sample_id ''bert'')) = Some False"
    "map_option Active (acl_Device (v_ACL sample_v3) (sample_id ''bert'')) = Some True"
    using sample_ids_distinct by (simp_all add: sample_v sample_acl2_def sample_acl3_def acl_Device_def)
  show "CheckRollback [sample_v1, sample_v3] 2 = Inr ()"
    by (simp add: CheckRollback_def sample_v sample_acl3_def)
qed

text \<open>
  Only the first copy of a content is looked at, whatever its signature file: a damaged
  signature among the remote files, which come first, hides the intact copy of the local cache,
  and the device refuses its own accepted chain as rolled back.
\<close>

theorem damaged_signature_hides_version:
  "fst (Resolve sample_libs sample_genesis [sample_file1]) = [sample_v1]
   \<and> fst (Resolve sample_libs sample_genesis [acl_file sample_libs 1 ''one'' ''damaged'', sample_file1]) = []
   \<and> CheckRollback (fst (Resolve sample_libs sample_genesis [acl_file sample_libs 1 ''one'' ''damaged'', sample_file1])) 1
       = Inl ErrRollback"
proof -
  have "fst (Resolve sample_libs sample_genesis [sample_file1]) = [sample_v1]"
    by (rule Resolve_eqI) (simp add: sample_names offers_Cons sample_offers least_of_def)
  moreover have "\<not> wire_verify sample_libs k m ''damaged''" for k m
  proof -
    have "TrimSpace ''damaged'' = ''damaged''" "DecodeB64 ''damaged'' = None"
      by code_simp+
    then show ?thesis by (auto simp: wire_verify_def split: option.splits)
  qed
  then have "Verify sample_libs sample_genesis None ''one'' ''damaged'' \<noteq> Inr v" for v
    by (auto simp: Verify_Inr)
  then have "check_candidate sample_libs sample_genesis None 1 (acl_file sample_libs 1 ''one'' ''damaged'') \<noteq> Inr v" for v
    by (simp add: check_candidate_Inr)
  then have "fst (Resolve sample_libs sample_genesis [acl_file sample_libs 1 ''one'' ''damaged'', sample_file1]) = []"
    by (intro Resolve_eqI) (auto simp: sample_names offers_Cons split: sum.splits)
  ultimately show ?thesis by (simp add: CheckRollback_def)
qed


end
