(* ===== verification/Engine.thy ===== *)
theory Engine
  imports Snapshot AclChain
begin

text \<open>
  Receiving changes (\<open>server/internal/sync/engine/engine.go\<close>, \<open>pull.go\<close>, \<open>upcast.go\<close>): the state
  of the streams, the checks of a received segment, applying it, and following one stream.

  What the engine is given is the record \<open>eng\<close>: the answers of the transport, the scope keys the
  identity layer holds, the device and its wall clock. The details of a status are texts for
  the user, here without the numbers the code formats into them. A stream has fewer than \<open>2^64\<close>
  segments.
\<close>

datatype eng_error =
  EngSql sql_error | EngTransport tr_error | EngKey | EngSeal seg_error | EngQueued | EngHlc | EngForeignKey
  | EngOutbox | EngHistory | EngPanic

datatype key_error = ErrMissingKey | KeyFailed

record eng =
  n_list :: "string \<Rightarrow> tr_error + string list"
  n_get :: "string \<Rightarrow> tr_error + bytes"
  n_key :: "scope \<Rightarrow> nat \<Rightarrow> key_error + bytes"
  n_club :: string
  n_self :: string
  n_sign :: bytes
  n_now :: int
  n_MaxAttempts :: int
  n_random :: "scope \<Rightarrow> nat \<Rightarrow> bytes"

definition DefaultMaxAttempts :: int where "DefaultMaxAttempts = 3"
definition maxSegmentPlain :: nat where "maxSegmentPlain = 4 * 2 ^ 20"
definition StatusOK :: string where "StatusOK = ''ok''"
definition StatusWaiting :: string where "StatusWaiting = ''waiting''"
definition StatusQuarantined :: string where "StatusQuarantined = ''quarantined''"

lemmas status_defs = StatusOK_def StatusWaiting_def StatusQuarantined_def

record stream_row =
  st_seq :: nat
  st_hash :: "string option"
  st_status :: string
  st_failures :: nat
  st_detail :: string

record history_row =
  hi_Scope :: scope
  hi_Device :: string
  hi_Seq :: nat
  hi_T :: string
  hi_PK :: pk_key
  hi_Epoch :: nat
  hi_HLC :: string
  hi_raw :: bytes

record edb = sdb +
  e_streams :: "(string \<times> scope, stream_row) gomap"
  e_history :: "history_row list"
  e_warnings :: "(string, string) gomap"

subsection \<open>Helpers of engine.go\<close>

definition eng_key :: "eng \<Rightarrow> scope \<Rightarrow> nat \<Rightarrow> eng_error + bytes option" where
  "eng_key E s epoch =
     (case n_key E s epoch of
        Inr k \<Rightarrow> Inr (Some k)
      | Inl e \<Rightarrow> if e = ErrMissingKey then Inr None else Inl EngKey)"

definition maxAttempts :: "eng \<Rightarrow> int" where
  "maxAttempts E = (if n_MaxAttempts E > 0 then n_MaxAttempts E else DefaultMaxAttempts)"

definition versionAt :: "version list \<Rightarrow> nat \<Rightarrow> version option" where
  "versionAt chain n = (if n < 1 \<or> n > length chain then None else Some (chain ! (n - 1)))"

definition readable :: "acl \<Rightarrow> string \<Rightarrow> scope list" where
  "readable head self = filter (\<lambda>s. CanRead (acl_Perm head self s)) Scopes"

definition addScope :: "scope list \<Rightarrow> scope \<Rightarrow> scope list" where
  "addScope xs s = (if List.member xs s then xs else xs @ [s])"

definition sortedScopes :: "scope list \<Rightarrow> scope list" where
  "sortedScopes ss = filter (\<lambda>s. List.member ss s) Scopes"

definition setClockEpochs :: "acl \<Rightarrow> ('d) wdb_scheme \<Rightarrow> ('d) wdb_scheme" where
  "setClockEpochs head d =
     fold (\<lambda>s d. let ce = (if clock_epoch_of head s = 0 then 1 else clock_epoch_of head s) in
                d\<lparr>w_epochs := AList.update s ce (w_epochs d)\<rparr>) Scopes d"

text \<open>The end of a transaction: SQLite checks the deferred foreign keys.\<close>

definition fk_broken :: "('s) schema_scheme \<Rightarrow> ('d) rdb_scheme \<Rightarrow> bool" where
  "fk_broken S d \<longleftrightarrow>
     list_ex (\<lambda>t. list_ex (\<lambda>(k, cells). fk_violated S (Name t) cells d) (gm_entries (r_rows d (Name t)))) SyncedTables"

definition commit :: "('s) schema_scheme \<Rightarrow> ('d) rdb_scheme \<Rightarrow> eng_error + ('d) rdb_scheme" where
  "commit S d = (if fk_broken S d then Inl EngForeignKey else Inr d)"

definition Counts :: "('d) edb_scheme \<Rightarrow> nat \<times> nat \<times> nat \<times> nat \<times> string list" where
  "Counts d =
     (let others = filter (\<lambda>((dev, s), st). r_device d \<noteq> Some dev) (gm_entries (e_streams d));
          cnt = (\<lambda>status. length (filter (\<lambda>(k, st). st_status st = status) others))
      in (cnt StatusOK, cnt StatusWaiting, cnt StatusQuarantined, length (r_pending d),
          sort (map fst (gm_entries (e_warnings d)))))"

subsection \<open>Stream positions\<close>

record position =
  ps_seq :: nat
  ps_hash :: string
  ps_status :: string
  ps_failures :: nat

definition position_of :: "('d) edb_scheme \<Rightarrow> string \<Rightarrow> scope \<Rightarrow> position" where
  "position_of d dev s =
     (case map_of (e_streams d) (dev, s) of
        None \<Rightarrow> \<lparr>ps_seq = 0, ps_hash = [], ps_status = StatusOK, ps_failures = 0\<rparr>
      | Some st \<Rightarrow> \<lparr>ps_seq = st_seq st, ps_hash = (case st_hash st of None \<Rightarrow> [] | Some h \<Rightarrow> h),
                   ps_status = st_status st, ps_failures = st_failures st\<rparr>)"

definition setStatus :: "string \<Rightarrow> scope \<Rightarrow> string \<Rightarrow> nat \<Rightarrow> string \<Rightarrow> ('d) edb_scheme \<Rightarrow> ('d) edb_scheme" where
  "setStatus dev s status failures detail d =
     d\<lparr>e_streams := AList.update (dev, s)
        (case map_of (e_streams d) (dev, s) of
           None \<Rightarrow> \<lparr>st_seq = 0, st_hash = None, st_status = status, st_failures = failures, st_detail = detail\<rparr>
         | Some st \<Rightarrow> st\<lparr>st_status := status, st_failures := failures, st_detail := detail\<rparr>) (e_streams d)\<rparr>"

definition setPosition :: "string \<Rightarrow> scope \<Rightarrow> nat \<Rightarrow> string \<Rightarrow> string \<Rightarrow> string \<Rightarrow> ('d) edb_scheme \<Rightarrow> ('d) edb_scheme" where
  "setPosition dev s seq hash status detail d =
     d\<lparr>e_streams := AList.update (dev, s)
        \<lparr>st_seq = seq, st_hash = (if seq > 0 then Some hash else None), st_status = status, st_failures = 0,
         st_detail = detail\<rparr> (e_streams d)\<rparr>"

definition fail :: "eng \<Rightarrow> string \<Rightarrow> scope \<Rightarrow> position \<Rightarrow> string \<Rightarrow> ('d) edb_scheme \<Rightarrow> ('d) edb_scheme" where
  "fail E dev s pos reason d =
     (let failures = ps_failures pos + 1 in
      if int failures \<ge> maxAttempts E then setStatus dev s StatusQuarantined failures reason d
      else setStatus dev s StatusWaiting failures (''retrying: '' @ reason) d)"

definition addHistory :: "('c) op_libs_scheme \<Rightarrow> scope \<Rightarrow> string \<Rightarrow> nat \<Rightarrow> nat \<Rightarrow> op \<Rightarrow> ('d) edb_scheme \<Rightarrow> ('d) edb_scheme" where
  "addHistory L s dev seq clockEpoch q d =
     (let pk = EncodePK (o_PK q) in
      if list_ex (\<lambda>h. hi_Device h = dev \<and> hi_Scope h = s \<and> hi_Seq h = seq \<and> hi_T h = o_T q \<and> hi_PK h = pk
                      \<and> hi_HLC h = o_HLC q) (e_history d)
      then d
      else d\<lparr>e_history := e_history d @
               [\<lparr>hi_Scope = s, hi_Device = dev, hi_Seq = seq, hi_T = o_T q, hi_PK = pk, hi_Epoch = clockEpoch,
                 hi_HLC = o_HLC q, hi_raw = json_render L (op_json q)\<rparr>]\<rparr>)"

subsection \<open>Listing the segments\<close>

definition listSegments :: "eng \<Rightarrow> eng_error + (string \<times> scope \<times> nat \<times> string) list" where
  "listSegments E =
     (case n_list E ''segments/'' of
        Inl e \<Rightarrow> Inl (EngTransport e)
      | Inr paths \<Rightarrow>
          Inr (List.map_filter (\<lambda>p.
             case layout_parse p of
               None \<Rightarrow> None
             | Some en \<Rightarrow> if e_kind en = KindSegment then Some (e_device en, e_scope en, e_seq en, p) else None) paths))"

definition seqs_of :: "(string \<times> scope \<times> nat \<times> string) list \<Rightarrow> string \<Rightarrow> scope \<Rightarrow> (nat, string) gomap" where
  "seqs_of files dev s = rev (List.map_filter (\<lambda>(d', s', q, p). if d' = dev \<and> s' = s then Some (q, p) else None) files)"

subsection \<open>Upcasting ops of older schemas\<close>

type_synonym upcaster = "op list \<Rightarrow> op list option"

definition upcasters :: "(int, upcaster) gomap" where
  "upcasters = []"

function upcast_from :: "(int, upcaster) gomap \<Rightarrow> int \<Rightarrow> op list \<Rightarrow> op list option" where
  "upcast_from ups v ops =
     (if v < SchemaVersion then
        (case map_of ups v of
           None \<Rightarrow> None
         | Some up \<Rightarrow> (case up ops of None \<Rightarrow> None | Some ops' \<Rightarrow> upcast_from ups (v + 1) ops'))
      else Some ops)"
  by pat_completeness auto
termination by (relation "measure (\<lambda>(ups, v, ops). nat (SchemaVersion - v))") auto

declare upcast_from.simps [simp del]

definition upcastOps :: "int \<Rightarrow> op list \<Rightarrow> op list option" where
  "upcastOps v ops = upcast_from upcasters v ops"

subsection \<open>Verifying a segment\<close>

datatype verdict = Accept | Wait | Reject | Fatal

record checked =
  ck_verdict :: verdict
  ck_reason :: string
  ck_hdr :: header
  ck_hash :: string
  ck_ops :: "op list"
  ck_clockEpoch :: nat

definition no :: "verdict \<Rightarrow> string \<Rightarrow> eng_error + checked" where
  "no v reason = Inr \<lparr>ck_verdict = v, ck_reason = reason, ck_hdr = zero_header, ck_hash = [], ck_ops = [], ck_clockEpoch = 0\<rparr>"

definition prev_matches :: "string option \<Rightarrow> string \<Rightarrow> bool" where
  "prev_matches prev accepted \<longleftrightarrow>
     \<not> ((prev = None) \<noteq> (accepted = []) \<or> (case prev of None \<Rightarrow> False | Some p \<Rightarrow> p \<noteq> accepted))"

fun hlcs_ascend :: "op list \<Rightarrow> bool" where
  "hlcs_ascend (a # b # r) = (if o_HLC b \<le> o_HLC a then False else hlcs_ascend (b # r))"
| "hlcs_ascend _ = True"

text \<open>The rules on the plaintext: 8 and 9.\<close>

definition check_ops :: "('s) schema_scheme \<Rightarrow> ('c) seg_libs_scheme \<Rightarrow> scope \<Rightarrow> frame_file \<Rightarrow> header \<Rightarrow> nat \<Rightarrow> bytes
    \<Rightarrow> eng_error + checked" where
  "check_ops S L s f h clockEpoch plain =
     (case DecodeOps L plain of
        None \<Rightarrow> no Reject ''ops''
      | Some ops0 \<Rightarrow>
          if ops0 = [] then no Reject ''empty segment''
          else
            (case upcastOps (h_Schema h) ops0 of
               None \<Rightarrow> no Reject ''no upcaster''
             | Some ops \<Rightarrow>
                 (case first_error (Validate S s) ops of
                    Inl e \<Rightarrow> if e = ErrUnsupported then no Wait ''please update the app'' else no Reject ''invalid op''
                  | Inr _ \<Rightarrow>
                      if ops = [] then Inl EngPanic
                      else if o_HLC (hd ops) \<noteq> h_HLCMin h \<or> o_HLC (List.last ops) \<noteq> h_HLCMax h
                      then no Reject ''hlc_min/hlc_max do not match the ops''
                      else if \<not> hlcs_ascend ops then no Reject ''ops are not in ascending HLC order''
                      else Inr \<lparr>ck_verdict = Accept, ck_reason = [], ck_hdr = h, ck_hash = fr_Hash L f, ck_ops = ops,
                                ck_clockEpoch = clockEpoch\<rparr>)))"

definition eng_verify :: "eng \<Rightarrow> ('s) schema_scheme \<Rightarrow> ('c) seg_libs_scheme \<Rightarrow> version list \<Rightarrow> string \<Rightarrow> scope \<Rightarrow> nat
    \<Rightarrow> string \<Rightarrow> bytes \<Rightarrow> eng_error + checked" where
  "eng_verify E S L chain dev s seq prevHash raw =
     (let head = v_ACL (List.last chain) in
      case seg_Parse raw of
        Inl e \<Rightarrow> no Reject ''malformed''
      | Inr f \<Rightarrow>
          (case SegmentHeader L f of
             Inl e \<Rightarrow> no Reject ''header''
           | Inr h \<Rightarrow>
               if h_DeviceID h \<noteq> dev \<or> h_Scope h \<noteq> s \<or> h_Seq h \<noteq> seq then no Reject ''file name does not match the header''
               else if h_ClubID h \<noteq> n_club E then no Reject ''segment of another club''
               else if h_ACLVersion h > a_Version head then no Wait ''waiting for ACL version''
               else
                 (case acl_Device head dev of
                    None \<Rightarrow> no Reject ''device is not in the ACL''
                  | Some d \<Rightarrow>
                      (case ParsePublicKey (d_SignPub d) of
                         None \<Rightarrow> no Reject ''public key''
                       | Some pub \<Rightarrow>
                           if \<not> fr_Verify L f pub then no Reject ''signature''
                           else if \<not> prev_matches (h_Prev h) prevHash then no Reject ''prev does not match the accepted segment''
                           else
                             (case versionAt chain (h_ACLVersion h) of
                                None \<Rightarrow> Inl EngPanic
                              | Some v \<Rightarrow>
                                  if \<not> CanWrite (acl_Perm (v_ACL v) dev s) then no Reject ''device has no rw''
                                  else if h_Epoch h \<noteq> epoch_of (v_ACL v) s then no Reject ''epoch''
                                  else if h_Schema h > SchemaVersion then no Wait ''schema is newer than this app''
                                  else
                                    (case eng_key E s (h_Epoch h) of
                                       Inl e \<Rightarrow> Inl e
                                     | Inr None \<Rightarrow> no Wait ''key not available''
                                     | Inr (Some key) \<Rightarrow>
                                         (case fr_Open L f key (h_Nonce h) of
                                            Inl e \<Rightarrow> no Reject ''decrypt''
                                          | Inr plain \<Rightarrow> check_ops S L s f h (clock_epoch_of (v_ACL v) s) plain)))))))"

subsection \<open>Applying a segment\<close>

fun apply_ops :: "('s) schema_scheme \<Rightarrow> ('c) op_libs_scheme \<Rightarrow> scope \<Rightarrow> checked \<Rightarrow> op list \<Rightarrow> ('d) edb_scheme
    \<Rightarrow> sql_error + ('d) edb_scheme" where
  "apply_ops S L s c [] d = Inr d"
| "apply_ops S L s c (q # qs) d =
     (let ch = FromOp q (ck_clockEpoch c) (h_DeviceID (ck_hdr c)) in
      case Apply S ch d of
        Inl e \<Rightarrow> Inl e
      | Inr (res, d1) \<Rightarrow>
          (let d2 = (case res of Pending why \<Rightarrow> AddPending s ch why d1 | Written cols \<Rightarrow> d1) in
           apply_ops S L s c qs
             (addHistory L s (h_DeviceID (ck_hdr c)) (h_Seq (ck_hdr c)) (ck_clockEpoch c) q d2)))"

definition observe :: "eng \<Rightarrow> string \<Rightarrow> string \<Rightarrow> ('d) edb_scheme \<Rightarrow> eng_error + ('d) edb_scheme" where
  "observe E dev received d =
     (case hlc_parse received of
        None \<Rightarrow> Inl EngHlc
      | Some r \<Rightarrow>
          (case hlc_parse (w_hlc d) of
             None \<Rightarrow> Inl EngHlc
           | Some lst \<Rightarrow>
               (case clock_observe (n_now E) r \<lparr>last = lst\<rparr> of
                  (ok, c) \<Rightarrow>
                    if \<not> ok then
                      Inr (d\<lparr>e_warnings := AList.update dev
                             (case map_of (e_warnings d) dev of None \<Rightarrow> received | Some h \<Rightarrow> max h received) (e_warnings d)\<rparr>)
                    else if last c \<noteq> lst then Inr (d\<lparr>w_hlc := ts_string (last c)\<rparr>)
                    else Inr d)))"

definition eng_apply :: "eng \<Rightarrow> ('s) schema_scheme \<Rightarrow> ('c) op_libs_scheme \<Rightarrow> scope \<Rightarrow> checked \<Rightarrow> ('d) edb_scheme
    \<Rightarrow> eng_error + ('d) edb_scheme" where
  "eng_apply E S L s c d =
     (case apply_ops S L s c (ck_ops c) d of
        Inl e \<Rightarrow> Inl (EngSql e)
      | Inr d1 \<Rightarrow>
          (let d2 = Finish S d1;
               d3 = setPosition (h_DeviceID (ck_hdr c)) s (h_Seq (ck_hdr c)) (ck_hash c) StatusOK [] d2
           in case observe E (h_DeviceID (ck_hdr c)) (h_HLCMax (ck_hdr c)) d3 of
                Inl e \<Rightarrow> Inl e
              | Inr d4 \<Rightarrow> commit S d4))"

subsection \<open>Following a stream\<close>

text \<open>The segments up to a cutoff: present, and chaining to its hash.\<close>

function cutoff_loop :: "eng \<Rightarrow> ('c) libs_scheme \<Rightarrow> cutoff \<Rightarrow> (nat, string) gomap \<Rightarrow> nat \<Rightarrow> string
    \<Rightarrow> eng_error + (verdict \<times> string)" where
  "cutoff_loop E L c seqs q prev =
     (if q > c_Seq c then
        (if c_Hash c = None \<or> Some prev \<noteq> c_Hash c then Inr (Reject, ''stream does not end at the cutoff hash'')
         else Inr (Accept, []))
      else
        (case map_of seqs q of
           None \<Rightarrow> Inr (Wait, ''segment up to the cutoff missing'')
         | Some path \<Rightarrow>
             (case n_get E path of
                Inl e \<Rightarrow> if e = ErrNotExist then Inr (Wait, ''segment up to the cutoff missing'') else Inl (EngTransport e)
              | Inr raw \<Rightarrow>
                  (case seg_Parse raw of
                     Inl e \<Rightarrow> Inr (Reject, ''segment'')
                   | Inr f \<Rightarrow>
                       (case SegmentHeader L f of
                          Inl e \<Rightarrow> Inr (Reject, ''segment'')
                        | Inr h \<Rightarrow>
                            if \<not> prev_matches (h_Prev h) prev
                            then Inr (Reject, ''segment does not chain to the accepted prefix'')
                            else cutoff_loop E L c seqs (q + 1) (fr_Hash L f))))))"
  by pat_completeness auto
termination by (relation "measure (\<lambda>(E, L, c, seqs, q, prev). Suc (c_Seq c) - q)") auto

declare cutoff_loop.simps [simp del]

definition checkCutoffPrefix :: "eng \<Rightarrow> ('c) libs_scheme \<Rightarrow> position \<Rightarrow> cutoff \<Rightarrow> (nat, string) gomap
    \<Rightarrow> eng_error + (verdict \<times> string)" where
  "checkCutoffPrefix E L pos c seqs = cutoff_loop E L c seqs (ps_seq pos + 1) (ps_hash pos)"

lemma seqs_left: "map_of seqs (Suc q) = Some p \<Longrightarrow>
    card {x \<in> fst ` set seqs. x > Suc q} < card {x \<in> fst ` set seqs. x > (q :: nat)}"
proof (rule psubset_card_mono)
  assume "map_of seqs (Suc q) = Some p"
  then have "(Suc q, p) \<in> set seqs" by (rule map_of_SomeD)
  then have "Suc q \<in> fst ` set seqs" by force
  then have "Suc q \<in> {x \<in> fst ` set seqs. x > q} - {x \<in> fst ` set seqs. x > Suc q}" by simp
  then show "{x \<in> fst ` set seqs. x > Suc q} \<subset> {x \<in> fst ` set seqs. x > q}" by auto
qed simp

text \<open>
  The main loop. It gives an error that ends the sync, if there is one, the number of segments
  applied and the database.
\<close>

function stream_loop :: "eng \<Rightarrow> ('s) schema_scheme \<Rightarrow> ('c) seg_libs_scheme \<Rightarrow> version list \<Rightarrow> string \<Rightarrow> scope
    \<Rightarrow> (nat, string) gomap \<Rightarrow> cutoff option \<Rightarrow> position \<Rightarrow> nat \<Rightarrow> ('d) edb_scheme
    \<Rightarrow> eng_error option \<times> nat \<times> ('d) edb_scheme" where
  "stream_loop E S L chain dev s seqs lim pos n d =
     (let nxt = ps_seq pos + 1 in
      if (case lim of None \<Rightarrow> False | Some c \<Rightarrow> nxt > c_Seq c)
      then (None, n, setStatus dev s StatusOK 0 ''revoked; stream ends at its cutoff'' d)
      else
        (case map_of seqs nxt of
           None \<Rightarrow>
             if list_ex (\<lambda>(q, p). q > nxt) seqs then (None, n, setStatus dev s StatusWaiting (ps_failures pos) ''segment missing'' d)
             else if ps_status pos \<noteq> StatusOK \<or> ps_failures pos > 0 then (None, n, setStatus dev s StatusOK 0 [] d)
             else (None, n, d)
         | Some path \<Rightarrow>
             (case n_get E path of
                Inl e \<Rightarrow>
                  if e = ErrNotExist then (None, n, setStatus dev s StatusWaiting (ps_failures pos) ''segment vanished'' d)
                  else (Some (EngTransport e), n, d)
              | Inr raw \<Rightarrow>
                  (case eng_verify E S L chain dev s nxt (ps_hash pos) raw of
                     Inl e \<Rightarrow> (Some e, n, d)
                   | Inr c \<Rightarrow>
                       (case ck_verdict c of
                          Wait \<Rightarrow> (None, n, setStatus dev s StatusWaiting (ps_failures pos) (ck_reason c) d)
                        | Reject \<Rightarrow> (None, n, fail E dev s pos (ck_reason c) d)
                        | Fatal \<Rightarrow> (None, n, setStatus dev s StatusQuarantined (ps_failures pos) (ck_reason c) d)
                        | Accept \<Rightarrow>
                            (case eng_apply E S L s c d of
                               Inl e \<Rightarrow> (Some e, n, d)
                             | Inr d' \<Rightarrow>
                                 stream_loop E S L chain dev s seqs lim
                                   \<lparr>ps_seq = nxt, ps_hash = ck_hash c, ps_status = StatusOK, ps_failures = 0\<rparr> (n + 1) d'))))))"
  by pat_completeness auto
termination
  by (relation "measure (\<lambda>(E, S, L, chain, dev, s, seqs, lim, pos, n, d). card {x \<in> fst ` set seqs. x > ps_seq pos})")
    (auto intro: seqs_left simp: Let_def)

declare stream_loop.simps [simp del]

definition pullStream :: "eng \<Rightarrow> ('s) schema_scheme \<Rightarrow> ('c) seg_libs_scheme \<Rightarrow> version list \<Rightarrow> string \<Rightarrow> scope
    \<Rightarrow> (nat, string) gomap \<Rightarrow> ('d) edb_scheme \<Rightarrow> eng_error option \<times> nat \<times> ('d) edb_scheme" where
  "pullStream E S L chain dev s seqs d =
     (let head = v_ACL (List.last chain); pos = position_of d dev s;
          follow = (\<lambda>lim. if ps_status pos = StatusQuarantined then (None, 0, d)
                        else stream_loop E S L chain dev s seqs lim pos 0 d)
      in case acl_Device head dev of
           None \<Rightarrow> follow None
         | Some dv \<Rightarrow>
             if Active dv then follow None
             else
               (case map_of (gm_of (d_Cutoff dv)) s of
                  None \<Rightarrow>
                    if map_of seqs (ps_seq pos + 1) \<noteq> None
                    then (None, 0, setStatus dev s StatusQuarantined (ps_failures pos) ''revoked device without cutoff for this scope'' d)
                    else (None, 0, d)
                | Some c \<Rightarrow>
                    if ps_seq pos \<ge> c_Seq c then (None, 0, setStatus dev s StatusOK 0 ''revoked; stream ends at its cutoff'' d)
                    else if ps_status pos = StatusQuarantined then (None, 0, d)
                    else
                      (case checkCutoffPrefix E L pos c seqs of
                         Inl e \<Rightarrow> (Some e, 0, d)
                       | Inr (v, reason) \<Rightarrow>
                           (case v of
                              Wait \<Rightarrow> (None, 0, setStatus dev s StatusWaiting (ps_failures pos) reason d)
                            | Reject \<Rightarrow> (None, 0, fail E dev s pos reason d)
                            | _ \<Rightarrow> follow (Some c)))))"

subsection \<open>What an accepted segment is\<close>

lemma no_not_Accept: "no v reason = Inr c \<Longrightarrow> ck_verdict c = v"
  by (auto simp: no_def)

lemma first_error_ok: "first_error f xs = Inr () \<longleftrightarrow> list_all (\<lambda>x. f x = Inr ()) xs"
  by (induction xs) (auto split: sum.split)

lemma hlcs_ascend_iff: "hlcs_ascend ops \<longleftrightarrow> sorted_wrt (<) (map o_HLC ops)"
proof (induction ops rule: hlcs_ascend.induct)
  case (1 a b r)
  have "o_HLC b \<le> o_HLC a \<Longrightarrow> \<not> o_HLC a < o_HLC b" by simp
  then show ?case using 1 by (auto simp: sorted_wrt2 simp del: sorted_wrt.simps(2))
qed simp_all

text \<open>The record of an accepted segment, with the facts the rules of the protocol ask for.\<close>

definition ops_accepted :: "('s) schema_scheme \<Rightarrow> scope \<Rightarrow> header \<Rightarrow> op list \<Rightarrow> bool" where
  "ops_accepted S s h ops \<longleftrightarrow>
     ops \<noteq> [] \<and> list_all (\<lambda>q. Validate S s q = Inr ()) ops \<and> sorted_wrt (<) (map o_HLC ops)
     \<and> o_HLC (hd ops) = h_HLCMin h \<and> o_HLC (List.last ops) = h_HLCMax h"

lemma check_ops_Accept:
  assumes "check_ops S L s f h ce plain = Inr c" "ck_verdict c = Accept"
  shows "ck_hdr c = h \<and> ck_hash c = fr_Hash L f \<and> ck_clockEpoch c = ce \<and> ops_accepted S s h (ck_ops c)"
proof -
  obtain ops0 where o0: "DecodeOps L plain = Some ops0" "ops0 \<noteq> []"
    using assms by (auto simp: check_ops_def split: option.splits if_splits dest!: no_not_Accept)
  obtain ops where o1: "upcastOps (h_Schema h) ops0 = Some ops"
    using assms o0 by (auto simp: check_ops_def split: option.splits if_splits dest!: no_not_Accept)
  have v: "first_error (Validate S s) ops = Inr ()"
    using assms o0 o1 by (auto simp: check_ops_def split: sum.splits if_splits dest!: no_not_Accept)
  have rest: "c = \<lparr>ck_verdict = Accept, ck_reason = [], ck_hdr = h, ck_hash = fr_Hash L f, ck_ops = ops, ck_clockEpoch = ce\<rparr>
      \<and> ops \<noteq> [] \<and> o_HLC (hd ops) = h_HLCMin h \<and> o_HLC (List.last ops) = h_HLCMax h \<and> hlcs_ascend ops"
    using assms o0 o1 v by (auto simp: check_ops_def split: if_splits dest!: no_not_Accept)
  then show ?thesis using v by (auto simp: ops_accepted_def first_error_ok hlcs_ascend_iff)
qed

definition segment_accepted :: "eng \<Rightarrow> ('s) schema_scheme \<Rightarrow> ('c) seg_libs_scheme \<Rightarrow> version list \<Rightarrow> string \<Rightarrow> scope \<Rightarrow> nat
    \<Rightarrow> string \<Rightarrow> bytes \<Rightarrow> checked \<Rightarrow> bool" where
  "segment_accepted E S L chain dev s seq prevHash raw c \<longleftrightarrow>
     (let h = ck_hdr c; head = v_ACL (List.last chain) in
      h_DeviceID h = dev \<and> h_Scope h = s \<and> h_Seq h = seq \<and> h_ClubID h = n_club E \<and> prev_matches (h_Prev h) prevHash
      \<and> (\<exists>f d pub v. seg_Parse raw = Inr f \<and> SegmentHeader L f = Inr h \<and> ck_hash c = fr_Hash L f
           \<and> acl_Device head dev = Some d \<and> ParsePublicKey (d_SignPub d) = Some pub \<and> fr_Verify L f pub
           \<and> versionAt chain (h_ACLVersion h) = Some v \<and> h_ACLVersion h \<le> a_Version head
           \<and> CanWrite (acl_Perm (v_ACL v) dev s) \<and> h_Epoch h = epoch_of (v_ACL v) s
           \<and> ck_clockEpoch c = clock_epoch_of (v_ACL v) s)
      \<and> ops_accepted S s h (ck_ops c))"

lemma eng_verify_sound:
  assumes "eng_verify E S L chain dev s seq prevHash raw = Inr c" "ck_verdict c = Accept"
  shows "segment_accepted E S L chain dev s seq prevHash raw c"
proof -
  note no = no_not_Accept
  let ?head = "v_ACL (List.last chain)"
  have A: "eng_verify E S L chain dev s seq prevHash raw = Inr c" by fact
  obtain f where f: "seg_Parse raw = Inr f"
    using A assms(2) by (auto simp: eng_verify_def Let_def split: sum.splits dest!: no)
  obtain h where h: "SegmentHeader L f = Inr h"
    using A assms(2) f by (auto simp: eng_verify_def Let_def split: sum.splits dest!: no)
  have n1: "h_DeviceID h = dev" "h_Scope h = s" "h_Seq h = seq" "h_ClubID h = n_club E" "h_ACLVersion h \<le> a_Version ?head"
    using A assms(2) f h by (auto simp: eng_verify_def Let_def split: if_splits dest!: no)
  obtain d where d: "acl_Device ?head dev = Some d"
    using A assms(2) f h n1 by (auto simp: eng_verify_def Let_def split: if_splits option.splits dest!: no)
  obtain pub where pub: "ParsePublicKey (d_SignPub d) = Some pub"
    using A assms(2) f h n1 d by (auto simp: eng_verify_def Let_def split: if_splits option.splits dest!: no)
  have n2: "fr_Verify L f pub" "prev_matches (h_Prev h) prevHash"
    using A assms(2) f h n1 d pub by (auto simp: eng_verify_def Let_def split: if_splits dest!: no)
  obtain v where v: "versionAt chain (h_ACLVersion h) = Some v"
    using A assms(2) f h n1 d pub n2 by (auto simp: eng_verify_def Let_def split: if_splits option.splits dest!: no)
  have n3: "CanWrite (acl_Perm (v_ACL v) dev s)" "h_Epoch h = epoch_of (v_ACL v) s" "\<not> h_Schema h > SchemaVersion"
    using A assms(2) f h n1 d pub n2 v by (auto simp: eng_verify_def Let_def split: if_splits dest!: no)
  obtain key where key: "eng_key E s (h_Epoch h) = Inr (Some key)"
    using A assms(2) f h n1 d pub n2 v n3
    by (auto simp: eng_verify_def Let_def split: if_splits sum.splits option.splits dest!: no)
  obtain plain where plain: "fr_Open L f key (h_Nonce h) = Inr plain"
    using A assms(2) f h n1 d pub n2 v n3 key by (auto simp: eng_verify_def Let_def split: if_splits sum.splits dest!: no)
  have "check_ops S L s f h (clock_epoch_of (v_ACL v) s) plain = Inr c"
    using A f h n1 d pub n2 v n3 key plain by (auto simp: eng_verify_def Let_def split: if_splits)
  from check_ops_Accept [OF this assms(2)] show ?thesis
    using f h n1 d pub n2 v n3 unfolding segment_accepted_def Let_def by blast
qed

subsection \<open>What the replica leaves alone\<close>

text \<open>The state of the engine beside the tables, which the applier does not touch.\<close>

definition same_engine :: "('d) edb_scheme \<Rightarrow> ('d) edb_scheme \<Rightarrow> bool" where
  "same_engine d d' \<longleftrightarrow>
     e_streams d' = e_streams d \<and> e_history d' = e_history d \<and> e_warnings d' = e_warnings d
     \<and> e_uploads d' = e_uploads d \<and> e_bases d' = e_bases d \<and> w_outbox d' = w_outbox d \<and> w_hlc d' = w_hlc d
     \<and> w_epochs d' = w_epochs d \<and> w_next_seq d' = w_next_seq d"

lemma same_engine_refl [simp]: "same_engine d d"
  by (simp add: same_engine_def)

lemma same_engine_trans [trans]: "same_engine a b \<Longrightarrow> same_engine b c \<Longrightarrow> same_engine a c"
  by (simp add: same_engine_def)

lemma same_engine_updates [simp]:
  "same_engine d (put_row t k cells d)" "same_engine d (set_clock t k col cl d)" "same_engine d (AddPending s ch why d)"
  "same_engine d (d\<lparr>r_touched := x\<rparr>)" "same_engine d (d\<lparr>r_pending := y\<rparr>)" "same_engine d (d\<lparr>r_conflicts := z\<rparr>)"
  by (simp_all add: same_engine_def put_row_def set_clock_def AddPending_def)

lemma same_engine_fold: "(\<And>x d. same_engine d (f x d)) \<Longrightarrow> same_engine d (fold f xs d)"
  by (induction xs arbitrary: d) (auto intro: same_engine_trans)

lemma same_engine_Apply:
  fixes d :: "('d) edb_scheme"
  assumes "Apply S ch d = Inr (res, d')"
  shows "same_engine d d'"
proof -
  have row: "same_engine d d1" if "write_row m ch ex win d = Inr d1" for m ex win and d d1 :: "('d) edb_scheme"
    using that by (auto simp: write_row_def sql_insert_def sql_update_def Let_def split: if_splits option.splits)
  have upd: "same_engine d d1" if "setUpdatedAt S t pk k d = Inr d1" for t pk k and d d1 :: "('d) edb_scheme"
    using that by (auto simp: setUpdatedAt_def split: option.splits)
  have clocks: "same_engine d d1" if "write_clocks S m ch cols d = Inr d1" for m cols and d d1 :: "('d) edb_scheme"
  proof -
    have "same_engine d (fold (\<lambda>c. set_clock (ch_T ch) (EncodePK (ch_PK ch)) c (clockOf ch c)) cols d)"
      by (rule same_engine_fold) simp
    then show ?thesis using that upd by (auto simp: write_clocks_def Let_def split: if_splits intro: same_engine_trans)
  qed
  show ?thesis
  proof (cases "meta S (ch_T ch)")
    case (Some m)
    let ?ex = "row_at d (ch_T ch) (pkWhere (m_Table m) (ch_PK ch)) \<noteq> None" and ?win = "winners d ch"
    show ?thesis
    proof (cases "d' = d")
      case False
      then have run: "(case write_row m ch ?ex ?win d of Inl e \<Rightarrow> Inl e
          | Inr d1 \<Rightarrow> (case write_clocks S m ch (map fst (sort_key fst ?win)) d1 of Inl e \<Rightarrow> Inl e
            | Inr d3 \<Rightarrow> Inr (Written (map fst (sort_key fst ?win)), d3\<lparr>r_touched := (ch_T ch, EncodePK (ch_PK ch)) # r_touched d3\<rparr>)))
          = Inr (res, d')"
        using assms Some unfolding Apply_def Let_def by (auto split: if_splits)
      obtain d1 where d1: "write_row m ch ?ex ?win d = Inr d1"
        using run by (cases "write_row m ch ?ex ?win d") simp_all
      obtain d3 where d3: "write_clocks S m ch (map fst (sort_key fst ?win)) d1 = Inr d3"
        using run unfolding d1 by (cases "write_clocks S m ch (map fst (sort_key fst ?win)) d1") simp_all
      have "d' = d3\<lparr>r_touched := (ch_T ch, EncodePK (ch_PK ch)) # r_touched d3\<rparr>"
        using run by (simp only: d1 d3 sum.case sum.inject prod.inject)
      then show ?thesis using row [OF d1] clocks [OF d3] by (simp add: same_engine_def)
    qed simp
  qed (use assms in \<open>simp add: Apply_def\<close>)
qed

lemma same_engine_Finish: "same_engine d (Finish S d)"
proof -
  have "same_engine d (resolveUniqueValue S t col v d)" for t col v and d :: "('d) edb_scheme"
    by (simp add: resolveUniqueValue_def Let_def)
  then have "same_engine d (DetectUniqueConflicts S t pks d)" for t pks and d :: "('d) edb_scheme"
    by (auto simp: DetectUniqueConflicts_def split: option.split intro!: same_engine_fold)
  then have "same_engine d (fold (\<lambda>t. DetectUniqueConflicts S t (f t)) ts d)" for f ts
    by (intro same_engine_fold)
  then show ?thesis unfolding Finish_def Let_def by (simp add: same_engine_def)
qed

lemma apply_ops_streams:
  "apply_ops S L s c qs d = Inr d' \<Longrightarrow> e_streams d' = e_streams d \<and> w_hlc d' = w_hlc d"
proof (induction qs arbitrary: d)
  case (Cons q qs)
  let ?ch = "FromOp q (ck_clockEpoch c) (h_DeviceID (ck_hdr c))"
  obtain res d1 where d1: "Apply S ?ch d = Inr (res, d1)"
    using Cons.prems by (auto simp: Let_def split: sum.splits)
  let ?d2 = "case res of Pending why \<Rightarrow> AddPending s ?ch why d1 | Written cols \<Rightarrow> d1"
  have "same_engine d ?d2"
    using same_engine_Apply [OF d1] same_engine_trans [OF _ same_engine_updates(3)] by (cases res) auto
  then have "e_streams ?d2 = e_streams d \<and> w_hlc ?d2 = w_hlc d" by (simp add: same_engine_def)
  moreover have "e_streams (addHistory L s x y z q d) = e_streams d \<and> w_hlc (addHistory L s x y z q d) = w_hlc d"
    for x y z and d :: "('a) edb_scheme" by (simp add: addHistory_def Let_def)
  ultimately show ?case using Cons d1 by (simp add: Let_def)
qed simp

lemma eng_apply_streams:
  assumes "eng_apply E S L s c d = Inr d'"
  shows "e_streams d' = e_streams (setPosition (h_DeviceID (ck_hdr c)) s (h_Seq (ck_hdr c)) (ck_hash c) StatusOK [] d)"
proof -
  obtain d1 where d1: "apply_ops S L s c (ck_ops c) d = Inr d1"
    using assms by (auto simp: eng_apply_def split: sum.splits)
  let ?d3 = "setPosition (h_DeviceID (ck_hdr c)) s (h_Seq (ck_hdr c)) (ck_hash c) StatusOK [] (Finish S d1)"
  obtain d4 where d4: "observe E (h_DeviceID (ck_hdr c)) (h_HLCMax (ck_hdr c)) ?d3 = Inr d4" and c: "commit S d4 = Inr d'"
    using assms d1 by (auto simp: eng_apply_def Let_def split: sum.splits)
  have "e_streams d4 = e_streams ?d3"
    using d4 by (auto simp: observe_def split: option.splits prod.splits if_splits)
  moreover have "d' = d4" using c by (simp add: commit_def split: if_splits)
  moreover have "e_streams (Finish S d1) = e_streams d"
    using same_engine_Finish [of d1 S] apply_ops_streams [OF d1] by (simp add: same_engine_def)
  ultimately show ?thesis by (simp add: setPosition_def)
qed

subsection \<open>Following a stream, as steps\<close>

text \<open>
  The abstract stream: the accepted segments one after the other. Each is the next of the stream, is
  accepted under the rules against the hash of the one before it, and is applied.
\<close>

inductive follows :: "eng \<Rightarrow> ('s) schema_scheme \<Rightarrow> ('c) seg_libs_scheme \<Rightarrow> version list \<Rightarrow> string \<Rightarrow> scope
    \<Rightarrow> nat \<Rightarrow> string \<Rightarrow> ('d) edb_scheme \<Rightarrow> checked list \<Rightarrow> nat \<Rightarrow> string \<Rightarrow> ('d) edb_scheme \<Rightarrow> bool"
  for E S L chain dev s where
  stop: "follows E S L chain dev s q hash d [] q hash d"
| step: "n_get E path = Inr raw \<Longrightarrow> segment_accepted E S L chain dev s (Suc q) hash raw c \<Longrightarrow> eng_apply E S L s c d = Inr d1
    \<Longrightarrow> follows E S L chain dev s (Suc q) (ck_hash c) d1 cs q' hash' d' \<Longrightarrow> follows E S L chain dev s q hash d (c # cs) q' hash' d'"

inductive_cases follows_Nil: "follows E S L chain dev s q hash d [] q' hash' d'"
inductive_cases follows_Cons: "follows E S L chain dev s q hash d (c # cs) q' hash' d'"

lemma follows_seq: "follows E S L chain dev s q hash d cs q' hash' d' \<Longrightarrow> q' = q + length cs"
  by (induction rule: follows.induct) simp_all

lemma follows_position:
  "follows E S L chain dev s q hash d cs q' hash' d' \<Longrightarrow> cs \<noteq> [] \<Longrightarrow>
     position_of d' dev s = \<lparr>ps_seq = q', ps_hash = hash', ps_status = StatusOK, ps_failures = 0\<rparr>"
proof (induction rule: follows.induct)
  case (step path raw q hash c d d1 cs q' hash' d')
  show ?case
  proof (cases "cs = []")
    case True
    have "h_DeviceID (ck_hdr c) = dev" "h_Seq (ck_hdr c) = Suc q"
      using step(2) by (auto simp: segment_accepted_def Let_def)
    then have "position_of d1 dev s = \<lparr>ps_seq = Suc q, ps_hash = ck_hash c, ps_status = StatusOK, ps_failures = 0\<rparr>"
      using eng_apply_streams [OF step(3)] by (simp add: position_of_def setPosition_def update_conv')
    then show ?thesis using step(4) True by (auto elim: follows_Nil)
  qed (use step in simp)
qed simp

text \<open>What happens to the stream after its last accepted segment: at most a new status.\<close>

definition status_only :: "string \<Rightarrow> scope \<Rightarrow> ('d) edb_scheme \<Rightarrow> ('d) edb_scheme \<Rightarrow> bool" where
  "status_only dev s d d' \<longleftrightarrow> d' = d \<or> (\<exists>status failures detail. d' = setStatus dev s status failures detail d)"

lemma status_only_fail [simp]: "status_only dev s d (fail E dev s pos reason d)"
  by (auto simp: status_only_def fail_def Let_def)

lemma status_only_simps [simp]: "status_only dev s d d" "status_only dev s d (setStatus dev s st f x d)"
  by (auto simp: status_only_def)

lemma stream_loop_follows:
  "stream_loop E S L chain dev s seqs lim pos n d = (err, n', d') \<Longrightarrow>
     \<exists>cs q hash d1. follows E S L chain dev s (ps_seq pos) (ps_hash pos) d cs q hash d1 \<and> n' = n + length cs
       \<and> status_only dev s d1 d' \<and> (case lim of None \<Rightarrow> True | Some c \<Rightarrow> q \<le> max (ps_seq pos) (c_Seq c))"
proof (induction E S L chain dev s seqs lim pos n d rule: stream_loop.induct)
  case (1 E S L chain dev s seqs lim pos n d)
  note IH = 1(1) and prem = 1(2)
  let ?nxt = "ps_seq pos + 1"
  have here: ?case if "n' = n" "status_only dev s d d'"
    using that follows.stop [of E S L chain dev s "ps_seq pos" "ps_hash pos" d]
    by (intro exI [of _ "[]"] exI [of _ "ps_seq pos"] exI [of _ "ps_hash pos"] exI [of _ d]) (auto split: option.split)
  show ?case
  proof (cases "case lim of None \<Rightarrow> False | Some c \<Rightarrow> ?nxt > c_Seq c")
    case True
    then show ?thesis using prem here by (subst (asm) stream_loop.simps) (auto simp: Let_def simp del: One_nat_def)
  next
    case in_lim: False
    show ?thesis
    proof (cases "map_of seqs ?nxt")
      case None
      then show ?thesis using prem in_lim here
        by (subst (asm) stream_loop.simps) (auto simp: Let_def simp del: One_nat_def split: if_splits)
    next
      case (Some path)
      show ?thesis
      proof (cases "n_get E path")
        case (Inl e)
        then show ?thesis using prem in_lim Some here
          by (subst (asm) stream_loop.simps) (auto simp: Let_def simp del: One_nat_def split: if_splits)
      next
        case (Inr raw)
        show ?thesis
        proof (cases "eng_verify E S L chain dev s ?nxt (ps_hash pos) raw")
          case (Inl e)
          then show ?thesis using prem in_lim Some Inr here
            by (subst (asm) stream_loop.simps) (auto simp: Let_def simp del: One_nat_def)
        next
          case ver: (Inr c)
          show ?thesis
          proof (cases "ck_verdict c = Accept")
            case False
            then show ?thesis using prem in_lim Some Inr ver here
              by (subst (asm) stream_loop.simps) (cases "ck_verdict c"; auto simp: Let_def simp del: One_nat_def)
          next
            case acc: True
            show ?thesis
            proof (cases "eng_apply E S L s c d")
              case (Inl e)
              then show ?thesis using prem in_lim Some Inr ver acc here
                by (subst (asm) stream_loop.simps) (auto simp: Let_def simp del: One_nat_def)
            next
              case app: (Inr d1)
              let ?pos = "\<lparr>ps_seq = ?nxt, ps_hash = ck_hash c, ps_status = StatusOK, ps_failures = 0\<rparr>"
              have "stream_loop E S L chain dev s seqs lim ?pos (n + 1) d1 = (err, n', d')"
                using prem in_lim Some Inr ver acc app by (subst (asm) stream_loop.simps) (simp add: Let_def del: One_nat_def)
              from IH [OF refl in_lim Some Inr ver acc app this]
              obtain cs q hash d2 where f: "follows E S L chain dev s ?nxt (ck_hash c) d1 cs q hash d2" "n' = n + 1 + length cs"
                  "status_only dev s d2 d'" "case lim of None \<Rightarrow> True | Some c \<Rightarrow> q \<le> max (ps_seq ?pos) (c_Seq c)"
                unfolding position.simps by blast
              have "segment_accepted E S L chain dev s (Suc (ps_seq pos)) (ps_hash pos) raw c"
                using eng_verify_sound [OF ver acc] by simp
              from follows.step [OF Inr this app] f(1)
              have "follows E S L chain dev s (ps_seq pos) (ps_hash pos) d (c # cs) q hash d2" by simp
              moreover have "case lim of None \<Rightarrow> True | Some c \<Rightarrow> q \<le> max (ps_seq pos) (c_Seq c)"
                using f(4) in_lim by (cases lim) auto
              ultimately show ?thesis using f(2,3) by (intro exI [of _ "c # cs"] exI [of _ q] exI [of _ hash] exI [of _ d2]) auto
            qed
          qed
        qed
      qed
    qed
  qed
qed

text \<open>
  C6. \<open>pullStream\<close> takes a stream only forward, one accepted segment after the other: every segment it
  applies is the next of its stream, signed by the device's key of the accepted ACL, written with
  write permission in the ACL version it names, chained to the segment before it and with valid
  ops in ascending order. Beyond that it sets at most the status of the stream. A revoked device gets no further
  than its cutoff, and nowhere in a scope without one.
\<close>

theorem pullStream_follows:
  "case pullStream E S L chain dev s seqs d of (err, n, d') \<Rightarrow>
     \<exists>cs q hash d1.
       follows E S L chain dev s (ps_seq (position_of d dev s)) (ps_hash (position_of d dev s)) d cs q hash d1
       \<and> n = length cs \<and> status_only dev s d1 d'
       \<and> (case acl_Device (v_ACL (List.last chain)) dev of
            None \<Rightarrow> True
          | Some dv \<Rightarrow>
              if Active dv then True
              else (case map_of (gm_of (d_Cutoff dv)) s of
                      None \<Rightarrow> cs = []
                    | Some c \<Rightarrow> q \<le> max (ps_seq (position_of d dev s)) (c_Seq c)))"
proof -
  let ?p = "position_of d dev s"
  obtain err n d' where r: "pullStream E S L chain dev s seqs d = (err, n, d')" using prod_cases3 by blast
  have here: "follows E S L chain dev s (ps_seq ?p) (ps_hash ?p) d [] (ps_seq ?p) (ps_hash ?p) d" by (rule follows.stop)
  have loop: "\<exists>cs q hash d1. follows E S L chain dev s (ps_seq ?p) (ps_hash ?p) d cs q hash d1 \<and> n = length cs
       \<and> status_only dev s d1 d' \<and> (case lim of None \<Rightarrow> True | Some c \<Rightarrow> q \<le> max (ps_seq ?p) (c_Seq c))"
    if "(if ps_status ?p = StatusQuarantined then (None, 0, d) else stream_loop E S L chain dev s seqs lim ?p 0 d) = (err, n, d')" for lim
  proof (cases "ps_status ?p = StatusQuarantined")
    case True
    then show ?thesis using that here by (intro exI conjI) (auto split: option.split)
  next
    case False
    then show ?thesis using that stream_loop_follows [of E S L chain dev s seqs lim ?p 0 d err n d'] by auto
  qed
  have stay: "\<exists>cs q hash d1. follows E S L chain dev s (ps_seq ?p) (ps_hash ?p) d cs q hash d1
       \<and> n = length cs \<and> status_only dev s d1 d' \<and> cs = [] \<and> q = ps_seq ?p" if a: "n = 0" and b: "status_only dev s d d'"
    by (intro exI conjI, rule here) (use a b in simp_all)
  show ?thesis
  proof (cases "acl_Device (v_ACL (List.last chain)) dev")
    case None
    then show ?thesis using loop [of None] r by (simp add: pullStream_def Let_def)
  next
    case (Some dv)
    show ?thesis
    proof (cases "Active dv")
      case True
      then show ?thesis using Some loop [of None] r by (simp add: pullStream_def Let_def)
    next
      case revoked: False
      show ?thesis
      proof (cases "map_of (gm_of (d_Cutoff dv)) s")
        case None
        then have "n = 0" "status_only dev s d d'"
          using r Some revoked by (auto simp: pullStream_def Let_def split: if_splits)
        then show ?thesis using stay Some revoked None r by auto
      next
        case (Some c)
        note dv = \<open>acl_Device (v_ACL (List.last chain)) dev = Some dv\<close>
        have "(n = 0 \<and> status_only dev s d d') \<or>
            (if ps_status ?p = StatusQuarantined then (None, 0, d) else stream_loop E S L chain dev s seqs (Some c) ?p 0 d) = (err, n, d')"
          using r dv revoked Some
          by (auto simp: pullStream_def Let_def split: if_splits sum.splits prod.splits verdict.splits)
        then show ?thesis
        proof
          assume "n = 0 \<and> status_only dev s d d'"
          then show ?thesis using stay dv revoked Some r by (auto simp: max_def)
        next
          assume "(if ps_status ?p = StatusQuarantined then (None, 0, d)
              else stream_loop E S L chain dev s seqs (Some c) ?p 0 d) = (err, n, d')"
          from loop [OF this] show ?thesis using dv revoked Some r by auto
        qed
      qed
    qed
  qed
qed

end
