(* ===== verification/Sync.thy ===== *)
theory Sync
  imports Engine
begin

text \<open>
  The rounds of the engine (\<open>server/internal/sync/engine/flush.go\<close>, \<open>snapshot.go\<close> and the rest of
  \<open>pull.go\<close>, \<open>engine.go\<close>): writing the outbox into segments, starting a scope from a snapshot,
  following all streams, and rebuilding scopes after a revocation.

  A transaction is a function on the database whose error leaves the database as it was. What a
  round has committed before an error stays; such a step gives the error, if there is one, beside
  the report and the database.
\<close>

record report =
  rp_Written :: nat
  rp_Uploaded :: nat
  rp_Applied :: nat
  rp_Loaded :: "scope list"
  rp_Rebuilt :: "scope list"
  rp_Incomplete :: "scope list"
  rp_Unwritten :: nat
  rp_Outdated :: bool
  rp_Upload :: "upload_result option"

definition zero_report :: report where
  "zero_report = \<lparr>rp_Written = 0, rp_Uploaded = 0, rp_Applied = 0, rp_Loaded = [], rp_Rebuilt = [],
     rp_Incomplete = [], rp_Unwritten = 0, rp_Outdated = False, rp_Upload = None\<rparr>"

subsection \<open>The outbox\<close>

record out_entry =
  oe_id :: nat
  oe_scope :: scope
  oe_epoch :: nat
  oe_op :: op
  oe_raw :: bytes

definition decodeOp :: "('c) op_libs_scheme \<Rightarrow> bytes \<Rightarrow> op option" where
  "decodeOp L raw =
     (case DecodeOps L (''['' @ raw @ '']'') of
        None \<Rightarrow> None
      | Some ops \<Rightarrow> (case ops of [q] \<Rightarrow> Some q | _ \<Rightarrow> None))"

fun read_entries :: "('c) op_libs_scheme \<Rightarrow> outbox_entry list \<Rightarrow> eng_error + out_entry list" where
  "read_entries L [] = Inr []"
| "read_entries L (e # es) =
     (case decodeOp L (ob_raw e) of
        None \<Rightarrow> Inl EngOutbox
      | Some q \<Rightarrow>
          (case read_entries L es of
             Inl x \<Rightarrow> Inl x
           | Inr rest \<Rightarrow>
               Inr (\<lparr>oe_id = ob_seq e, oe_scope = ob_scope e, oe_epoch = ob_epoch e, oe_op = q, oe_raw = ob_raw e\<rparr> # rest)))"

definition readOutbox :: "('c) op_libs_scheme \<Rightarrow> ('d) wdb_scheme \<Rightarrow> eng_error + out_entry list" where
  "readOutbox L d = read_entries L (sort_key ob_seq (w_outbox d))"

record batch =
  bt_scope :: scope
  bt_version :: "version option"
  bt_key :: "bytes option"
  bt_entries :: "out_entry list"

fun writable_from :: "version list \<Rightarrow> string \<Rightarrow> scope \<Rightarrow> nat \<Rightarrow> version option" where
  "writable_from [] self s ce = None"
| "writable_from (v # vs) self s ce =
     (if clock_epoch_of (v_ACL v) s = ce \<and> CanWrite (acl_Perm (v_ACL v) self s) then Some v else writable_from vs self s ce)"

definition writableVersion :: "version list \<Rightarrow> string \<Rightarrow> scope \<Rightarrow> nat \<Rightarrow> version option" where
  "writableVersion chain self s ce = writable_from (rev chain) self s ce"

text \<open>The groups of entries with the same scope and clock epoch, in the order they first occur.\<close>

definition group_keys :: "out_entry list \<Rightarrow> (scope \<times> nat) list" where
  "group_keys es = rev (remdups (rev (map (\<lambda>e. (oe_scope e, oe_epoch e)) es)))"

fun make_batches :: "eng \<Rightarrow> version list \<Rightarrow> out_entry list \<Rightarrow> (scope \<times> nat) list \<Rightarrow> eng_error + batch list" where
  "make_batches E chain es [] = Inr []"
| "make_batches E chain es ((s, ce) # ks) =
     (let v = writableVersion chain (n_self E) s ce;
          key = (case v of None \<Rightarrow> Inr None | Some v \<Rightarrow> eng_key E s (epoch_of (v_ACL v) s))
      in case key of
           Inl e \<Rightarrow> Inl e
         | Inr k \<Rightarrow>
             (case make_batches E chain es ks of
                Inl e \<Rightarrow> Inl e
              | Inr bs \<Rightarrow>
                  Inr (\<lparr>bt_scope = s, bt_version = v, bt_key = k,
                        bt_entries = filter (\<lambda>e. oe_scope e = s \<and> oe_epoch e = ce) es\<rparr> # bs)))"

text \<open>The entries of the next segment, and the rest.\<close>

fun take_chunk :: "nat \<Rightarrow> bool \<Rightarrow> out_entry list \<Rightarrow> out_entry list \<times> out_entry list" where
  "take_chunk sz started [] = ([], [])"
| "take_chunk sz started (e # es) =
     (if \<not> started \<or> sz + length (oe_raw e) + 1 \<le> maxSegmentPlain then
        (case take_chunk (sz + length (oe_raw e) + 1) True es of (c, r) \<Rightarrow> (e # c, r))
      else ([], e # es))"

text \<open>An op that went into a segment moves from the outbox to the history.\<close>

definition archive_entry :: "('c) op_libs_scheme \<Rightarrow> scope \<Rightarrow> string \<Rightarrow> nat \<Rightarrow> nat \<Rightarrow> out_entry \<Rightarrow> ('d) edb_scheme \<Rightarrow> ('d) edb_scheme" where
  "archive_entry L s dev seq ce en d =
     (let d' = addHistory L s dev seq ce (oe_op en) d in
      d'\<lparr>w_outbox := filter (\<lambda>o'. ob_seq o' \<noteq> oe_id en) (w_outbox d')\<rparr>)"

definition write_segment :: "eng \<Rightarrow> ('c) seg_libs_scheme \<Rightarrow> scope \<Rightarrow> version \<Rightarrow> bytes \<Rightarrow> nat \<Rightarrow> string option
    \<Rightarrow> out_entry list \<Rightarrow> ('d) edb_scheme \<Rightarrow> eng_error + (string \<times> ('d) edb_scheme)" where
  "write_segment E L s v key seq prev chunk d =
     (let ops = map oe_op chunk;
          nonce = NewNonce (n_random E s seq);
          hdr = \<lparr>h_ClubID = n_club E, h_DeviceID = n_self E, h_Scope = s, h_Seq = seq, h_Prev = prev,
                 h_Epoch = epoch_of (v_ACL v) s, h_ACLVersion = a_Version (v_ACL v), h_Schema = SchemaVersion,
                 h_Nonce = nonce, h_HLCMin = o_HLC (hd ops), h_HLCMax = o_HLC (List.last ops)\<rparr>
      in case Seal L (header_json hdr) nonce (EncodeOps L ops) key (n_sign E) of
           Inl e \<Rightarrow> Inl (EngSeal e)
         | Inr data \<Rightarrow>
             (let hash = Hash L data in
              case QueueUpload (SegmentPath (n_self E) s seq) data d of
                None \<Rightarrow> Inl EngQueued
              | Some d1 \<Rightarrow>
                  (let d2 = setPosition (n_self E) s seq hash StatusOK [] d1;
                       d3 = fold (archive_entry L s (n_self E) seq (clock_epoch_of (v_ACL v) s)) chunk d2
                   in Inr (hash, d3))))"

lemma take_chunk_append: "take_chunk sz started es = (c, r) \<Longrightarrow> es = c @ r"
  by (induction es arbitrary: sz started c r) (auto split: if_splits prod.splits)

lemma take_chunk_nonempty: "take_chunk sz False (e # es) = (c, r) \<Longrightarrow> c \<noteq> []"
  by (auto split: prod.splits)

function write_chunks :: "eng \<Rightarrow> ('c) seg_libs_scheme \<Rightarrow> scope \<Rightarrow> version \<Rightarrow> bytes \<Rightarrow> nat \<Rightarrow> string option
    \<Rightarrow> out_entry list \<Rightarrow> nat \<Rightarrow> ('d) edb_scheme \<Rightarrow> eng_error + (nat \<times> ('d) edb_scheme)" where
  "write_chunks E L s v key seq prev es n d =
     (if es = [] then Inr (n, d)
      else
        (let (chunk, rest) = take_chunk 2 False es in
         case write_segment E L s v key (seq + 1) prev chunk d of
           Inl e \<Rightarrow> Inl e
         | Inr (hash, d') \<Rightarrow> write_chunks E L s v key (seq + 1) (Some hash) rest (n + 1) d'))"
  by pat_completeness auto
termination
proof (relation "measure (\<lambda>(E, L, s, v, key, seq, prev, es, n, d). length es)", simp, goal_cases)
  case (1 E L s v key seq prev es n d x chunk rest b hash d')
  then obtain e es' where es: "es = e # es'" by (cases es) auto
  have "take_chunk 2 False es = (chunk, rest)" using 1 by simp
  then have "es = chunk @ rest" "chunk \<noteq> []" using take_chunk_append take_chunk_nonempty es by blast+
  then show ?case by simp
qed

declare write_chunks.simps [simp del]

definition writeBatch :: "eng \<Rightarrow> ('c) seg_libs_scheme \<Rightarrow> scope \<Rightarrow> version \<Rightarrow> bytes \<Rightarrow> out_entry list \<Rightarrow> ('d) edb_scheme
    \<Rightarrow> eng_error + (nat \<times> ('d) edb_scheme)" where
  "writeBatch E L s v key es d =
     (let entries = sort_key (\<lambda>e. o_HLC (oe_op e)) es;
          (seq, prev) = (case map_of (e_streams d) (n_self E, s) of None \<Rightarrow> (0, None) | Some st \<Rightarrow> (st_seq st, st_hash st))
      in write_chunks E L s v key seq prev entries 0 d)"

text \<open>The transaction of \<open>flush\<close>: the batches of each scope, with the numbers written and not writable.\<close>

fun write_batches :: "eng \<Rightarrow> ('c) seg_libs_scheme \<Rightarrow> acl \<Rightarrow> batch list \<Rightarrow> nat \<Rightarrow> nat \<Rightarrow> ('d) edb_scheme
    \<Rightarrow> eng_error + (nat \<times> nat \<times> ('d) edb_scheme)" where
  "write_batches E L head [] w u d = Inr (w, u, d)"
| "write_batches E L head (b # bs) w u d =
     (case (bt_version b, bt_key b) of
        (Some v, Some key) \<Rightarrow>
          if \<not> CanWrite (acl_Perm head (n_self E) (bt_scope b))
          then write_batches E L head bs w (u + length (bt_entries b)) d
          else
            (case writeBatch E L (bt_scope b) v key (bt_entries b) d of
               Inl e \<Rightarrow> Inl e
             | Inr (n, d') \<Rightarrow> write_batches E L head bs (w + n) u d')
      | _ \<Rightarrow> write_batches E L head bs w (u + length (bt_entries b)) d)"

definition flush :: "eng \<Rightarrow> ('s) schema_scheme \<Rightarrow> ('c) seg_libs_scheme \<Rightarrow> version list \<Rightarrow> report \<Rightarrow> ('d) edb_scheme
    \<Rightarrow> eng_error + (report \<times> ('d) edb_scheme)" where
  "flush E S L chain rep d =
     (let head = v_ACL (List.last chain) in
      case readOutbox L d of
        Inl e \<Rightarrow> Inl e
      | Inr entries \<Rightarrow>
          if entries = [] then Inr (rep, d)
          else if a_MinSchema head > SchemaVersion then Inr (rep\<lparr>rp_Outdated := True, rp_Unwritten := length entries\<rparr>, d)
          else
            (case make_batches E chain entries (group_keys entries) of
               Inl e \<Rightarrow> Inl e
             | Inr batches \<Rightarrow>
                 (let ordered = concat (map (\<lambda>s. filter (\<lambda>b. bt_scope b = s) batches) Scopes) in
                  case write_batches E L head ordered 0 (rp_Unwritten rep) d of
                    Inl e \<Rightarrow> Inl e
                  | Inr (w, u, d1) \<Rightarrow>
                      (case commit S d1 of
                         Inl e \<Rightarrow> Inl e
                       | Inr d2 \<Rightarrow> Inr (rep\<lparr>rp_Unwritten := u, rp_Written := rp_Written rep + w\<rparr>, d2)))))"

subsection \<open>Snapshots a scope starts from\<close>

record base =
  bs_path :: string
  bs_hash :: string
  bs_hdr :: snapshot_header
  bs_state :: snapshot

definition hasBase :: "('d) sdb_scheme \<Rightarrow> scope \<Rightarrow> bool" where
  "hasBase d s \<longleftrightarrow> map_of (e_bases d) s \<noteq> None"

text \<open>One frontier of a snapshot: usable, not usable, or an error of the transport.\<close>

definition frontier_usable :: "eng \<Rightarrow> ('c) crypto_scheme \<Rightarrow> acl \<Rightarrow> scope \<Rightarrow> string \<times> frontier \<Rightarrow> eng_error + bool" where
  "frontier_usable E C head s df =
     (case acl_Device head (fst df) of
        None \<Rightarrow> Inr False
      | Some dev \<Rightarrow>
          (let fr = snd df in
           if \<not> Active dev \<and> ft_Seq fr > 0
              \<and> (case map_of (gm_of (d_Cutoff dev)) s of
                   None \<Rightarrow> True
                 | Some c \<Rightarrow> ft_Seq fr > c_Seq c \<or> (ft_Seq fr = c_Seq c \<and> c_Hash c \<noteq> ft_Hash fr))
           then Inr False
           else if ft_Seq fr > 0 then
             (case n_get E (SegmentPath (fst df) s (ft_Seq fr)) of
                Inr seg \<Rightarrow> if Some (Hash C seg) \<noteq> ft_Hash fr then Inr False else Inr True
              | Inl e \<Rightarrow> if e \<noteq> ErrNotExist then Inl (EngTransport e) else Inr True)
           else Inr True))"

fun all_usable :: "('a \<Rightarrow> eng_error + bool) \<Rightarrow> 'a list \<Rightarrow> eng_error + bool" where
  "all_usable f [] = Inr True"
| "all_usable f (x # xs) =
     (case f x of Inl e \<Rightarrow> Inl e | Inr ok \<Rightarrow> if ok then all_usable f xs else Inr False)"

definition verifySnapshot :: "eng \<Rightarrow> ('s) schema_scheme \<Rightarrow> ('c) seg_libs_scheme \<Rightarrow> version list \<Rightarrow> entry \<Rightarrow> bytes
    \<Rightarrow> eng_error + base option" where
  "verifySnapshot E S L chain en raw =
     (let head = v_ACL (List.last chain) in
      case seg_Parse raw of
        Inl e \<Rightarrow> Inr None
      | Inr f \<Rightarrow>
          (case SnapshotHeader L f of
             Inl e \<Rightarrow> Inr None
           | Inr h \<Rightarrow>
               if sh_Scope h \<noteq> e_scope en \<or> sh_Epoch h \<noteq> e_epoch en \<or> sh_HLC h \<noteq> e_hlc en \<or> sh_DeviceID h \<noteq> e_device en
                  \<or> sh_ClubID h \<noteq> n_club E
               then Inr None
               else
                 (case versionAt chain (sh_ACLVersion h) of
                    None \<Rightarrow> Inr None
                  | Some v \<Rightarrow>
                      if \<not> list_all (\<lambda>a. IsAdmin a (sh_DeviceID h) \<and> CanRead (acl_Perm a (sh_DeviceID h) (sh_Scope h))) [v_ACL v, head]
                      then Inr None
                      else
                        (case acl_Device head (sh_DeviceID h) of
                           None \<Rightarrow> Inl EngPanic
                         | Some author \<Rightarrow>
                             (case ParsePublicKey (d_SignPub author) of
                                None \<Rightarrow> Inr None
                              | Some pub \<Rightarrow>
                                  if \<not> fr_Verify L f pub then Inr None
                                  else if sh_Schema h > SchemaVersion \<or> sh_Epoch h \<noteq> epoch_of (v_ACL v) (sh_Scope h) then Inr None
                                  else
                                    (case all_usable (frontier_usable E L head (sh_Scope h)) (gm_entries (gm_of (sh_Streams h))) of
                                       Inl e \<Rightarrow> Inl e
                                     | Inr ok \<Rightarrow>
                                         if \<not> ok then Inr None
                                         else
                                           (case eng_key E (sh_Scope h) (sh_Epoch h) of
                                              Inl e \<Rightarrow> Inl e
                                            | Inr None \<Rightarrow> Inr None
                                            | Inr (Some key) \<Rightarrow>
                                                (case fr_Open L f key (sh_Nonce h) of
                                                   Inl e \<Rightarrow> Inr None
                                                 | Inr plain \<Rightarrow>
                                                     (case DecodeSnapshot S L (sh_Scope h) plain of
                                                        Inl e \<Rightarrow> Inr None
                                                      | Inr state \<Rightarrow>
                                                          Inr (Some \<lparr>bs_path = [], bs_hash = fr_Hash L f, bs_hdr = h, bs_state = state\<rparr>))))))))))"

fun first_base :: "eng \<Rightarrow> ('s) schema_scheme \<Rightarrow> ('c) seg_libs_scheme \<Rightarrow> version list \<Rightarrow> (string \<times> entry) list
    \<Rightarrow> eng_error + base option" where
  "first_base E S L chain [] = Inr None"
| "first_base E S L chain ((path, en) # cs) =
     (case n_get E path of
        Inl e \<Rightarrow> if e = ErrNotExist then first_base E S L chain cs else Inl (EngTransport e)
      | Inr raw \<Rightarrow>
          (case verifySnapshot E S L chain en raw of
             Inl e \<Rightarrow> Inl e
           | Inr None \<Rightarrow> first_base E S L chain cs
           | Inr (Some b) \<Rightarrow> Inr (Some (b\<lparr>bs_path := path\<rparr>))))"

definition findSnapshot :: "eng \<Rightarrow> ('s) schema_scheme \<Rightarrow> ('c) seg_libs_scheme \<Rightarrow> version list \<Rightarrow> scope
    \<Rightarrow> eng_error + base option" where
  "findSnapshot E S L chain s =
     (case n_list E (''snapshots/'' @ s @ ''/'') of
        Inl e \<Rightarrow> Inl (EngTransport e)
      | Inr paths \<Rightarrow>
          first_base E S L chain
            (sort_key (\<lambda>(p, en). (e_hlc en, p))
              (List.map_filter (\<lambda>p.
                 case layout_parse p of
                   None \<Rightarrow> None
                 | Some en \<Rightarrow> if e_kind en = KindSnapshot \<and> e_scope en = s then Some (p, en) else None) paths)))"

definition new_applier :: "('d) rdb_scheme \<Rightarrow> ('d) rdb_scheme" where
  "new_applier d = d\<lparr>r_touched := []\<rparr>"

definition loadBase :: "eng \<Rightarrow> ('s) schema_scheme \<Rightarrow> scope \<Rightarrow> base \<Rightarrow> ('d) edb_scheme \<Rightarrow> eng_error + ('d) edb_scheme" where
  "loadBase E S s b d =
     (case Load S s (bs_state b) (new_applier d) of
        Inl e \<Rightarrow> Inl (EngSql e)
      | Inr d1 \<Rightarrow>
          (let d2 = fold (\<lambda>(dev, fr) d.
                 if dev = n_self E \<or> ft_Seq fr = 0 then d
                 else setPosition dev s (ft_Seq fr) (case ft_Hash fr of None \<Rightarrow> [] | Some h \<Rightarrow> h) StatusOK [] d)
                 (gm_entries (gm_of (sh_Streams (bs_hdr b)))) d1;
               d3 = SetBase s (bs_path b) (bs_hash b) d2
           in case RetryPending S (Some [s]) d3 of
                Inl e \<Rightarrow> Inl (EngSql e)
              | Inr (n, d4) \<Rightarrow> Inr (Finish S d4)))"

definition ensureBase :: "eng \<Rightarrow> ('s) schema_scheme \<Rightarrow> ('c) seg_libs_scheme \<Rightarrow> version list \<Rightarrow> scope \<Rightarrow> report \<Rightarrow> ('d) edb_scheme
    \<Rightarrow> eng_error + (bool \<times> report \<times> ('d) edb_scheme)" where
  "ensureBase E S L chain s rep d =
     (if hasBase d s then Inr (True, rep, d)
      else
        (case findSnapshot E S L chain s of
           Inl e \<Rightarrow> Inl e
         | Inr None \<Rightarrow> Inr (False, rep, d)
         | Inr (Some b) \<Rightarrow>
             (case loadBase E S s b d of
                Inl e \<Rightarrow> Inl e
              | Inr d1 \<Rightarrow>
                  (case commit S d1 of
                     Inl e \<Rightarrow> Inl e
                   | Inr d2 \<Rightarrow> Inr (True, rep\<lparr>rp_Loaded := rp_Loaded rep @ [s]\<rparr>, d2)))))"

subsection \<open>Following all streams\<close>

fun pull_devices :: "eng \<Rightarrow> ('s) schema_scheme \<Rightarrow> ('c) seg_libs_scheme \<Rightarrow> version list \<Rightarrow> (string \<times> scope \<times> nat \<times> string) list
    \<Rightarrow> scope \<Rightarrow> string list \<Rightarrow> report \<Rightarrow> ('d) edb_scheme \<Rightarrow> eng_error option \<times> report \<times> ('d) edb_scheme" where
  "pull_devices E S L chain files s [] rep d = (None, rep, d)"
| "pull_devices E S L chain files s (dev # devs) rep d =
     (case pullStream E S L chain dev s (seqs_of files dev s) d of
        (err, n, d') \<Rightarrow>
          (let rep' = rep\<lparr>rp_Applied := rp_Applied rep + n\<rparr> in
           case err of
             Some e \<Rightarrow> (Some e, rep', d')
           | None \<Rightarrow> pull_devices E S L chain files s devs rep' d'))"

definition devices_in :: "eng \<Rightarrow> (string \<times> scope \<times> nat \<times> string) list \<Rightarrow> scope \<Rightarrow> string list" where
  "devices_in E files s =
     sort (remdups (map fst (filter (\<lambda>(dev, s', q, p). dev \<noteq> n_self E \<and> s' = s) files)))"

fun pull_scopes :: "eng \<Rightarrow> ('s) schema_scheme \<Rightarrow> ('c) seg_libs_scheme \<Rightarrow> version list \<Rightarrow> (string \<times> scope \<times> nat \<times> string) list
    \<Rightarrow> scope list \<Rightarrow> scope list \<Rightarrow> report \<Rightarrow> ('d) edb_scheme \<Rightarrow> eng_error option \<times> scope list \<times> report \<times> ('d) edb_scheme" where
  "pull_scopes E S L chain files [] ready rep d = (None, ready, rep, d)"
| "pull_scopes E S L chain files (s # ss) ready rep d =
     (case ensureBase E S L chain s rep d of
        Inl e \<Rightarrow> (Some e, ready, rep, d)
      | Inr (ok, rep1, d1) \<Rightarrow>
          if \<not> ok then pull_scopes E S L chain files ss ready (rep1\<lparr>rp_Incomplete := addScope (rp_Incomplete rep1) s\<rparr>) d1
          else
            (case pull_devices E S L chain files s (devices_in E files s) rep1 d1 of
               (Some e, rep2, d2) \<Rightarrow> (Some e, ready @ [s], rep2, d2)
             | (None, rep2, d2) \<Rightarrow> pull_scopes E S L chain files ss (ready @ [s]) rep2 d2))"

definition pull :: "eng \<Rightarrow> ('s) schema_scheme \<Rightarrow> ('c) seg_libs_scheme \<Rightarrow> version list \<Rightarrow> report \<Rightarrow> ('d) edb_scheme
    \<Rightarrow> eng_error option \<times> report \<times> ('d) edb_scheme" where
  "pull E S L chain rep d =
     (case listSegments E of
        Inl e \<Rightarrow> (Some e, rep, d)
      | Inr files \<Rightarrow>
          (case pull_scopes E S L chain files (readable (v_ACL (List.last chain)) (n_self E)) [] rep d of
             (Some e, ready, rep1, d1) \<Rightarrow> (Some e, rep1, d1)
           | (None, ready, rep1, d1) \<Rightarrow>
               (case RetryPending S (Some ready) (new_applier d1) of
                  Inl e \<Rightarrow> (Some (EngSql e), rep1, d1)
                | Inr (n, d2) \<Rightarrow>
                    (case commit S (Finish S d2) of
                       Inl e \<Rightarrow> (Some e, rep1, d1)
                     | Inr d3 \<Rightarrow> (None, rep1, d3)))))"

subsection \<open>Rebuilding after a revocation\<close>

text \<open>The scopes in which a segment beyond a cutoff, or another one at the cutoff, was applied.\<close>

definition beyond_cutoff :: "device \<Rightarrow> scope \<Rightarrow> stream_row \<Rightarrow> bool" where
  "beyond_cutoff dv s st \<longleftrightarrow>
     st_seq st > 0 \<and>
     (case map_of (gm_of (d_Cutoff dv)) s of
        None \<Rightarrow> True
      | Some c \<Rightarrow> st_seq st > c_Seq c \<or> (st_seq st = c_Seq c \<and> c_Hash c \<noteq> Some (case st_hash st of None \<Rightarrow> [] | Some h \<Rightarrow> h)))"

definition affected_scopes :: "acl \<Rightarrow> ('d) edb_scheme \<Rightarrow> scope list" where
  "affected_scopes head d =
     fold (\<lambda>dv acc.
        if Active dv then acc
        else fold (\<lambda>((dev, s), st) acc.
               if dev = d_DeviceID dv \<and> beyond_cutoff dv s st then addScope acc s else acc) (gm_entries (e_streams d)) acc)
       (a_Devices head) []"

definition rebuild_scopes :: "acl \<Rightarrow> string \<Rightarrow> scope list \<Rightarrow> scope list" where
  "rebuild_scopes head self aff =
     sortedScopes (if List.member aff ScopeMembersCore then readable head self else aff)"

definition reset_scopes :: "string \<Rightarrow> scope list \<Rightarrow> ('d) edb_scheme \<Rightarrow> ('d) edb_scheme" where
  "reset_scopes self ss d =
     (let tables = map Name (filter (\<lambda>t. List.member ss (Scope t)) SyncedTables) in
      d\<lparr>r_rows := (\<lambda>t. if List.member tables t then [] else r_rows d t),
        r_clocks := (\<lambda>t. if List.member tables t then [] else r_clocks d t),
        r_conflicts := filter (\<lambda>c. \<not> List.member tables (cf_Table c)) (r_conflicts d),
        r_pending := filter (\<lambda>(i, s, ch, reason). \<not> List.member ss s) (r_pending d),
        e_history := filter (\<lambda>h. \<not> (List.member ss (hi_Scope h) \<and> hi_Device h \<noteq> self)) (e_history d),
        e_streams := filter (\<lambda>((dev, s), st). \<not> (List.member ss s \<and> dev \<noteq> self)) (e_streams d),
        e_bases := filter (\<lambda>(s, b). \<not> List.member ss s) (e_bases d)\<rparr>)"

fun load_bases :: "eng \<Rightarrow> ('s) schema_scheme \<Rightarrow> (scope \<times> base) list \<Rightarrow> ('d) edb_scheme \<Rightarrow> eng_error + ('d) edb_scheme" where
  "load_bases E S [] d = Inr d"
| "load_bases E S ((s, b) # bs) d =
     (case loadBase E S s b d of Inl e \<Rightarrow> Inl e | Inr d' \<Rightarrow> load_bases E S bs d')"

definition apply_own :: "('s) schema_scheme \<Rightarrow> scope \<Rightarrow> change \<Rightarrow> ('d) rdb_scheme \<Rightarrow> eng_error + ('d) rdb_scheme" where
  "apply_own S s ch d =
     (case Apply S ch d of
        Inl e \<Rightarrow> Inl (EngSql e)
      | Inr (Pending why, d') \<Rightarrow> Inr (AddPending s ch why d')
      | Inr (Written cols, d') \<Rightarrow> Inr d')"

fun apply_owns :: "('s) schema_scheme \<Rightarrow> (scope \<times> change) list \<Rightarrow> ('d) rdb_scheme \<Rightarrow> eng_error + ('d) rdb_scheme" where
  "apply_owns S [] d = Inr d"
| "apply_owns S ((s, ch) # cs) d =
     (case apply_own S s ch d of Inl e \<Rightarrow> Inl e | Inr d' \<Rightarrow> apply_owns S cs d')"

text \<open>This device's own changes of a scope: from its history, then from the outbox.\<close>

fun own_history :: "('c) op_libs_scheme \<Rightarrow> string \<Rightarrow> history_row list \<Rightarrow> eng_error + change list" where
  "own_history L self [] = Inr []"
| "own_history L self (h # hs) =
     (case decodeOp L (hi_raw h) of
        None \<Rightarrow> Inl EngHistory
      | Some q \<Rightarrow>
          (case own_history L self hs of Inl e \<Rightarrow> Inl e | Inr rest \<Rightarrow> Inr (FromOp q (hi_Epoch h) self # rest)))"

fun replay_scopes :: "('s) schema_scheme \<Rightarrow> ('c) op_libs_scheme \<Rightarrow> string \<Rightarrow> out_entry list \<Rightarrow> scope list \<Rightarrow> ('d) edb_scheme
    \<Rightarrow> eng_error + ('d) edb_scheme" where
  "replay_scopes S L self outbox [] d = Inr d"
| "replay_scopes S L self outbox (s # ss) d =
     (case own_history L self (filter (\<lambda>h. hi_Scope h = s \<and> hi_Device h = self) (e_history d)) of
        Inl e \<Rightarrow> Inl e
      | Inr own \<Rightarrow>
          (case apply_owns S (map (\<lambda>ch. (s, ch)) own
                  @ map (\<lambda>en. (s, FromOp (oe_op en) (oe_epoch en) self)) (filter (\<lambda>en. oe_scope en = s) outbox)) d of
             Inl e \<Rightarrow> Inl e
           | Inr d' \<Rightarrow> replay_scopes S L self outbox ss d'))"

definition rebuild :: "eng \<Rightarrow> ('s) schema_scheme \<Rightarrow> ('c) op_libs_scheme \<Rightarrow> (scope \<times> base) list \<Rightarrow> out_entry list \<Rightarrow> ('d) edb_scheme
    \<Rightarrow> eng_error + ('d) edb_scheme" where
  "rebuild E S L bases outbox d =
     (let ss = map fst bases in
      case load_bases E S bases (reset_scopes (n_self E) ss d) of
        Inl e \<Rightarrow> Inl e
      | Inr d1 \<Rightarrow>
          (case replay_scopes S L (n_self E) outbox ss (new_applier d1) of
             Inl e \<Rightarrow> Inl e
           | Inr d2 \<Rightarrow>
               (case RetryPending S (Some ss) d2 of
                  Inl e \<Rightarrow> Inl (EngSql e)
                | Inr (n, d3) \<Rightarrow> Inr (Finish S d3))))"

text \<open>The snapshots of all scopes to rebuild, or the first scope that has none.\<close>

fun find_bases :: "eng \<Rightarrow> ('s) schema_scheme \<Rightarrow> ('c) seg_libs_scheme \<Rightarrow> version list \<Rightarrow> scope list
    \<Rightarrow> eng_error + (scope + (scope \<times> base) list)" where
  "find_bases E S L chain [] = Inr (Inr [])"
| "find_bases E S L chain (s # ss) =
     (case findSnapshot E S L chain s of
        Inl e \<Rightarrow> Inl e
      | Inr None \<Rightarrow> Inr (Inl s)
      | Inr (Some b) \<Rightarrow>
          (case find_bases E S L chain ss of
             Inl e \<Rightarrow> Inl e
           | Inr (Inl s') \<Rightarrow> Inr (Inl s')
           | Inr (Inr bs) \<Rightarrow> Inr (Inr ((s, b) # bs))))"

definition revalidate :: "eng \<Rightarrow> ('s) schema_scheme \<Rightarrow> ('c) seg_libs_scheme \<Rightarrow> version list \<Rightarrow> report \<Rightarrow> ('d) edb_scheme
    \<Rightarrow> eng_error + (report \<times> ('d) edb_scheme)" where
  "revalidate E S L chain rep d =
     (let head = v_ACL (List.last chain); aff = affected_scopes head d in
      if aff = [] then Inr (rep, d)
      else
        (let ss = rebuild_scopes head (n_self E) aff in
         case find_bases E S L chain ss of
           Inl e \<Rightarrow> Inl e
         | Inr (Inl s) \<Rightarrow> Inr (rep\<lparr>rp_Incomplete := addScope (rp_Incomplete rep) s\<rparr>, d)
         | Inr (Inr bases) \<Rightarrow>
             (case readOutbox L d of
                Inl e \<Rightarrow> Inl e
              | Inr outbox \<Rightarrow>
                  (case rebuild E S L bases outbox d of
                     Inl e \<Rightarrow> Inl e
                   | Inr d1 \<Rightarrow>
                       (case commit S d1 of
                          Inl e \<Rightarrow> Inl e
                        | Inr d2 \<Rightarrow> Inr (rep\<lparr>rp_Rebuilt := rp_Rebuilt rep @ ss\<rparr>, d2))))))"

subsection \<open>A sync\<close>

text \<open>
  \<open>Sync\<close> on a sync root \<open>r\<close> with the operations of its transport. The files are uploaded after the
  flush; everything later sees the root with them.
\<close>

definition with_root :: "('r \<Rightarrow> string \<Rightarrow> tr_error + string list) \<Rightarrow> ('r \<Rightarrow> string \<Rightarrow> tr_error + bytes) \<Rightarrow> 'r \<Rightarrow> eng \<Rightarrow> eng" where
  "with_root ls get r E = E\<lparr>n_list := ls r, n_get := get r\<rparr>"

definition eng_Sync :: "('r \<Rightarrow> string \<Rightarrow> tr_error + string list) \<Rightarrow> ('r \<Rightarrow> string \<Rightarrow> tr_error + bytes)
    \<Rightarrow> (string \<Rightarrow> bytes \<Rightarrow> 'r \<Rightarrow> (tr_error + unit) \<times> 'r) \<Rightarrow> eng \<Rightarrow> ('s) schema_scheme \<Rightarrow> ('c) seg_libs_scheme
    \<Rightarrow> bool \<Rightarrow> version list \<Rightarrow> ('d) edb_scheme \<Rightarrow> 'r \<Rightarrow> eng_error option \<times> report \<times> ('d) edb_scheme \<times> 'r" where
  "eng_Sync ls get create E S L active chain d r =
     (if chain = [] \<or> \<not> active then (None, zero_report, d, r)
      else
        (let d0 = setClockEpochs (v_ACL (List.last chain)) d in
         case flush (with_root ls get r E) S L chain zero_report d0 of
           Inl e \<Rightarrow> (Some e, zero_report, d0, r)
         | Inr (rep1, d1) \<Rightarrow>
             (case Upload get create d1 r of
                (up, d2, r2) \<Rightarrow>
                  (let rep2 = rep1\<lparr>rp_Uploaded := (case up of Uploaded n blocked \<Rightarrow> n | UploadFailed n e \<Rightarrow> n),
                                    rp_Upload := Some up\<rparr>;
                       E2 = with_root ls get r2 E
                   in case revalidate E2 S L chain rep2 d2 of
                        Inl e \<Rightarrow> (Some e, rep2, d2, r2)
                      | Inr (rep3, d3) \<Rightarrow>
                          (case pull E2 S L chain rep3 d3 of (err, rep4, d4) \<Rightarrow> (err, rep4, d4, r2))))))"

subsection \<open>What a flush leaves behind\<close>

definition chunk_ok :: "out_entry list \<Rightarrow> bool" where
  "chunk_ok c \<longleftrightarrow> c \<noteq> [] \<and> (length c = 1 \<or> 2 + sum_list (map (\<lambda>e. length (oe_raw e) + 1) c) \<le> maxSegmentPlain)"

lemma take_chunk_bound:
  "take_chunk sz started es = (c, r) \<Longrightarrow> (started \<longrightarrow> sz \<le> maxSegmentPlain) \<Longrightarrow>
     (c = [] \<or> (\<not> started \<and> length c = 1) \<or> sz + sum_list (map (\<lambda>e. length (oe_raw e) + 1) c) \<le> maxSegmentPlain)"
proof (induction sz started es arbitrary: c r rule: take_chunk.induct)
  case (2 sz started e es)
  show ?case
  proof (cases "\<not> started \<or> sz + length (oe_raw e) + 1 \<le> maxSegmentPlain")
    case True
    obtain c' r' where t: "take_chunk (sz + length (oe_raw e) + 1) True es = (c', r')" by fastforce
    then have c: "c = e # c'" using 2(2) True by simp
    show ?thesis
    proof (cases "sz + length (oe_raw e) + 1 \<le> maxSegmentPlain")
      case True
      then show ?thesis using 2(1) [OF _ t] c by (auto simp: add.assoc)
    next
      case False
      then have "c' = []" using t by (cases es) (auto split: if_splits)
      then show ?thesis using c \<open>\<not> started \<or> _\<close> False by auto
    qed
  qed (use 2 in auto)
qed simp

lemma take_chunk_ok: "take_chunk 2 False (e # es) = (c, r) \<Longrightarrow> chunk_ok c"
  using take_chunk_bound [of 2 False "e # es" c r] take_chunk_nonempty [of 2 e es c r] by (auto simp: chunk_ok_def)

lemma archive_entries:
  "w_outbox (fold (archive_entry L s dev seq ce) es d) = filter (\<lambda>o'. ob_seq o' \<notin> oe_id ` set es) (w_outbox d)
    \<and> e_uploads (fold (archive_entry L s dev seq ce) es d) = e_uploads d
    \<and> e_streams (fold (archive_entry L s dev seq ce) es d) = e_streams d"
proof (induction es arbitrary: d)
  case (Cons e es)
  have "w_outbox (archive_entry L s dev seq ce e d) = filter (\<lambda>o'. ob_seq o' \<noteq> oe_id e) (w_outbox d)
      \<and> e_uploads (archive_entry L s dev seq ce e d) = e_uploads d \<and> e_streams (archive_entry L s dev seq ce e d) = e_streams d"
    by (simp add: archive_entry_def addHistory_def Let_def)
  then show ?case using Cons [of "archive_entry L s dev seq ce e d"] by (simp add: conj_commute)
qed simp

lemma write_segment_Inr:
  assumes "write_segment E L s v key seq prev chunk d = Inr (hash, d')"
  shows "\<exists>data. map_of (e_uploads d) (SegmentPath (n_self E) s seq) = None \<and> hash = Hash L data
    \<and> e_uploads d' = e_uploads d @ [(SegmentPath (n_self E) s seq, data)]
    \<and> w_outbox d' = filter (\<lambda>o'. ob_seq o' \<notin> oe_id ` set chunk) (w_outbox d)
    \<and> e_streams d' = e_streams (setPosition (n_self E) s seq hash StatusOK [] d)"
proof -
  from assms obtain data d1 where "hash = Hash L data" and q: "QueueUpload (SegmentPath (n_self E) s seq) data d = Some d1"
    and d': "d' = fold (archive_entry L s (n_self E) seq (clock_epoch_of (v_ACL v) s)) chunk
      (setPosition (n_self E) s seq hash StatusOK [] d1)"
    by (auto simp: write_segment_def Let_def split: sum.splits option.splits)
  moreover have "map_of (e_uploads d) (SegmentPath (n_self E) s seq) = None"
      "d1 = d\<lparr>e_uploads := e_uploads d @ [(SegmentPath (n_self E) s seq, data)]\<rparr>"
    using q by (auto simp: QueueUpload_def split: if_splits)
  ultimately show ?thesis
    using archive_entries [of L s "n_self E" seq "clock_epoch_of (v_ACL v) s" chunk "setPosition (n_self E) s seq hash StatusOK [] d1"]
    by (auto simp: setPosition_def)
qed

lemma write_chunks_Inr:
  "write_chunks E L s v key seq prev es n d = Inr (n', d') \<Longrightarrow>
     \<exists>chunks datas. concat chunks = es \<and> length datas = length chunks \<and> n' = n + length chunks \<and> list_all chunk_ok chunks
       \<and> e_uploads d' = e_uploads d @ zip (map (SegmentPath (n_self E) s) [Suc seq..<Suc seq + length chunks]) datas
       \<and> w_outbox d' = filter (\<lambda>o'. ob_seq o' \<notin> oe_id ` set es) (w_outbox d)
       \<and> map_option st_seq (map_of (e_streams d') (n_self E, s)) =
           (if es = [] then map_option st_seq (map_of (e_streams d) (n_self E, s)) else Some (seq + length chunks))"
proof (induction E L s v key seq prev es n d rule: write_chunks.induct)
  case (1 E L s v key seq prev es n d)
  show ?case
  proof (cases es)
    case Nil
    then have "n' = n" "d' = d" using 1(2) by (subst (asm) write_chunks.simps, simp)+
    then show ?thesis using Nil by (intro exI [of _ "[]"]) simp
  next
    case (Cons e es')
    obtain chunk rest where t: "take_chunk 2 False es = (chunk, rest)" by fastforce
    obtain hash d1 where w: "write_segment E L s v key (seq + 1) prev chunk d = Inr (hash, d1)"
        and r: "write_chunks E L s v key (seq + 1) (Some hash) rest (n + 1) d1 = Inr (n', d')"
      using 1(2) Cons t by (subst (asm) write_chunks.simps) (auto split: sum.splits)
    have es: "es = chunk @ rest" using take_chunk_append [OF t] .
    have ok: "chunk_ok chunk" using take_chunk_ok t Cons by blast
    from write_segment_Inr [OF w] obtain data where data: "e_uploads d1 = e_uploads d @ [(SegmentPath (n_self E) s (Suc seq), data)]"
        "w_outbox d1 = filter (\<lambda>o'. ob_seq o' \<notin> oe_id ` set chunk) (w_outbox d)"
        "map_option st_seq (map_of (e_streams d1) (n_self E, s)) = Some (Suc seq)"
      by (auto simp: setPosition_def update_conv')
    have "es \<noteq> []" using Cons by simp
    from 1(1) [OF this t [symmetric] refl w refl r] obtain chunks datas where ih: "concat chunks = rest"
        "length datas = length chunks" "n' = n + 1 + length chunks" "list_all chunk_ok chunks"
        "e_uploads d' = e_uploads d1 @ zip (map (SegmentPath (n_self E) s) [Suc (seq + 1)..<Suc (seq + 1) + length chunks]) datas"
        "w_outbox d' = filter (\<lambda>o'. ob_seq o' \<notin> oe_id ` set rest) (w_outbox d1)"
        "map_option st_seq (map_of (e_streams d') (n_self E, s)) =
           (if rest = [] then map_option st_seq (map_of (e_streams d1) (n_self E, s)) else Some (seq + 1 + length chunks))"
      by blast
    have range: "[Suc seq..<Suc seq + length (chunk # chunks)] = Suc seq # [Suc (seq + 1)..<Suc (seq + 1) + length chunks]"
      by (subst upt_conv_Cons) simp_all
    have empty: "rest = [] \<Longrightarrow> chunks = []" using ih(1,4) by (cases chunks) (auto simp: chunk_ok_def)
    have out: "w_outbox d' = filter (\<lambda>o'. ob_seq o' \<notin> oe_id ` set es) (w_outbox d)"
      unfolding ih(6) data(2) es by (auto simp: image_Un intro!: filter_cong)
    have at: "map_option st_seq (map_of (e_streams d') (n_self E, s)) = Some (seq + length (chunk # chunks))"
      using ih(7) data(3) empty by (cases "rest = []") simp_all
    show ?thesis
    proof (intro exI conjI)
      show "concat (chunk # chunks) = es" "length (data # datas) = length (chunk # chunks)"
          "n' = n + length (chunk # chunks)" "list_all chunk_ok (chunk # chunks)"
        using ih(1-4) es ok by simp_all
      show "e_uploads d' = e_uploads d @ zip (map (SegmentPath (n_self E) s) [Suc seq..<Suc seq + length (chunk # chunks)]) (data # datas)"
        unfolding range using ih(5) data(1) by simp
    qed (use out at Cons in simp_all)
  qed
qed


end
