(* ===== verification/SyncSample.thy ===== *)
theory SyncSample
  imports Sync
begin

text \<open>
  Concrete runs of the replica and the engine: a small schema with members, their contacts and
  finance, the witnesses of the properties of \<open>Replica\<close> and \<open>Conflicts\<close>, and the runs in which the
  code does not do what its documentation says.
\<close>

definition sample_col :: "string \<Rightarrow> bool \<Rightarrow> bool \<Rightarrow> column" where
  "sample_col n nn pk = \<lparr>col_name = n, col_notNull = nn, col_hasDefault = False, col_pk = pk, col_default = VNil\<rparr>"

definition sample_columns :: "string \<Rightarrow> column list" where
  "sample_columns t =
     (if t = ''members'' then [sample_col ''id'' True True, sample_col ''name'' True False, sample_col ''number'' False False]
      else if t = ''member_contacts'' then [sample_col ''member_id'' True True, sample_col ''email'' False False]
      else if t = ''finance_transactions'' then [sample_col ''id'' True True, sample_col ''purpose'' False False]
      else if t = ''finance_transaction_bank'' then [sample_col ''transaction_id'' True True, sample_col ''iban'' False False]
      else [])"

definition sample_fks :: "string \<Rightarrow> foreign_key list" where
  "sample_fks t =
     (if t = ''member_contacts'' then [\<lparr>fk_from = ''member_id'', fk_table = ''members'', fk_to = ''id''\<rparr>]
      else if t = ''finance_transaction_bank''
      then [\<lparr>fk_from = ''transaction_id'', fk_table = ''finance_transactions'', fk_to = ''id''\<rparr>]
      else [])"

definition key_text :: "pk_key \<Rightarrow> string" where
  "key_text k = concat (map (\<lambda>(c, v). case v of VStr s \<Rightarrow> s | _ \<Rightarrow> []) k)"

definition sample_schema :: schema where
  "sample_schema = \<lparr>sc_columns = sample_columns, sc_fks = sample_fks, sc_time = ts_string, sc_pk_text = key_text,
     sc_val_text = (\<lambda>v. case v of VStr s \<Rightarrow> s | _ \<Rightarrow> [])\<rparr>"

lemma sample_schema_simps [simp]:
  "sc_columns sample_schema = sample_columns" "sc_fks sample_schema = sample_fks"
  "sc_time sample_schema = ts_string" "sc_pk_text sample_schema = key_text"
  by (simp_all add: sample_schema_def)

definition sample_meta :: "string \<Rightarrow> scope \<Rightarrow> string list \<Rightarrow> table_meta" where
  "sample_meta t s pk = \<lparr>m_Table = table t s pk, m_columns = map (\<lambda>c. (col_name c, c)) (sample_columns t), m_fks = sample_fks t\<rparr>"

lemma sample_meta_simps:
  "meta sample_schema ''members'' = Some (sample_meta ''members'' ScopeMembersCore [''id''])"
  "meta sample_schema ''member_contacts'' = Some (sample_meta ''member_contacts'' ScopeMembersContact [''member_id''])"
  by (simp_all add: meta_def SyncedTable_def SyncedTables_def table_def sample_meta_def idPK_def)

definition sample_hlc1 :: string where "sample_hlc1 = ''0000000000ff-0001''"
definition sample_hlc2 :: string where "sample_hlc2 = ''0000000000ff-0002''"

lemma sample_hlc_parse:
  "hlc_parse ''0000000000ff-0001'' = Some \<lparr>MS = 255, Counter = 1\<rparr>"
  "hlc_parse ''0000000000ff-0002'' = Some \<lparr>MS = 255, Counter = 2\<rparr>"
proof -
  have v: "ts_valid \<lparr>MS = 255, Counter = 1\<rparr>" "ts_valid \<lparr>MS = 255, Counter = 2\<rparr>"
    by (simp_all add: ts_valid_def maxMS_def)
  have e: "ts_string \<lparr>MS = 255, Counter = 1\<rparr> = ''0000000000ff-0001''"
      "ts_string \<lparr>MS = 255, Counter = 2\<rparr> = ''0000000000ff-0002''" by code_simp+
  show "hlc_parse ''0000000000ff-0001'' = Some \<lparr>MS = 255, Counter = 1\<rparr>"
      "hlc_parse ''0000000000ff-0002'' = Some \<lparr>MS = 255, Counter = 2\<rparr>"
    using hlc_codec.dec_enc [OF v(1)] hlc_codec.dec_enc [OF v(2)] e by simp_all
qed

definition empty_rdb :: rdb where
  "empty_rdb = \<lparr>r_rows = (\<lambda>t. []), r_clocks = (\<lambda>t. []), r_pending = [], r_next_id = 1, r_device = Some ''me'', r_touched = []\<rparr>"

definition member_change :: "string \<Rightarrow> string \<Rightarrow> string \<Rightarrow> change" where
  "member_change name h dev =
     \<lparr>ch_T = ''members'', ch_PK = Some [(''id'', VStr ''m1'')], ch_Set = Some [(''id'', VStr ''m1''), (''name'', VStr name)],
      ch_Clock = \<lparr>k_Epoch = 1, k_HLC = h, k_Device = dev\<rparr>, ch_Clocks = None\<rparr>"

definition contact_change :: change where
  "contact_change =
     \<lparr>ch_T = ''member_contacts'', ch_PK = Some [(''member_id'', VStr ''m1'')],
      ch_Set = Some [(''member_id'', VStr ''m1''), (''email'', VStr ''x'')],
      ch_Clock = \<lparr>k_Epoch = 1, k_HLC = sample_hlc1, k_Device = ''a''\<rparr>, ch_Clocks = None\<rparr>"

abbreviation "ada \<equiv> member_change ''Ada'' sample_hlc1 ''a''"
abbreviation "bob \<equiv> member_change ''Bob'' sample_hlc2 ''b''"

lemmas run_defs = Apply_def sample_meta_simps Let_def row_at_def winners_def fieldClocks_def clocks_at_def gm_get_def
  gm_entries_def row_of_def EncodePK_def pkWhere_def missing_required_def gm_all_def missing_reference_def write_row_def
  sql_insert_def sql_update_def not_null_ok_def write_clocks_def set_clock_def setUpdatedAt_def max_text_def put_row_def
  defaults_def assigned_def clockOf_def table_def clk_of_def clk_Less_def sample_hlc_parse sample_meta_def
  sample_columns_def sample_fks_def sample_col_def empty_rdb_def member_change_def contact_change_def
  sample_hlc1_def sample_hlc2_def fk_value_def references_def

theorem Apply_idempotent_witness:
  "\<exists>d. Apply sample_schema ada empty_rdb = Inr (Written [''id'', ''name''], d)
       \<and> Apply sample_schema ada d = Inr (Written [], d)"
proof -
  obtain d where d: "Apply sample_schema ada empty_rdb = Inr (Written [''id'', ''name''], d)"
    by (simp add: run_defs)
  from Apply_idempotent [OF d] d show ?thesis by blast
qed

lemma clocked_empty: "clocked empty_rdb"
  by (simp add: clocked_def fieldClocks_def clocks_at_def empty_rdb_def gm_get_def)

lemma key_ok_member: "key_ok sample_schema (member_change n h dev)"
  by (simp add: key_ok_def run_defs)

theorem replicas_converge_witness:
  "\<exists>d1 d2. apply_all sample_schema [ada, bob] empty_rdb = Some d1
     \<and> apply_all sample_schema [bob, ada, bob] empty_rdb = Some d2
     \<and> cell d1 ''members'' [(''id'', VStr ''m1'')] ''name'' = cell d2 ''members'' [(''id'', VStr ''m1'')] ''name''"
proof -
  obtain d1 where d1: "apply_all sample_schema [ada, bob] empty_rdb = Some d1"
    by (simp add: run_defs)
  obtain d2 where d2: "apply_all sample_schema [bob, ada, bob] empty_rdb = Some d2"
    by (simp add: run_defs)
  have a: "agree (cell_writes [ada, bob] ''members'' [(''id'', VStr ''m1'')] ''name'')
      (cell empty_rdb ''members'' [(''id'', VStr ''m1'')] ''name'')"
    by (simp add: agree_def cell_writes_def cell_def run_defs)
  have c: "data_column sample_schema ''members'' ''name''" by (simp add: data_column_def run_defs)
  have "cell d1 ''members'' [(''id'', VStr ''m1'')] ''name'' = cell d2 ''members'' [(''id'', VStr ''m1'')] ''name''"
    by (rule replicas_converge [OF d1 d2 _ clocked_empty _ c a]) (auto simp: key_ok_member)
  then show ?thesis using d1 d2 by blast
qed

definition waiting_rdb :: rdb where
  "waiting_rdb = empty_rdb\<lparr>r_pending := [(1, ScopeMembersContact, contact_change, ''reference missing''), (2, ScopeMembersCore, ada, ''x'')],
     r_next_id := 3\<rparr>"

theorem RetryPending_complete_witness:
  "\<exists>d n. RetryPending sample_schema None waiting_rdb = Inr (n, d) \<and> n = length (pending_in None d)"
proof -
  have "\<exists>n d. RetryPending sample_schema None waiting_rdb = Inr (n, d)"
    by (subst RetryPending.simps, simp add: pending_in_def waiting_rdb_def run_defs,
        subst RetryPending.simps, simp add: pending_in_def run_defs,
        subst RetryPending.simps, simp add: pending_in_def run_defs)
  then obtain n d where d: "RetryPending sample_schema None waiting_rdb = Inr (n, d)" by blast
  from RetryPending_complete [OF d] d show ?thesis by auto
qed

lemma sample_fks_ok: "fks_ok sample_schema"
  by (simp add: fks_ok_def SyncedTables_def table_def fk_ok_def sample_fks_def sample_columns_def sample_col_def)

theorem Apply_keeps_references_witness:
  "\<exists>d d'. Apply sample_schema ada empty_rdb = Inr (Written [''id'', ''name''], d)
     \<and> Apply sample_schema contact_change d = Inr (Written [''email'', ''member_id''], d') \<and> refs_ok sample_schema d'"
proof -
  have "\<exists>d d'. Apply sample_schema ada empty_rdb = Inr (Written [''id'', ''name''], d)
     \<and> Apply sample_schema contact_change d = Inr (Written [''email'', ''member_id''], d')"
    by (simp add: run_defs)
  then obtain d d' where d: "Apply sample_schema ada empty_rdb = Inr (Written [''id'', ''name''], d)"
      and d': "Apply sample_schema contact_change d = Inr (Written [''email'', ''member_id''], d')" by blast
  have "refs_ok sample_schema empty_rdb" by (simp add: refs_ok_def row_at_def empty_rdb_def)
  from Apply_keeps_references [OF sample_fks_ok Apply_keeps_references [OF sample_fks_ok this d] d'] d d'
  show ?thesis by blast
qed

subsection \<open>A uniqueness conflict\<close>

definition two_members :: "string option \<Rightarrow> (pk_key \<times> (string, val) gomap) list \<Rightarrow> cdb" where
  "two_members dev rows =
     \<lparr>r_rows = (\<lambda>t. if t = ''members'' then rows else []),
      r_clocks = (\<lambda>t. if t = ''members''
        then [([(''id'', VStr ''m1'')], [(''number'', \<lparr>s_epoch = 1, s_hlc = sample_hlc1, s_device = dev\<rparr>)]),
              ([(''id'', VStr ''m2'')], [(''number'', \<lparr>s_epoch = 1, s_hlc = sample_hlc1, s_device = Some ''b''\<rparr>)])]
        else []),
      r_pending = [], r_next_id = 1, r_device = Some ''me'', r_touched = [], r_conflicts = []\<rparr>"

abbreviation "row_m1 \<equiv> ([(''id'', VStr ''m1'')], [(''id'', VStr ''m1''), (''number'', VStr ''7'')])"
abbreviation "row_m2 \<equiv> ([(''id'', VStr ''m2'')], [(''id'', VStr ''m2''), (''number'', VStr ''7'')])"
abbreviation "members_table \<equiv> table ''members'' ScopeMembersCore [''id'']"

lemmas conflict_defs = two_members_def holders_of_def gm_entries_def gm_get_def live_def pkWhere_def row_of_def
  clocks_at_def table_def resolveUniqueValue_def holder_key_def key_text_def sample_hlc1_def flag_def same_flag_def Let_def

theorem conflicts_deterministic_witness:
  "set (r_conflicts (resolveUniqueValue sample_schema members_table ''number'' (VStr ''7'') (two_members (Some ''me'') [row_m1, row_m2])))
   = set (r_conflicts (resolveUniqueValue sample_schema members_table ''number'' (VStr ''7'') (two_members (Some ''me'') [row_m2, row_m1])))"
proof (rule conflicts_deterministic)
  show "same_content (two_members (Some ''me'') [row_m1, row_m2]) (two_members (Some ''me'') [row_m2, row_m1])
      (Name members_table) ''number''"
    by (simp add: same_content_def two_members_def clocks_at_def table_def fun_upd_twist)
  show "inj_on (sc_pk_text sample_schema)
      (hd_pk ` set (holders_of (two_members (Some ''me'') [row_m1, row_m2]) members_table ''number'' (VStr ''7'')))"
    by (simp add: conflict_defs)
qed

text \<open>
  A clock written before the device had an identity has no device id. \<open>fieldClocks\<close> reads it as
  this device's, and so do the snapshots every other device loads; the conflict decision reads it as
  the empty id. The devices then keep different rows.
\<close>

theorem own_clock_decides_differently:
  "fieldClocks (two_members None [row_m1, row_m2]) ''members'' = fieldClocks (two_members (Some ''me'') [row_m1, row_m2]) ''members''
   \<and> map cf_PK (r_conflicts (resolveUniqueValue sample_schema members_table ''number'' (VStr ''7'') (two_members None [row_m1, row_m2])))
       = [[(''id'', VStr ''m2'')]]
   \<and> map cf_PK (r_conflicts (resolveUniqueValue sample_schema members_table ''number'' (VStr ''7'') (two_members (Some ''me'') [row_m1, row_m2])))
       = [[(''id'', VStr ''m1'')]]"
proof (intro conjI)
  show "fieldClocks (two_members None [row_m1, row_m2]) ''members'' = fieldClocks (two_members (Some ''me'') [row_m1, row_m2]) ''members''"
    by (rule ext)+ (simp add: fieldClocks_def clk_of_def clocks_at_def two_members_def gm_get_def)
qed (simp_all add: conflict_defs)

subsection \<open>Rows without clocks\<close>

definition old_rdb :: rdb where
  "old_rdb = empty_rdb\<lparr>r_rows := (\<lambda>t. if t = ''members'' then [([(''id'', VStr ''m1'')], [(''id'', VStr ''m1''), (''name'', VStr ''Ada'')])] else [])\<rparr>"

text \<open>
  A row from before the sync goes into a snapshot with zero clocks, which the checks of a received
  snapshot allow; but loading it fails, since \<open>updated_at\<close> cannot be derived from the empty HLC.
\<close>

lemma read_old: "sn_Rows (ReadState sample_schema ScopeMembersCore old_rdb) =
    [\<lparr>sr_T = ''members'', sr_PK = Some [(''id'', VStr ''m1'')],
      sr_Cells = Some [(''id'', \<lparr>sc_V = VStr ''m1'', sc_Clock = zero_clk\<rparr>), (''name'', \<lparr>sc_V = VStr ''Ada'', sc_Clock = zero_clk\<rparr>)]\<rparr>]"
  by (simp add: ReadState_def SyncedTables_def table_def old_rdb_def scope_defs idPK_def gm_entries_def read_row_def row_cells_def
      List.map_filter_def sample_columns_def sample_col_def gm_get_def fieldClocks_def clocks_at_def empty_rdb_def Let_def)

lemma hlc_parse_empty: "hlc_parse [] = None"
  by (simp add: hlc_parse_def)

lemma pending_old: "sn_Pending (ReadState sample_schema ScopeMembersCore old_rdb) = []"
  by (simp add: ReadState_def old_rdb_def empty_rdb_def List.map_filter_def)

theorem zero_clock_snapshot_fails:
  "let sn = ReadState sample_schema ScopeMembersCore old_rdb in
     list_all (\<lambda>r. \<forall>cell \<in> snd ` set (snap_cells r). checkClock (sc_Clock cell) True) (sn_Rows sn)
     \<and> Load sample_schema ScopeMembersCore sn empty_rdb = Inl BadStoredHlc"
  by (simp add: read_old Load_def snap_cells_def checkClock_def row_change_def run_defs zero_clk_def hlc_parse_empty)

subsection \<open>A null that the checks let pass\<close>

definition null_op :: op where
  "null_op = \<lparr>o_T = ''members'', o_PK = Some [(''id'', VStr ''m1'')], o_HLC = sample_hlc2, o_Set = Some [(''name'', VNil)], o_Purge = []\<rparr>"

text \<open>
  An op that sets a column without NULLs to null is valid, and its application is an error of the
  database, not a change that waits or is rejected; the sync ends with it every time.
\<close>

theorem null_update_fails:
  "Validate sample_schema ScopeMembersCore null_op = Inr ()
   \<and> (\<exists>d. Apply sample_schema ada empty_rdb = Inr (Written [''id'', ''name''], d)
        \<and> Apply sample_schema (FromOp null_op 1 ''b'') d = Inl NotNullFailed)"
proof
  show "Validate sample_schema ScopeMembersCore null_op = Inr ()"
    by (simp add: Validate_def null_op_def SyncedTable_def SyncedTables_def run_defs set_entry_ok_def scalar_def gm_len_def idPK_def)
  show "\<exists>d. Apply sample_schema ada empty_rdb = Inr (Written [''id'', ''name''], d)
        \<and> Apply sample_schema (FromOp null_op 1 ''b'') d = Inl NotNullFailed"
    by (simp add: run_defs null_op_def FromOp_def)
qed

subsection \<open>A local edit after a clock warning\<close>

definition drift_hlc :: string where "drift_hlc = ''000000400000-0000''"

definition drift_writer :: "unit writer" where
  "drift_writer =
     \<lparr>w_db = \<lparr>r_rows = (\<lambda>t. if t = ''members'' then [([(''id'', VStr ''m1'')], [(''id'', VStr ''m1''), (''name'', VStr ''Ada'')])] else []),
        r_clocks = (\<lambda>t. if t = ''members''
          then [([(''id'', VStr ''m1'')], [(''name'', \<lparr>s_epoch = 1, s_hlc = drift_hlc, s_device = Some ''b''\<rparr>)])] else []),
        r_pending = [], r_next_id = 1, r_device = Some ''me'', r_touched = [], r_conflicts = [],
        w_hlc = ''000000000000-0000'', w_outbox = [], w_next_seq = 1, w_epochs = []\<rparr>,
      w_clock = \<lparr>last = zero_ts\<rparr>, w_ticked = False, w_touched = [], w_count = 0\<rparr>"

definition drift_op :: op where
  "drift_op = \<lparr>o_T = ''members'', o_PK = Some [(''id'', VStr ''m1'')], o_HLC = ''0000000000fe-0000'',
     o_Set = Some [(''name'', VStr ''Eve'')], o_Purge = []\<rparr>"

definition drift_wall :: wall where
  "drift_wall = \<lparr>wl_fuel = 1, wl_reading = (\<lambda>i j. 254)\<rparr>"

lemma drift_tick: "clock_now (Suc 0) (\<lambda>j. 254) \<lparr>last = zero_ts\<rparr> = Some (\<lparr>MS = 254, Counter = 0\<rparr>, \<lparr>last = \<lparr>MS = 254, Counter = 0\<rparr>\<rparr>)"
  by (simp add: nowMS_def maxMS_def zero_ts_def Let_def)

lemma drift_text: "ts_string \<lparr>MS = 254, Counter = 0\<rparr> = ''0000000000fe-0000''"
  by code_simp

text \<open>
  The clock does not follow a timestamp more than an hour ahead, although its op is applied. A later
  local edit of the same field is stamped with the older local clock: it replaces the value here and
  loses against the newer clock everywhere else, so the devices do not converge.
\<close>

theorem edit_after_drift_diverges:
  "\<not> fst (clock_observe 254 \<lparr>MS = 0x400000, Counter = 0\<rparr> (w_clock drift_writer))
   \<and> (\<exists>w. w_update sample_schema (sample_op_libs JNull) drift_wall ''members'' (\<lambda>cells. True) [(''name'', VStr ''Eve'')] drift_writer
            = Inr (1, w)
        \<and> map ob_raw (w_outbox (w_db w)) = [json_render (sample_op_libs JNull) (op_json drift_op)]
        \<and> cell (w_db w) ''members'' [(''id'', VStr ''m1'')] ''name''
            = Some (\<lparr>k_Epoch = 1, k_HLC = ''0000000000fe-0000'', k_Device = ''me''\<rparr>, VStr ''Eve''))
   \<and> Apply sample_schema (FromOp drift_op 1 ''me'') (w_db drift_writer) = Inr (Written [], w_db drift_writer)
   \<and> cell (w_db drift_writer) ''members'' [(''id'', VStr ''m1'')] ''name''
       = Some (\<lparr>k_Epoch = 1, k_HLC = drift_hlc, k_Device = ''b''\<rparr>, VStr ''Ada'')"
proof (intro conjI)
  show "\<not> fst (clock_observe 254 \<lparr>MS = 0x400000, Counter = 0\<rparr> (w_clock drift_writer))"
    by (simp add: clock_observe_def nowMS_def maxMS_def MaxDrift_ms_def)
  show "\<exists>w. w_update sample_schema (sample_op_libs JNull) drift_wall ''members'' (\<lambda>cells. True) [(''name'', VStr ''Eve'')] drift_writer
            = Inr (1, w)
        \<and> map ob_raw (w_outbox (w_db w)) = [json_render (sample_op_libs JNull) (op_json drift_op)]
        \<and> cell (w_db w) ''members'' [(''id'', VStr ''m1'')] ''name''
            = Some (\<lparr>k_Epoch = 1, k_HLC = ''0000000000fe-0000'', k_Device = ''me''\<rparr>, VStr ''Eve'')"
    by (simp add: w_update_def update_row_def w_record_def drift_writer_def drift_wall_def drift_tick drift_text changed_cols_def
        row_pk_def put_clock_def fk_violated_def cell_def drift_op_def add_new_def run_defs del: clock_now.simps)
  show "Apply sample_schema (FromOp drift_op 1 ''me'') (w_db drift_writer) = Inr (Written [], w_db drift_writer)"
    by (simp add: run_defs drift_op_def drift_writer_def FromOp_def drift_hlc_def)
  show "cell (w_db drift_writer) ''members'' [(''id'', VStr ''m1'')] ''name''
       = Some (\<lparr>k_Epoch = 1, k_HLC = drift_hlc, k_Device = ''b''\<rparr>, VStr ''Ada'')"
    by (simp add: cell_def drift_writer_def run_defs)
qed

subsection \<open>Rebuilding finance alone\<close>

definition finance_edb :: edb where
  "finance_edb =
     \<lparr>r_rows = (\<lambda>t. if t = ''finance_transactions'' then [([(''id'', VStr ''f1'')], [(''id'', VStr ''f1'')])]
        else if t = ''finance_transaction_bank'' then [([(''transaction_id'', VStr ''f1'')], [(''transaction_id'', VStr ''f1'')])]
        else []),
      r_clocks = (\<lambda>t. []), r_pending = [], r_next_id = 1, r_device = Some ''me'', r_touched = [], r_conflicts = [],
      w_hlc = ''000000000000-0000'', w_outbox = [], w_next_seq = 1, w_epochs = [], e_uploads = [],
      e_bases = [(ScopeFinance, (''s'', ''h'')), (ScopeMembersBank, (''s'', ''h''))],
      e_streams = [((''b'', ScopeFinance), \<lparr>st_seq = 3, st_hash = Some ''h'', st_status = StatusOK, st_failures = 0, st_detail = []\<rparr>)],
      e_history = [], e_warnings = []\<rparr>"

definition initial_base :: base where
  "initial_base = \<lparr>bs_path = ''s'', bs_hash = ''h'', bs_hdr = zero_snapshot_header, bs_state = \<lparr>sn_Rows = [], sn_Pending = []\<rparr>\<rparr>"

lemma finance_tables:
  "map Name (filter (\<lambda>t. List.member [ScopeFinance] (Scope t)) SyncedTables) =
     [''finance_transactions'', ''member_fees'', ''fee_models'', ''member_fee_models'', ''fee_runs'', ''fee_charges'',
      ''member_fee_payments'', ''donation_settings'', ''donors'', ''finance_transaction_donations'', ''donation_receipts'',
      ''donation_receipt_items'']"
  by (simp add: SyncedTables_def table_def scope_defs)

lemma finance_table_set:
  "Name ` {x \<in> set SyncedTables. Scope x = ScopeFinance} =
     {''finance_transactions'', ''member_fees'', ''fee_models'', ''member_fee_models'', ''fee_runs'', ''fee_charges'',
      ''member_fee_payments'', ''donation_settings'', ''donors'', ''finance_transaction_donations'', ''donation_receipts'',
      ''donation_receipt_items''}"
  using arg_cong [OF finance_tables, of set] by simp

lemma SyncedTable_name_in: "SyncedTable n = Some t \<Longrightarrow> n \<in> set (map Name SyncedTables)"
  using SyncedTable_Some by fastforce

lemma sample_tables:
  "SyncedTable ''member_contacts'' = Some (table ''member_contacts'' ScopeMembersContact [''member_id''])"
  "SyncedTable ''finance_transaction_bank'' = Some (table ''finance_transaction_bank'' ScopeMembersBank [''transaction_id''])"
  by (simp_all add: SyncedTable_def SyncedTables_def table_def)

lemma fk_broken_sample:
  "fk_broken sample_schema d \<longleftrightarrow>
     list_ex (\<lambda>(k, cells). fk_violated sample_schema ''member_contacts'' cells d) (gm_entries (r_rows d ''member_contacts''))
     \<or> list_ex (\<lambda>(k, cells). fk_violated sample_schema ''finance_transaction_bank'' cells d)
         (gm_entries (r_rows d ''finance_transaction_bank''))"
proof -
  have none: "fk_violated sample_schema t cells d = False" if "t \<noteq> ''member_contacts''" "t \<noteq> ''finance_transaction_bank''" for t cells
    using that by (simp add: fk_violated_def sample_fks_def)
  have "fk_broken sample_schema d \<longleftrightarrow> list_ex (\<lambda>n. list_ex (\<lambda>(k, cells). fk_violated sample_schema n cells d)
      (gm_entries (r_rows d n))) (map Name SyncedTables)"
    by (simp add: fk_broken_def list_ex_iff)
  moreover have "''member_contacts'' \<in> set (map Name SyncedTables)"
    by (rule SyncedTable_name_in [OF sample_tables(1)])
  moreover have "''finance_transaction_bank'' \<in> set (map Name SyncedTables)"
    by (rule SyncedTable_name_in [OF sample_tables(2)])
  ultimately show ?thesis
  proof (intro iffI)
    assume "fk_broken sample_schema d"
    then obtain n where n: "list_ex (\<lambda>(k, cells). fk_violated sample_schema n cells d) (gm_entries (r_rows d n))"
      using \<open>fk_broken sample_schema d \<longleftrightarrow> _\<close> by (auto simp: list_ex_iff)
    then obtain k cells where "fk_violated sample_schema n cells d" by (auto simp: list_ex_iff)
    then have "n = ''member_contacts'' \<or> n = ''finance_transaction_bank''" using none by blast
    then show "list_ex (\<lambda>(k, cells). fk_violated sample_schema ''member_contacts'' cells d) (gm_entries (r_rows d ''member_contacts''))
     \<or> list_ex (\<lambda>(k, cells). fk_violated sample_schema ''finance_transaction_bank'' cells d)
         (gm_entries (r_rows d ''finance_transaction_bank''))" using n by blast
  qed (auto simp only: list_ex_iff)
qed

text \<open>
  A revocation that affects finance only rebuilds finance only. The finance rows of other devices come
  back with the pull after the rebuild; but rows of other scopes refer to them (bank data of a
  transaction to the transaction), so the transaction of the rebuild cannot be committed, and
  the same happens in every sync.
\<close>

theorem rebuild_of_finance_fails:
  "rebuild_scopes head self [ScopeFinance] = [ScopeFinance]
   \<and> commit sample_schema finance_edb = Inr finance_edb
   \<and> (\<exists>d. rebuild E sample_schema L [(ScopeFinance, initial_base)] [] finance_edb = Inr d
        \<and> commit sample_schema d = Inl EngForeignKey)"
proof (intro conjI)
  show "rebuild_scopes head self [ScopeFinance] = [ScopeFinance]"
    by (simp add: rebuild_scopes_def sortedScopes_def Scopes_def scope_defs)
  show "commit sample_schema finance_edb = Inr finance_edb"
    by (simp add: commit_def fk_broken_sample finance_edb_def fk_violated_def sample_fks_def references_def gm_entries_def gm_get_def)
  have "rebuild E sample_schema L [(ScopeFinance, initial_base)] [] finance_edb = Inr
      (let d = reset_scopes (n_self E) [ScopeFinance] finance_edb in d\<lparr>e_bases := AList.update ScopeFinance (''s'', ''h'') (e_bases d)\<rparr>)"
    by (simp add: rebuild_def loadBase_def initial_base_def Load_def new_applier_def RetryPending.simps pending_in_def
        Finish_def SetBase_def zero_snapshot_header_def gm_of_def gm_entries_def reset_scopes_def finance_edb_def Let_def)
  moreover have "commit sample_schema
      (let d = reset_scopes (n_self E) [ScopeFinance] finance_edb in d\<lparr>e_bases := AList.update ScopeFinance (''s'', ''h'') (e_bases d)\<rparr>)
      = Inl EngForeignKey"
    by (simp add: commit_def fk_broken_sample reset_scopes_def finance_table_set finance_edb_def fk_violated_def sample_fks_def
        references_def gm_entries_def gm_get_def Let_def)
  ultimately show "\<exists>d. rebuild E sample_schema L [(ScopeFinance, initial_base)] [] finance_edb = Inr d
        \<and> commit sample_schema d = Inl EngForeignKey" by blast
qed

subsection \<open>A local edit and its op on another device\<close>

definition old_hlc :: string where "old_hlc = ''000000000001-0000''"

definition edit_writer :: "unit writer" where
  "edit_writer = drift_writer\<lparr>w_db := (w_db drift_writer)\<lparr>r_clocks := (\<lambda>t. if t = ''members''
          then [([(''id'', VStr ''m1'')], [(''name'', \<lparr>s_epoch = 1, s_hlc = old_hlc, s_device = Some ''b''\<rparr>)])] else [])\<rparr>\<rparr>"

abbreviation "members_meta \<equiv> sample_meta ''members'' ScopeMembersCore [''id'']"
abbreviation "edit_match \<equiv> ([(''id'', VStr ''m1'')], [(''name'', VStr ''Eve'')])"

lemma drift_parse: "hlc_parse ''0000000000fe-0000'' = Some \<lparr>MS = 254, Counter = 0\<rparr>"
  using hlc_parse_string [of "\<lparr>MS = 254, Counter = 0\<rparr>"] by (simp add: drift_text ts_valid_def maxMS_def)

lemmas edit_defs = drift_parse update_row_def w_record_def edit_writer_def drift_writer_def drift_wall_def drift_tick drift_text
  put_clock_def fk_violated_def add_new_def old_hlc_def local_op_def scope_epoch_def FromOp_def cell_def


subsection \<open>A batch of one op\<close>

definition batch_eng :: eng where
  "batch_eng = \<lparr>n_list = (\<lambda>d. Inr []), n_get = (\<lambda>p. Inr []), n_key = (\<lambda>s e. Inr (pad_to 32 ''k'')), n_club = ''club'',
     n_self = ''me'', n_sign = ''priv'', n_now = 0, n_MaxAttempts = DefaultMaxAttempts, n_random = (\<lambda>s n. pad_to 24 [])\<rparr>"

definition batch_entry :: out_entry where
  "batch_entry = \<lparr>oe_id = 1, oe_scope = ScopeFinance, oe_epoch = 1, oe_op = null_op, oe_raw = ''op''\<rparr>"

abbreviation "batch_libs \<equiv> sample_seg_libs JNull"


end
