(* ===== verification/GoTime.thy ===== *)
theory GoTime
  imports GoLib
begin

text \<open>
  Calendar dates of Go's \<open>time\<close> package. A \<open>time.Time\<close> at midnight UTC is the number of days
  since 1 January of the year 1; \<open>time.Date\<close> with its normalisation of months and days, \<open>AddDate\<close> and
  the accessors \<open>Year\<close>, \<open>Month\<close>, \<open>Day\<close> of the proleptic Gregorian calendar.
\<close>

type_synonym date = int

definition leap :: "int \<Rightarrow> bool" where
  "leap y \<longleftrightarrow> 4 dvd y \<and> (\<not> 100 dvd y \<or> 400 dvd y)"

text \<open>The days before a year, and the lengths of its months.\<close>

definition year_days :: "int \<Rightarrow> int" where
  "year_days y = 365 * (y - 1) + (y - 1) div 4 - (y - 1) div 100 + (y - 1) div 400"

definition month_lens :: "bool \<Rightarrow> int list" where
  "month_lens l = [31, if l then 29 else 28, 31, 30, 31, 30, 31, 31, 30, 31, 30, 31]"

definition month_days :: "bool \<Rightarrow> nat \<Rightarrow> int" where
  "month_days l m = sum_list (take m (month_lens l))"

text \<open>\<open>time.Date(y, m, d, 0, 0, 0, 0, time.UTC)\<close>: months outside 1 to 12 and days outside the month run over.\<close>

definition go_Date :: "int \<Rightarrow> int \<Rightarrow> int \<Rightarrow> date" where
  "go_Date y m d =
     (let y' = y + (m - 1) div 12 in year_days y' + month_days (leap y') (nat ((m - 1) mod 12)) + (d - 1))"

definition t_Year :: "date \<Rightarrow> int" where
  "t_Year n =
     (let y = (400 * n) div 146097 + 1 in
      if n < year_days y then y - 1 else if year_days (y + 1) \<le> n then y + 1 else y)"

fun month_walk :: "int list \<Rightarrow> int \<Rightarrow> int \<Rightarrow> int \<times> int" where
  "month_walk [] m d = (m, d + 1)"
| "month_walk (l # ls) m d = (if d < l then (m, d + 1) else month_walk ls (m + 1) (d - l))"

definition t_MonthDay :: "date \<Rightarrow> int \<times> int" where
  "t_MonthDay n = month_walk (month_lens (leap (t_Year n))) 1 (n - year_days (t_Year n))"

definition t_Month :: "date \<Rightarrow> int" where "t_Month n = fst (t_MonthDay n)"
definition t_Day :: "date \<Rightarrow> int" where "t_Day n = snd (t_MonthDay n)"

definition AddDate :: "date \<Rightarrow> int \<Rightarrow> int \<Rightarrow> int \<Rightarrow> date" where
  "AddDate n y m d = go_Date (t_Year n + y) (t_Month n + m) (t_Day n + d)"

subsection \<open>Years\<close>

lemma div_pred: "0 < k \<Longrightarrow> y div k = (y - 1) div k + (if k dvd y then 1 else 0)" for y k :: int
proof -
  assume k: "0 < k"
  have y: "y = k * (y div k) + y mod k" by simp
  show ?thesis
  proof (cases "k dvd y")
    case True
    have "(y - 1) div k = y div k - 1"
      by (rule int_div_pos_eq [where r = "k - 1"]) (use k True y in \<open>auto simp: algebra_simps\<close>)
    then show ?thesis using True by simp
  next
    case False
    have "(y - 1) div k = y div k"
    proof (rule int_div_pos_eq [where r = "y mod k - 1"])
      have "y mod k \<noteq> 0" using False by (simp add: dvd_eq_mod_eq_0)
      then show "0 \<le> y mod k - 1" using pos_mod_sign [OF k, of y] by linarith
    qed (use k y pos_mod_bound [of k y] in linarith)+
    then show ?thesis using False by simp
  qed
qed

lemma div_bounds:
  fixes y k :: int
  assumes "0 < k"
  shows "k * (y div k) \<le> y" "y < k * (y div k) + k"
  using assms mult_div_mod_eq [of k y] pos_mod_bound [of k y] pos_mod_sign [of k y] by linarith+

lemma year_days_step: "year_days (y + 1) = year_days y + (if leap y then 366 else 365)"
proof -
  define a b c where "a \<longleftrightarrow> 4 dvd y" and "b \<longleftrightarrow> 100 dvd y" and "c \<longleftrightarrow> 400 dvd y"
  have ba: "b \<Longrightarrow> a" unfolding a_def b_def by (rule dvd_trans [of 4 100]) simp_all
  have cb: "c \<Longrightarrow> b" unfolding b_def c_def by (rule dvd_trans [of 100 400]) simp_all
  have "year_days (y + 1) = 365 * y + y div 4 - y div 100 + y div 400" by (simp add: year_days_def)
  moreover have "y div 4 = (y - 1) div 4 + (if a then 1 else 0)" unfolding a_def by (rule div_pred) simp
  moreover have "y div 100 = (y - 1) div 100 + (if b then 1 else 0)" unfolding b_def by (rule div_pred) simp
  moreover have "y div 400 = (y - 1) div 400 + (if c then 1 else 0)" unfolding c_def by (rule div_pred) simp
  ultimately have "year_days (y + 1) = year_days y + 365 + (if a then 1 else 0) - (if b then 1 else 0) + (if c then 1 else 0)"
    unfolding year_days_def [of y] right_diff_distrib by linarith
  moreover have "leap y \<longleftrightarrow> a \<and> (\<not> b \<or> c)" by (simp add: leap_def a_def b_def c_def)
  ultimately show ?thesis using ba cb by (cases a; cases b; cases c) simp_all
qed

lemma year_days_mono: "y \<le> z \<Longrightarrow> year_days y \<le> year_days z"
proof (induction "nat (z - y)" arbitrary: z)
  case (Suc k)
  then have "year_days y \<le> year_days (z - 1)" by simp
  also have "\<dots> \<le> year_days z" using year_days_step [of "z - 1"] by (simp split: if_splits)
  finally show ?case .
qed simp

lemma year_days_bounds:
  "146097 * y - 146796 \<le> 400 * year_days y" "400 * year_days y \<le> 146097 * y - 145701"
proof -
  define a b c where "a = (y - 1) div 4" and "b = (y - 1) div 100" and "c = (y - 1) div 400"
  have "4 * a \<le> y - 1" "y - 1 < 4 * a + 4" "100 * b \<le> y - 1" "y - 1 < 100 * b + 100" "400 * c \<le> y - 1" "y - 1 < 400 * c + 400"
    unfolding a_def b_def c_def by (rule div_bounds, simp)+
  moreover have "400 * year_days y = 146000 * y - 146000 + 400 * a - 400 * b + 400 * c"
    by (simp add: year_days_def a_def b_def c_def algebra_simps)
  ultimately show "146097 * y - 146796 \<le> 400 * year_days y" "400 * year_days y \<le> 146097 * y - 145701"
    by linarith+
qed

lemma t_Year_range: "year_days (t_Year n) \<le> n" "n < year_days (t_Year n + 1)"
proof -
  define y where "y = (400 * n) div 146097 + 1"
  have q: "146097 * y - 146097 \<le> 400 * n" "400 * n < 146097 * y"
    using div_bounds [of 146097 "400 * n"] unfolding y_def by (simp_all add: algebra_simps)
  have "400 * year_days (y - 1) \<le> 146097 * y - 146097 - 145701" using year_days_bounds(2) [of "y - 1"] by (simp add: algebra_simps)
  then have "year_days (y - 1) \<le> n" using q by linarith
  moreover have "146097 * y + 2 * 146097 - 146796 \<le> 400 * year_days (y + 2)" using year_days_bounds(1) [of "y + 2"] by (simp add: algebra_simps)
  then have "n < year_days (y + 2)" using q by linarith
  ultimately show "year_days (t_Year n) \<le> n" "n < year_days (t_Year n + 1)"
    unfolding t_Year_def y_def [symmetric] Let_def by (simp_all add: add.assoc)
qed

lemma year_unique:
  assumes "year_days y \<le> n" "n < year_days (y + 1)"
  shows "t_Year n = y"
proof -
  have "\<not> y + 1 \<le> t_Year n" using assms t_Year_range [of n] year_days_mono [of "y + 1" "t_Year n"] by linarith
  moreover have "\<not> t_Year n + 1 \<le> y" using assms t_Year_range [of n] year_days_mono [of "t_Year n + 1" y] by linarith
  ultimately show ?thesis by linarith
qed

subsection \<open>Months\<close>

text \<open>The first day of a month; months are counted through: 12 times the year and the number of the month from 0.\<close>

definition month_start :: "int \<Rightarrow> date" where
  "month_start k = year_days (k div 12) + month_days (leap (k div 12)) (nat (k mod 12))"

definition month_index :: "date \<Rightarrow> int" where
  "month_index n = 12 * t_Year n + t_Month n - 1"

lemma go_Date_month: "go_Date y m d = month_start (12 * y + m - 1) + (d - 1)"
proof -
  have "12 * y + m - 1 = 12 * (y + (m - 1) div 12) + (m - 1) mod 12"
    unfolding distrib_left using mult_div_mod_eq [of 12 "m - 1"] by linarith
  then have "(12 * y + m - 1) div 12 = y + (m - 1) div 12" "(12 * y + m - 1) mod 12 = (m - 1) mod 12"
    by (rule int_div_pos_eq int_mod_pos_eq; simp)+
  then show ?thesis by (simp add: go_Date_def month_start_def Let_def)
qed

lemma length_month_lens [simp]: "length (month_lens l) = 12"
  by (simp add: month_lens_def)

lemma month_lens_bounds: "i < 12 \<Longrightarrow> 28 \<le> month_lens l ! i \<and> month_lens l ! i \<le> 31"
proof -
  assume "i < 12"
  then have "month_lens l ! i \<in> set (month_lens l)" by (intro nth_mem) simp
  then show ?thesis by (auto simp: month_lens_def split: if_splits)
qed

lemma month_days_Suc: "i < 12 \<Longrightarrow> month_days l (Suc i) = month_days l i + month_lens l ! i"
  by (simp add: month_days_def take_Suc_conv_app_nth)

lemma month_days_year: "month_days l 12 = (if l then 366 else 365)"
  by (simp add: month_days_def month_lens_def)

lemma month_start_step: "month_start (k + 1) = month_start k + month_lens (leap (k div 12)) ! nat (k mod 12)"
proof -
  have r: "0 \<le> k mod 12" "k mod 12 < 12" by simp_all
  show ?thesis
  proof (cases "k mod 12 = 11")
    case True
    have "k + 1 = 12 * (k div 12 + 1)" using True mult_div_mod_eq [of 12 k] unfolding distrib_left by linarith
    then have "(k + 1) div 12 = k div 12 + 1" "(k + 1) mod 12 = 0"
      using int_div_pos_eq [of "k + 1" 12 "k div 12 + 1" 0] int_mod_pos_eq [of "k + 1" 12 "k div 12 + 1" 0] by simp_all
    then show ?thesis
      using True month_days_Suc [of 11 "leap (k div 12)"] month_days_year [of "leap (k div 12)"]
      by (simp add: month_start_def year_days_step month_days_def)
  next
    case False
    then have "k mod 12 + 1 < 12" using r by linarith
    moreover have "k + 1 = 12 * (k div 12) + (k mod 12 + 1)" using mult_div_mod_eq [of 12 k] by linarith
    ultimately have "(k + 1) div 12 = k div 12" "(k + 1) mod 12 = k mod 12 + 1"
      using r int_div_pos_eq [of "k + 1" 12 "k div 12" "k mod 12 + 1"] int_mod_pos_eq [of "k + 1" 12 "k div 12" "k mod 12 + 1"]
      by linarith+
    moreover have "nat (k mod 12 + 1) = Suc (nat (k mod 12))" "nat (k mod 12) < 12" using r by linarith+
    ultimately show ?thesis by (simp add: month_start_def month_days_Suc)
  qed
qed

lemma month_start_next: "month_start k + 28 \<le> month_start (k + 1)" "month_start (k + 1) \<le> month_start k + 31"
  using month_start_step [of k] month_lens_bounds [of "nat (k mod 12)" "leap (k div 12)"] by auto

lemma month_start_mono: "j \<le> k \<Longrightarrow> month_start j + (28 * k - 28 * j) \<le> month_start k"
proof (induction "nat (k - j)" arbitrary: k)
  case (Suc n)
  from Suc(2) have "n = nat (k - 1 - j)" "j \<le> k - 1" by linarith+
  from Suc(1) [OF this] have "month_start j + (28 * k - 28 * j) \<le> month_start (k - 1) + 28" by simp
  then show ?case using month_start_next(1) [of "k - 1"] by simp
qed simp

lemma month_start_less_iff: "month_start j < month_start k \<longleftrightarrow> j < k"
  using month_start_mono [of j k] month_start_mono [of k j] by linarith

lemma month_start_le_iff: "month_start j \<le> month_start k \<longleftrightarrow> j \<le> k"
  using month_start_less_iff [of k j] by linarith

lemma month_walk_eq:
  "i < length ls \<Longrightarrow> list_all (\<lambda>l. 0 < l) ls \<Longrightarrow> sum_list (take i ls) \<le> d \<Longrightarrow> d < sum_list (take (Suc i) ls)
    \<Longrightarrow> month_walk ls m d = (m + int i, d - sum_list (take i ls) + 1)"
proof (induction ls arbitrary: i m d)
  case (Cons l ls)
  show ?case
  proof (cases i)
    case (Suc j)
    have "0 \<le> sum_list (take j ls)"
      using Cons.prems(2) by (intro sum_list_nonneg) (auto simp: list_all_iff dest!: in_set_takeD)
    then have "\<not> d < l" using Cons.prems Suc by simp
    then show ?thesis using Cons.IH [of j "d - l" "m + 1"] Cons.prems Suc by simp
  qed (use Cons in simp)
qed simp

text \<open>The fields of a day of month \<open>k\<close>.\<close>

lemma civil_fields:
  assumes "month_start k \<le> n" "n < month_start (k + 1)"
  shows "t_Year n = k div 12" "t_Month n = k mod 12 + 1" "t_Day n = n - month_start k + 1" "month_index n = k"
proof -
  let ?y = "k div 12" and ?i = "nat (k mod 12)" and ?l = "leap (k div 12)"
  have i: "?i < 12" "int ?i = k mod 12" by simp_all
  have k: "12 * ?y + k mod 12 = k" by simp
  have y0: "year_days y = month_start (12 * y)" for y by (simp add: month_start_def month_days_def)
  have "month_start (12 * ?y) \<le> month_start k" using k i by (simp add: month_start_le_iff)
  moreover have "month_start (k + 1) \<le> month_start (12 * (?y + 1))"
    using k pos_mod_bound [of 12 k] by (simp add: month_start_le_iff)
  ultimately have "year_days ?y \<le> n" "n < year_days (?y + 1)" using assms unfolding y0 by linarith+
  then show Y: "t_Year n = ?y" by (rule year_unique)
  have "list_all (\<lambda>l. 0 < l) (month_lens ?l)" by (simp add: month_lens_def)
  moreover have "month_days ?l ?i \<le> n - year_days ?y" using assms(1) by (simp add: month_start_def)
  moreover have "n - year_days ?y < month_days ?l (Suc ?i)"
    using assms(2) i unfolding month_start_step by (simp add: month_start_def month_days_Suc)
  ultimately have "t_MonthDay n = (1 + k mod 12, n - year_days ?y - month_days ?l ?i + 1)"
    unfolding t_MonthDay_def Y month_days_def using month_walk_eq [of ?i "month_lens ?l" "n - year_days ?y" 1] i
    by (simp add: month_lens_def)
  then show M: "t_Month n = k mod 12 + 1" and "t_Day n = n - month_start k + 1"
    by (simp_all add: t_Month_def t_Day_def month_start_def)
  show "month_index n = k" using k by (simp add: month_index_def Y M)
qed

lemma month_of_day: "\<exists>k. month_start k \<le> n \<and> n < month_start (k + 1)"
proof -
  let ?y = "t_Year n"
  have y0: "year_days y = month_start (12 * y)" for y by (simp add: month_start_def month_days_def)
  have r: "month_start (12 * ?y) \<le> n" "n < month_start (12 * ?y + 12)"
    using t_Year_range [of n] y0 [of "?y + 1"] by (simp_all add: y0 algebra_simps)
  define A where "A = {i. i < 12 \<and> month_start (12 * ?y + int i) \<le> n}"
  have "finite A" "0 \<in> A" using r by (auto simp: A_def)
  then have m: "Max A \<in> A" "\<And>i. i \<in> A \<Longrightarrow> i \<le> Max A" by (auto intro: Max_in)
  have "n < month_start (12 * ?y + int (Max A) + 1)"
  proof (cases "Suc (Max A) < 12")
    case True
    have "Suc (Max A) \<notin> A" using m(2) [of "Suc (Max A)"] by auto
    with True have "\<not> month_start (12 * ?y + int (Suc (Max A))) \<le> n" unfolding A_def by blast
    then show ?thesis by (simp add: add.assoc add.commute)
  next
    case False
    then have "12 * ?y + int (Max A) + 1 = 12 * ?y + 12" using m(1) by (simp add: A_def)
    with r(2) show ?thesis by (metis (no_types))
  qed
  then show ?thesis using m(1) by (auto simp: A_def)
qed

lemma month_index_range: "month_start (month_index n) \<le> n" "n < month_start (month_index n + 1)"
  using month_of_day [of n] civil_fields(4) by auto

lemma month_index_start [simp]: "month_index (month_start k) = k"
  using civil_fields(4) [of k "month_start k"] month_start_less_iff [of k "k + 1"] by simp

lemma go_Date_fields:
  "go_Date (t_Year n) (t_Month n) d = month_start (month_index n) + (d - 1)"
  by (simp add: go_Date_month month_index_def)

lemma AddDate_months: "AddDate (month_start k) 0 m d = month_start (k + m) + d"
proof -
  have "month_start k < month_start (k + 1)" by (simp add: month_start_less_iff)
  then have f: "t_Year (month_start k) = k div 12" "t_Month (month_start k) = k mod 12 + 1" "t_Day (month_start k) = 1"
    using civil_fields [of k "month_start k"] by simp_all
  have "12 * (k div 12) + (k mod 12 + 1 + m) - 1 = k + m" by (simp add: algebra_simps)
  then show ?thesis by (simp add: AddDate_def f go_Date_month)
qed

text \<open>A date and its year, month and day determine each other.\<close>

lemma go_Date_inverse: "go_Date (t_Year n) (t_Month n) (t_Day n) = n"
  using civil_fields(3) [OF month_index_range, of n] by (simp add: go_Date_fields)

end
