(* ===== verification/Fees.thy ===== *)
theory Fees
  imports GoTime Op
begin

text \<open>
  Membership fees (\<open>server/internal/fees/fees.go\<close>): billing periods, the model that applies at an age,
  and the amount of a member for a period. Amounts are \<open>int64\<close> cents; ages and years are Go's \<open>int\<close>, of which
  only the width of an age range is computed from data that is not a date.
\<close>

type_synonym interval = string

definition Yearly :: interval where "Yearly = ''yearly''"
definition HalfYearly :: interval where "HalfYearly = ''half_yearly''"
definition Quarterly :: interval where "Quarterly = ''quarterly''"
definition Monthly :: interval where "Monthly = ''monthly''"

lemmas interval_defs = Yearly_def HalfYearly_def Quarterly_def Monthly_def

definition Months :: "interval \<Rightarrow> int" where
  "Months i =
     (if i = Yearly then 12 else if i = HalfYearly then 6 else if i = Quarterly then 3 else if i = Monthly then 1 else 0)"

definition i_Valid :: "interval \<Rightarrow> bool" where
  "i_Valid i \<longleftrightarrow> Months i > 0"

record fee_model =
  fm_ID :: string
  fm_Name :: string
  fm_AmountCents :: int
  fm_Interval :: interval
  fm_MinAge :: "int option"
  fm_MaxAge :: "int option"
  fm_ProRata :: bool

definition HasAgeLimit :: "fee_model \<Rightarrow> bool" where
  "HasAgeLimit m \<longleftrightarrow> fm_MinAge m \<noteq> None \<or> fm_MaxAge m \<noteq> None"

definition FitsAge :: "fee_model \<Rightarrow> int \<Rightarrow> bool" where
  "FitsAge m age \<longleftrightarrow>
     (case fm_MinAge m of None \<Rightarrow> True | Some lo \<Rightarrow> lo \<le> age) \<and> (case fm_MaxAge m of None \<Rightarrow> True | Some hi \<Rightarrow> age \<le> hi)"

definition span :: "fee_model \<Rightarrow> int" where
  "span m =
     (let lo = (case fm_MinAge m of None \<Rightarrow> 0 | Some v \<Rightarrow> v);
          hi = (case fm_MaxAge m of None \<Rightarrow> 200 | Some v \<Rightarrow> v)
      in i64 (hi - lo))"

fun select_loop :: "fee_model list \<Rightarrow> int \<Rightarrow> fee_model option \<Rightarrow> fee_model option" where
  "select_loop [] age best = best"
| "select_loop (m # ms) age best =
     (if \<not> HasAgeLimit m \<or> \<not> FitsAge m age then select_loop ms age best
      else if (case best of None \<Rightarrow> True
               | Some b \<Rightarrow> span m < span b \<or> span m = span b \<and> fm_Name m < fm_Name b)
      then select_loop ms age (Some m)
      else select_loop ms age best)"

definition SelectByAge :: "fee_model list \<Rightarrow> int \<Rightarrow> fee_model option" where
  "SelectByAge models age = select_loop models age None"

definition Age :: "date \<Rightarrow> date \<Rightarrow> int" where
  "Age birthday on =
     (let age = t_Year on - t_Year birthday in
      if t_Month on < t_Month birthday \<or> t_Month on = t_Month birthday \<and> t_Day on < t_Day birthday then age - 1 else age)"

record period =
  p_Start :: date
  p_End :: date

definition Overlaps :: "period \<Rightarrow> period \<Rightarrow> bool" where
  "Overlaps p q \<longleftrightarrow> \<not> p_Start p > p_End q \<and> \<not> p_Start q > p_End p"

definition Label :: "period \<Rightarrow> interval \<Rightarrow> string" where
  "Label p i =
     (let y = t_Year (p_Start p); m = t_Month (p_Start p) in
      if i = Yearly then int_text y
      else if i = HalfYearly then int_text y @ ''-H'' @ int_text (go_div (m - 1) 6 + 1)
      else if i = Quarterly then int_text y @ ''-Q'' @ int_text (go_div (m - 1) 3 + 1)
      else int_text y @ ''-'' @ fmt_uint 10 2 (nat m))"

definition monthStart :: "date \<Rightarrow> date" where
  "monthStart t = go_Date (t_Year t) (t_Month t) 1"

definition YearStart :: "date \<Rightarrow> date" where
  "YearStart t = go_Date (t_Year t) 1 1"

definition MonthEnd :: "date \<Rightarrow> date" where
  "MonthEnd t = AddDate (monthStart t) 0 1 (- 1)"

text \<open>The loop of \<open>Periods\<close>. Its step is positive, since \<open>Periods\<close> returns at once for 0 months.\<close>

lemma AddDate_later: "0 < m \<Longrightarrow> n < AddDate n 0 m 0"
proof -
  assume "0 < m"
  let ?k = "month_index n"
  have "AddDate n 0 m 0 = month_start (?k + m) + (t_Day n - 1)"
    by (simp add: AddDate_def go_Date_month month_index_def algebra_simps)
  moreover have "n = month_start ?k + (t_Day n - 1)"
    using go_Date_inverse [of n] by (simp add: go_Date_fields)
  moreover have "month_start ?k < month_start (?k + m)" using \<open>0 < m\<close> by (simp add: month_start_less_iff)
  ultimately show ?thesis by linarith
qed

function periods_loop :: "int \<Rightarrow> date \<Rightarrow> date \<Rightarrow> date \<Rightarrow> period list" where
  "periods_loop n from to start =
     (if 0 < n \<and> \<not> start > to then
        (let rest = periods_loop n from to (AddDate start 0 n 0) in
         if start < from then rest
         else \<lparr>p_Start = start, p_End = AddDate start 0 n (- 1)\<rparr> # rest)
      else [])"
  by pat_completeness auto
termination
  by (relation "measure (\<lambda>(n, from, to, start). nat (to + 1 - start))") (auto dest: AddDate_later [of _ start for start])

declare periods_loop.simps [simp del]

definition Periods :: "interval \<Rightarrow> date \<Rightarrow> date \<Rightarrow> period list" where
  "Periods i from to =
     (let n = Months i in
      if n = 0 then []
      else (let from' = monthStart from; to' = monthStart to in periods_loop n from' to' (go_Date (t_Year from') 1 1)))"

record membership =
  ms_Entry :: "date option"
  ms_Exit :: "date option"

definition between :: "membership \<Rightarrow> date \<Rightarrow> date \<Rightarrow> bool" where
  "between ms start fin \<longleftrightarrow>
     (case ms_Entry ms of None \<Rightarrow> True | Some e \<Rightarrow> \<not> e > fin) \<and> (case ms_Exit ms of None \<Rightarrow> True | Some x \<Rightarrow> x > start)"

definition ActiveIn :: "membership \<Rightarrow> period \<Rightarrow> bool" where
  "ActiveIn ms p \<longleftrightarrow> between ms (p_Start p) (p_End p)"

function months_loop :: "membership \<Rightarrow> date \<Rightarrow> date \<Rightarrow> int" where
  "months_loop ms m fin =
     (if m > fin then 0
      else (if between ms m (MonthEnd m) then 1 else 0) + months_loop ms (AddDate m 0 1 0) fin)"
  by pat_completeness auto
termination
  by (relation "measure (\<lambda>(ms, m, fin). nat (fin + 1 - m))") (auto simp: AddDate_later)

declare months_loop.simps [simp del]

definition ActiveMonths :: "membership \<Rightarrow> period \<Rightarrow> int" where
  "ActiveMonths ms p = months_loop ms (p_Start p) (p_End p)"

definition fee_Amount :: "fee_model \<Rightarrow> period \<Rightarrow> membership \<Rightarrow> int" where
  "fee_Amount m p ms =
     (if \<not> fm_ProRata m then fm_AmountCents m
      else (let total = Months (fm_Interval m) in
            if total = 0 then 0
            else (let active = ActiveMonths ms p in
                  if active \<ge> total then fm_AmountCents m
                  else go_div (i64 (i64 (fm_AmountCents m * active) + total div 2)) total)))"

subsection \<open>The model for an age\<close>

definition fits :: "int \<Rightarrow> fee_model \<Rightarrow> bool" where
  "fits age m \<longleftrightarrow> HasAgeLimit m \<and> FitsAge m age"

definition prefers :: "fee_model \<Rightarrow> fee_model \<Rightarrow> bool" where
  "prefers m m' \<longleftrightarrow> span m < span m' \<or> span m = span m' \<and> fm_Name m \<le> fm_Name m'"

lemma prefers_refl [simp]: "prefers m m"
  by (simp add: prefers_def)

lemma prefers_trans: "prefers a b \<Longrightarrow> prefers b c \<Longrightarrow> prefers a c"
  by (auto simp: prefers_def)

lemma select_loop_min:
  "case select_loop ms age best of
     None \<Rightarrow> best = None \<and> filter (fits age) ms = []
   | Some m \<Rightarrow> (m \<in> set (filter (fits age) ms) \<or> best = Some m)
       \<and> (\<forall>m' \<in> set (filter (fits age) ms). prefers m m') \<and> (\<forall>b. best = Some b \<longrightarrow> prefers m b)"
proof (induction ms age best rule: select_loop.induct)
  case (2 m ms age best)
  show ?case
  proof (cases "fits age m")
    case False
    then have "select_loop (m # ms) age best = select_loop ms age best" "filter (fits age) (m # ms) = filter (fits age) ms"
        "\<not> HasAgeLimit m \<or> \<not> FitsAge m age"
      by (auto simp: fits_def)
    then show ?thesis using 2(1) by (simp only:)
  next
    case True
    then have c: "\<not> (\<not> HasAgeLimit m \<or> \<not> FitsAge m age)" by (simp add: fits_def)
    show ?thesis
    proof (cases "case best of None \<Rightarrow> True | Some b \<Rightarrow> span m < span b \<or> span m = span b \<and> fm_Name m < fm_Name b")
      case t: True
      have "prefers m b" if "best = Some b" for b using t that by (auto simp: prefers_def)
      then show ?thesis using 2(2) [OF c t] t True c by (auto split: option.splits intro: prefers_trans)
    next
      case f: False
      then have "\<And>b. best = Some b \<Longrightarrow> prefers b m" by (cases best) (force simp: prefers_def)+
      then show ?thesis using 2(3) [OF c f] f True c by (auto split: option.splits intro: prefers_trans)
    qed
  qed
qed (auto split: option.split)

text \<open>
  The model picked for an age is one with an age limit that fits the age, of the narrowest range and, among
  these, with the first name; none is picked only if no model with an age limit fits.
\<close>

theorem SelectByAge_best:
  "case SelectByAge models age of
     None \<Rightarrow> filter (fits age) models = []
   | Some m \<Rightarrow> List.member (filter (fits age) models) m \<and> list_all (prefers m) (filter (fits age) models)"
  using select_loop_min [where ms = models and age = age and best = None]
  by (cases "SelectByAge models age") (simp_all add: SelectByAge_def list_all_iff)

text \<open>With distinct names, as the uniqueness rule of the fee models asks for, their order does not matter.\<close>

lemma SelectByAge_order:
  assumes "set ms = set ms'" "inj_on fm_Name (set ms)"
  shows "SelectByAge ms age = SelectByAge ms' age"
proof -
  have f: "set (filter (fits age) ms) = set (filter (fits age) ms')" using assms(1) by simp
  show ?thesis
  proof (cases "SelectByAge ms age")
    case None
    then have "filter (fits age) ms' = []" using select_loop_min [where ms = ms and age = age and best = None] f by (simp add: SelectByAge_def)
    then have "SelectByAge ms' age = None"
      using select_loop_min [where ms = ms' and age = age and best = None] by (auto simp: SelectByAge_def split: option.splits)
    then show ?thesis using None by simp
  next
    case (Some m)
    then have m: "m \<in> set (filter (fits age) ms)" "\<And>x. x \<in> set (filter (fits age) ms) \<Longrightarrow> prefers m x"
      using select_loop_min [where ms = ms and age = age and best = None] by (auto simp: SelectByAge_def)
    have "filter (fits age) ms' \<noteq> []" using m(1) f by (metis filter_set list.set(1) empty_iff)
    then obtain m' where m': "SelectByAge ms' age = Some m'" "m' \<in> set (filter (fits age) ms')"
        "\<And>x. x \<in> set (filter (fits age) ms') \<Longrightarrow> prefers m' x"
      using select_loop_min [where ms = ms' and age = age and best = None] by (cases "SelectByAge ms' age") (auto simp: SelectByAge_def)
    have "prefers m m'" "prefers m' m" using m m' f by blast+
    then have "fm_Name m = fm_Name m'" by (auto simp: prefers_def)
    moreover have "m \<in> set ms" "m' \<in> set ms" using m(1) m'(2) assms(1) by auto
    ultimately have "m = m'" using assms(2) by (meson inj_onD)
    then show ?thesis using Some m' by simp
  qed
qed

subsection \<open>Billing periods\<close>

text \<open>The period of \<open>n\<close> months from month \<open>k\<close>.\<close>

definition period_at :: "int \<Rightarrow> int \<Rightarrow> period" where
  "period_at n k = \<lparr>p_Start = month_start k, p_End = month_start (k + n) - 1\<rparr>"

lemma Months_cases: "Months i \<in> {0, 1, 3, 6, 12}"
  by (simp add: Months_def)

lemma Months_dvd_12: "Months i \<noteq> 0 \<Longrightarrow> 0 < Months i \<and> Months i dvd 12"
  using Months_cases [of i] by auto

lemma monthStart_index: "monthStart t = month_start (month_index t)"
  by (simp add: monthStart_def go_Date_fields)

lemma MonthEnd_index: "MonthEnd t = month_start (month_index t + 1) - 1"
  by (simp add: MonthEnd_def monthStart_index AddDate_months)

lemma t_Year_index: "t_Year t = month_index t div 12"
  using civil_fields(1) [OF month_index_range, of t] .

lemma aligned_none: "n dvd k \<Longrightarrow> k < j \<Longrightarrow> j < k + n \<Longrightarrow> \<not> n dvd j" for n k j :: int
proof
  assume "n dvd k" "n dvd j" and r: "k < j" "j < k + n"
  then have "n dvd j - k" by (simp add: dvd_diff)
  then have "n \<le> j - k" using r by (intro zdvd_imp_le) auto
  then show False using r by linarith
qed

lemma periods_loop_eq:
  assumes "0 < n" "n dvd k"
  shows "periods_loop n (month_start a) (month_start b) (month_start k)
    = map (period_at n) (filter (\<lambda>j. n dvd j \<and> a \<le> j) [k..b])"
  using assms(2)
proof (induction "nat (b + 1 - k)" arbitrary: k rule: less_induct)
  case less
  show ?case
  proof (cases "k \<le> b")
    case False
    then show ?thesis by (subst periods_loop.simps) (simp add: month_start_less_iff)
  next
    case True
    have skip: "filter (\<lambda>j. n dvd j \<and> a \<le> j) [k + 1..b] = filter (\<lambda>j. n dvd j \<and> a \<le> j) [k + n..b]"
    proof (cases "k + n \<le> b")
      case le: True
      have "[k + 1..b] = [k + 1..k + n - 1] @ [k + n..b]" by (rule upto_split1) (use assms(1) le in linarith)+
      moreover have "filter (\<lambda>j. n dvd j \<and> a \<le> j) [k + 1..k + n - 1] = []"
        using aligned_none [OF less(2)] by (auto simp: filter_empty_conv)
      ultimately show ?thesis by simp
    next
      case lt: False
      have "filter (\<lambda>j. n dvd j \<and> a \<le> j) [k + 1..b] = []"
        using aligned_none [OF less(2)] lt by (auto simp: filter_empty_conv)
      then show ?thesis using lt by simp
    qed
    have "periods_loop n (month_start a) (month_start b) (month_start (k + n))
        = map (period_at n) (filter (\<lambda>j. n dvd j \<and> a \<le> j) [k + n..b])"
      by (rule less(1)) (use assms(1) True less(2) in auto)
    moreover have "periods_loop n (month_start a) (month_start b) (month_start k) =
        (let rest = periods_loop n (month_start a) (month_start b) (month_start (k + n))
         in if k < a then rest else period_at n k # rest)"
      using True assms(1)
      by (subst periods_loop.simps) (simp add: month_start_less_iff AddDate_months period_at_def Let_def)
    moreover have "[k..b] = k # [k + 1..b]" using True by (rule upto_rec1)
    ultimately show ?thesis using less(2) skip by (simp add: Let_def)
  qed
qed

text \<open>
  C9. The periods of an interval are exactly the periods of the calendar year's grid that start in the months
  from \<open>from\<close> to \<open>to\<close>, in order, each from the first day of its first month to the last day of its
  last; an unknown interval has none.
\<close>

theorem Periods_exact:
  "Periods i from to =
     (if Months i = 0 then []
      else map (period_at (Months i)) (filter (\<lambda>k. Months i dvd k) [month_index from..month_index to]))"
proof (cases "Months i = 0")
  case False
  let ?n = "Months i" and ?a = "month_index from" and ?b = "month_index to"
  have n: "0 < ?n" "?n dvd 12" using Months_dvd_12 [OF False] by simp_all
  let ?k = "12 * (?a div 12)"
  have "t_Year (month_start ?a) = ?a div 12" by (simp add: t_Year_index)
  then have "go_Date (t_Year (monthStart from)) 1 1 = month_start ?k"
    by (simp add: monthStart_index go_Date_month)
  moreover have "?n dvd ?k" using n(2) by (rule dvd_mult2)
  ultimately have "Periods i from to = map (period_at ?n) (filter (\<lambda>j. ?n dvd j \<and> ?a \<le> j) [?k..?b])"
    using periods_loop_eq [OF n(1)] False by (simp add: Periods_def monthStart_index Let_def)
  moreover have "filter (\<lambda>j. ?n dvd j \<and> ?a \<le> j) [?k..?b] = filter (\<lambda>j. ?n dvd j) [?a..?b]"
  proof (cases "?a \<le> ?b")
    case le: True
    have "[?k..?b] = [?k..?a - 1] @ [?a..?b]" by (rule upto_split1) (use le div_bounds [of 12 ?a] in auto)
    then show ?thesis by (auto simp: filter_empty_conv intro!: filter_cong)
  next
    case lt: False
    then show ?thesis by (auto simp: filter_empty_conv)
  qed
  ultimately show ?thesis using False by simp
qed (simp add: Periods_def)

lemma Periods_member:
  "p \<in> set (Periods i from to) \<Longrightarrow>
     \<exists>k. p = period_at (Months i) k \<and> Months i dvd k \<and> month_index from \<le> k \<and> k \<le> month_index to \<and> 0 < Months i"
  using Months_dvd_12 [of i] by (auto simp: Periods_exact split: if_splits)

subsection \<open>Active months and amounts\<close>

lemma months_loop_eq:
  "months_loop ms (month_start k) (month_start (k + n) - 1)
    = int (length (filter (\<lambda>j. between ms (month_start j) (month_start (j + 1) - 1)) [k..k + n - 1]))"
proof (induction "nat n" arbitrary: k n)
  case 0
  then have "month_start (k + n) - 1 < month_start k" using month_start_le_iff [of "k + n" k] by simp
  then show ?case using 0 by (subst months_loop.simps) simp
next
  case (Suc m)
  then have n: "0 < n" "m = nat (n - 1)" by simp_all
  have "month_start k < month_start (k + n)" using n by (simp add: month_start_less_iff)
  moreover have "[k..k + n - 1] = k # [k + 1..k + n - 1]" using n by (intro upto_rec1) simp
  moreover have "months_loop ms (month_start (k + 1)) (month_start (k + n) - 1)
      = int (length (filter (\<lambda>j. between ms (month_start j) (month_start (j + 1) - 1)) [k + 1..k + n - 1]))"
    using Suc(1) [OF n(2), of "k + 1"] by (simp add: algebra_simps)
  ultimately show ?case by (subst months_loop.simps) (simp add: AddDate_months MonthEnd_index)
qed

lemma ActiveMonths_period:
  "ActiveMonths ms (period_at n k)
    = int (length (filter (\<lambda>j. between ms (month_start j) (month_start (j + 1) - 1)) [k..k + n - 1]))"
  by (simp add: ActiveMonths_def period_at_def months_loop_eq)

text \<open>The days a member belongs to the club.\<close>

definition belongs :: "membership \<Rightarrow> date \<Rightarrow> bool" where
  "belongs ms d \<longleftrightarrow>
     (case ms_Entry ms of None \<Rightarrow> True | Some e \<Rightarrow> e \<le> d) \<and> (case ms_Exit ms of None \<Rightarrow> True | Some x \<Rightarrow> d < x)"

definition left_after_entry :: "membership \<Rightarrow> bool" where
  "left_after_entry ms \<longleftrightarrow>
     (case (ms_Entry ms, ms_Exit ms) of (Some e, Some x) \<Rightarrow> e < x | _ \<Rightarrow> True)"

lemma between_iff:
  assumes "left_after_entry ms" "a \<le> b"
  shows "between ms a b \<longleftrightarrow> (\<exists>d. a \<le> d \<and> d \<le> b \<and> belongs ms d)"
proof
  assume b: "between ms a b"
  define d where "d = (case ms_Entry ms of None \<Rightarrow> a | Some e \<Rightarrow> max a e)"
  have "a \<le> d \<and> d \<le> b \<and> belongs ms d"
    using assms b by (auto simp: d_def between_def belongs_def left_after_entry_def split: option.splits)
  then show "\<exists>d. a \<le> d \<and> d \<le> b \<and> belongs ms d" by blast
qed (auto simp: between_def belongs_def split: option.splits)

text \<open>
  For a billing period and a member who left after joining, \<open>ActiveMonths\<close> counts the months of
  the period with at least one day on which the member belongs to the club.
\<close>

theorem ActiveMonths_exact:
  assumes "left_after_entry ms"
  shows "list_all (\<lambda>p. ActiveMonths ms p =
      int (card {k. p_Start p \<le> month_start k \<and> month_start k \<le> p_End p
        \<and> (\<exists>d. month_index d = k \<and> belongs ms d)})) (Periods i from to)"
proof -
  have "ActiveMonths ms p = int (card {k. p_Start p \<le> month_start k \<and> month_start k \<le> p_End p
      \<and> (\<exists>d. month_index d = k \<and> belongs ms d)})" if p: "p = period_at n k" for p n k
  proof -
    let ?P = "\<lambda>j. between ms (month_start j) (month_start (j + 1) - 1)"
    have "?P j \<longleftrightarrow> (\<exists>d. month_index d = j \<and> belongs ms d)" for j
    proof -
      have "month_start j \<le> month_start (j + 1) - 1" using month_start_next(1) [of j] by simp
      moreover have "month_start j \<le> d \<and> d \<le> month_start (j + 1) - 1 \<longleftrightarrow> month_index d = j" for d
        using month_index_range [of d] civil_fields(4) [of j d] by auto
      ultimately show ?thesis using between_iff [OF assms] by blast
    qed
    then have "{j. p_Start p \<le> month_start j \<and> month_start j \<le> p_End p \<and> (\<exists>d. month_index d = j \<and> belongs ms d)}
        = set (filter ?P [k..k + n - 1])"
      by (auto simp: p period_at_def month_start_le_iff month_start_less_iff)
    then show ?thesis by (simp add: p ActiveMonths_period distinct_card del: set_filter)
  qed
  then show ?thesis using Periods_member by (fastforce simp: list_all_iff)
qed

lemma half_up:
  fixes x t :: int
  assumes "t \<in> {1, 3, 6, 12}" "0 \<le> x"
  shows "(x + t div 2) div t = (2 * x + t) div (2 * t)"
  using assms by auto

text \<open>
  C10. For a period of the model's interval the amount is the share of the active months, rounded
  half up to the cent; it lies between nothing and the full amount, which it reaches if the member is active in all
  months. The bound keeps the product within 64 bits.
\<close>

theorem Amount_share:
  assumes "0 \<le> fm_AmountCents m" "fm_AmountCents m < 2 ^ 59"
  shows "list_all (\<lambda>p. let t = Months (fm_Interval m); a = ActiveMonths ms p in
     fee_Amount m p ms = (if fm_ProRata m then (2 * fm_AmountCents m * a + t) div (2 * t) else fm_AmountCents m)
     \<and> 0 \<le> fee_Amount m p ms \<and> fee_Amount m p ms \<le> fm_AmountCents m \<and> 0 \<le> a \<and> a \<le> t) (Periods (fm_Interval m) from to)"
proof -
  have "(let t = Months (fm_Interval m); a = ActiveMonths ms p in
     fee_Amount m p ms = (if fm_ProRata m then (2 * fm_AmountCents m * a + t) div (2 * t) else fm_AmountCents m)
     \<and> 0 \<le> fee_Amount m p ms \<and> fee_Amount m p ms \<le> fm_AmountCents m \<and> 0 \<le> a \<and> a \<le> t)"
    if p: "p = period_at (Months (fm_Interval m)) k" and t0: "0 < Months (fm_Interval m)" for p k
  proof -
    let ?A = "fm_AmountCents m"
    define t where "t = Months (fm_Interval m)"
    define a where "a = ActiveMonths ms p"
    have t: "t \<in> {1, 3, 6, 12}" using Months_cases [of "fm_Interval m"] t0 by (auto simp: t_def)
    have "length (filter (\<lambda>j. between ms (month_start j) (month_start (j + 1) - 1)) [k..k + t - 1]) \<le> length [k..k + t - 1]"
      by (rule length_filter_le)
    then have a: "0 \<le> a" "a \<le> t" using t0 by (auto simp: a_def p ActiveMonths_period t_def)
    have prod: "0 \<le> ?A * a" "?A * a \<le> ?A * t" using assms a by (auto intro: mult_left_mono)
    then have lim: "?A * a + t div 2 < 2 ^ 63" "?A * a < 2 ^ 63" using t assms(2) by auto
    have eq: "go_div (i64 (i64 (?A * a) + t div 2)) t = (2 * (?A * a) + t) div (2 * t)"
      using lim prod t half_up [OF t prod(1)] by (auto simp: i64_id go_div_nonneg)
    have full: "(2 * (?A * t) + t) div (2 * t) = ?A"
      using t by auto
    have le: "(2 * (?A * a) + t) div (2 * t) \<le> ?A"
      using prod t zdiv_mono1 [of "2 * (?A * a) + t" "2 * (?A * t) + t" "2 * t"] full by auto
    have ge: "0 \<le> (2 * (?A * a) + t) div (2 * t)" using prod t by (auto intro!: pos_imp_zdiv_nonneg_iff [THEN iffD2])
    show ?thesis
      unfolding t_def [symmetric] a_def [symmetric] Let_def fee_Amount_def
      using eq le ge full a t assms by (auto simp: mult.assoc)
  qed
  then show ?thesis unfolding list_all_iff using Periods_member by blast
qed

abbreviation "spring_member \<equiv> \<lparr>ms_Entry = Some (go_Date 2027 4 10), ms_Exit = Some (go_Date 2027 5 2)\<rparr>"
abbreviation "quarters_2027 \<equiv> Periods Quarterly (go_Date 2027 1 1) (go_Date 2027 12 31)"
abbreviation "quarterly_fee \<equiv> \<lparr>fm_ID = ''q'', fm_Name = ''Q'', fm_AmountCents = 1000, fm_Interval = Quarterly,
  fm_MinAge = None, fm_MaxAge = None, fm_ProRata = True\<rparr>"

theorem ActiveMonths_exact_witness:
  "map (ActiveMonths spring_member) quarters_2027 = [0, 2, 0, 0]
   \<and> list_all (\<lambda>p. ActiveMonths spring_member p =
      int (card {k. p_Start p \<le> month_start k \<and> month_start k \<le> p_End p
        \<and> (\<exists>d. month_index d = k \<and> belongs spring_member d)})) quarters_2027"
proof
  show "map (ActiveMonths spring_member) quarters_2027 = [0, 2, 0, 0]" by code_simp
  have "left_after_entry spring_member" by code_simp
  then show "list_all (\<lambda>p. ActiveMonths spring_member p =
      int (card {k. p_Start p \<le> month_start k \<and> month_start k \<le> p_End p
        \<and> (\<exists>d. month_index d = k \<and> belongs spring_member d)})) quarters_2027" by (rule ActiveMonths_exact)
qed

theorem Amount_share_witness:
  "map (\<lambda>p. fee_Amount quarterly_fee p spring_member) quarters_2027 = [0, 667, 0, 0]
   \<and> list_all (\<lambda>p. fee_Amount quarterly_fee p spring_member \<le> 1000) quarters_2027"
proof
  show "map (\<lambda>p. fee_Amount quarterly_fee p spring_member) quarters_2027 = [0, 667, 0, 0]" by code_simp
  show "list_all (\<lambda>p. fee_Amount quarterly_fee p spring_member \<le> 1000) quarters_2027"
    using Amount_share [of quarterly_fee spring_member "go_Date 2027 1 1" "go_Date 2027 12 31"]
    by (auto simp: list_all_iff Let_def)
qed

text \<open>
  Who joins and leaves on the same day, which the checks of a member allow, belongs to the club on no day; but the
  month is counted, unless the day is the first of it.
\<close>

lemma same_day_counts:
  "\<not> belongs \<lparr>ms_Entry = Some x, ms_Exit = Some x\<rparr> d
   \<and> ActiveMonths \<lparr>ms_Entry = Some (go_Date 2027 4 10), ms_Exit = Some (go_Date 2027 4 10)\<rparr>
       \<lparr>p_Start = go_Date 2027 4 1, p_End = go_Date 2027 6 30\<rparr> = 1"
proof
  show "\<not> belongs \<lparr>ms_Entry = Some x, ms_Exit = Some x\<rparr> d" by (simp add: belongs_def)
qed code_simp

end
