(* ===== verification/FeeRun.thy ===== *)
theory FeeRun
  imports Fees
begin

text \<open>
  Billing runs (\<open>server/internal/store/feemodels.go\<close>): which model applies to a member, the plan of
  a run and the periods a run has charged. The fee models, the members and the charged periods are what
  \<open>listFeeModels\<close>, \<open>feeMembers\<close> and \<open>chargedPeriods\<close> read from the database; dates are days.
\<close>

record member_ref =
  mr_ID :: string
  mr_Number :: int
  mr_FirstName :: string
  mr_LastName :: string

text \<open>A \<open>FeeAssignment\<close> as \<open>feeMembers\<close> builds it: the mode, with the id only for a fixed model.\<close>

datatype fee_assignment = FeeModeAuto | FeeModeModel string | FeeModeExempt

record fee_member =
  fe_ref :: member_ref
  fe_birthday :: "date option"
  fe_membership :: membership
  fe_assignment :: fee_assignment

datatype skip_reason = FeeSkipNoModel | FeeSkipExempt | FeeSkipAlreadyCharged

record run_item =
  it_Member :: member_ref
  it_Model :: fee_model
  it_Period :: period
  it_AmountCents :: int
  it_DueDate :: date

record run_skip =
  sk_Member :: member_ref
  sk_Reason :: skip_reason
  sk_Model :: "fee_model option"
  sk_Period :: "period option"

record run_plan =
  pl_Items :: "run_item list"
  pl_Skipped :: "run_skip list"

record run_input =
  in_From :: date
  in_To :: date
  in_DueDate :: date

definition it_ProRata :: "run_item \<Rightarrow> bool" where
  "it_ProRata it \<longleftrightarrow> it_AmountCents it < fm_AmountCents (it_Model it)"

definition it_Description :: "run_item \<Rightarrow> string" where
  "it_Description it = fm_Name (it_Model it) @ '' '' @ Label (it_Period it) (fm_Interval (it_Model it))"

definition plan_TotalCents :: "run_plan \<Rightarrow> int" where
  "plan_TotalCents p = fold (\<lambda>it total. i64 (total + it_AmountCents it)) (pl_Items p) 0"

definition zero_model :: fee_model where
  "zero_model = \<lparr>fm_ID = [], fm_Name = [], fm_AmountCents = 0, fm_Interval = [], fm_MinAge = None, fm_MaxAge = None,
     fm_ProRata = False\<rparr>"

definition modelsByID :: "fee_model list \<Rightarrow> (string, fee_model) gomap" where
  "modelsByID models = fold (\<lambda>m. AList.update (fm_ID m) m) models []"

definition modelFor :: "fee_member \<Rightarrow> fee_model list \<Rightarrow> (string, fee_model) gomap \<Rightarrow> date \<Rightarrow> fee_model option \<times> int option" where
  "modelFor m models byID on =
     (let age = map_option (\<lambda>b. Age b (YearStart on)) (fe_birthday m) in
      case fe_assignment m of
        FeeModeExempt \<Rightarrow> (None, age)
      | FeeModeModel i \<Rightarrow> (map_of byID i, age)
      | FeeModeAuto \<Rightarrow> (case age of None \<Rightarrow> (None, None) | Some a \<Rightarrow> (SelectByAge models a, age)))"

definition overlapsAny :: "period \<Rightarrow> period list \<Rightarrow> bool" where
  "overlapsAny p os \<longleftrightarrow> list_ex (Overlaps p) os"

text \<open>The candidates of a member: the models to look at, and their periods that apply.\<close>

definition candidate_models :: "fee_member \<Rightarrow> fee_model list \<Rightarrow> (string, fee_model) gomap \<Rightarrow> fee_model list" where
  "candidate_models m models byID =
     (case fe_assignment m of
        FeeModeModel i \<Rightarrow> [gm_get zero_model byID i]
      | FeeModeAuto \<Rightarrow> filter HasAgeLimit models
      | FeeModeExempt \<Rightarrow> [])"

definition candidate_periods :: "fee_member \<Rightarrow> fee_model list \<Rightarrow> (string, fee_model) gomap \<Rightarrow> run_input \<Rightarrow> (fee_model \<times> period) list" where
  "candidate_periods m models byID inp =
     concat (map (\<lambda>model. map (\<lambda>p. (model, p))
         (filter (\<lambda>p. ActiveIn (fe_membership m) p
             \<and> (case fst (modelFor m models byID (p_Start p)) of None \<Rightarrow> False | Some a \<Rightarrow> fm_ID a = fm_ID model))
           (Periods (fm_Interval model) (in_From inp) (in_To inp))))
       (candidate_models m models byID))"

fun charge_loop :: "fee_member \<Rightarrow> date \<Rightarrow> (fee_model \<times> period) list \<Rightarrow> period list \<Rightarrow> run_plan \<Rightarrow> run_plan" where
  "charge_loop m due [] taken plan = plan"
| "charge_loop m due ((model, p) # cs) taken plan =
     (if overlapsAny p taken
      then charge_loop m due cs taken
        (plan\<lparr>pl_Skipped := pl_Skipped plan @ [\<lparr>sk_Member = fe_ref m, sk_Reason = FeeSkipAlreadyCharged,
           sk_Model = Some model, sk_Period = Some p\<rparr>]\<rparr>)
      else charge_loop m due cs (taken @ [p])
        (plan\<lparr>pl_Items := pl_Items plan @ [\<lparr>it_Member = fe_ref m, it_Model = model, it_Period = p,
           it_AmountCents = fee_Amount model p (fe_membership m), it_DueDate = (if p_Start p > due then p_Start p else due)\<rparr>]\<rparr>))"

definition plan_member :: "fee_model list \<Rightarrow> (string, fee_model) gomap \<Rightarrow> (string, period list) gomap \<Rightarrow> run_input
    \<Rightarrow> fee_member \<Rightarrow> run_plan \<Rightarrow> run_plan" where
  "plan_member models byID charged inp m plan =
     (let periods = candidate_periods m models byID inp in
      if periods = [] then
        (if \<not> ActiveIn (fe_membership m) \<lparr>p_Start = in_From inp, p_End = MonthEnd (in_To inp)\<rparr> then plan
         else plan\<lparr>pl_Skipped := pl_Skipped plan @
           [\<lparr>sk_Member = fe_ref m, sk_Reason = (if fe_assignment m = FeeModeExempt then FeeSkipExempt else FeeSkipNoModel),
             sk_Model = None, sk_Period = None\<rparr>]\<rparr>)
      else charge_loop m (in_DueDate inp) (sort_key (\<lambda>c. p_Start (snd c)) periods)
             (gm_get [] charged (mr_ID (fe_ref m))) plan)"

definition planFeeRun :: "fee_model list \<Rightarrow> fee_member list \<Rightarrow> (string, period list) gomap \<Rightarrow> run_input \<Rightarrow> run_plan" where
  "planFeeRun models members charged inp =
     fold (plan_member models (modelsByID models) charged inp) members \<lparr>pl_Items = [], pl_Skipped = []\<rparr>"

text \<open>
  What \<open>chargedPeriods\<close> reads after \<open>CreateFeeRun\<close> has saved the items of a plan; it refuses a plan without items.
\<close>

definition record_item :: "run_item \<Rightarrow> (string, period list) gomap \<Rightarrow> (string, period list) gomap" where
  "record_item it charged =
     AList.update (mr_ID (it_Member it)) (gm_get [] charged (mr_ID (it_Member it)) @ [it_Period it]) charged"

definition CreateFeeRun :: "fee_model list \<Rightarrow> fee_member list \<Rightarrow> run_input \<Rightarrow> (string, period list) gomap
    \<Rightarrow> (run_plan \<times> (string, period list) gomap) option" where
  "CreateFeeRun models members inp charged =
     (let plan = planFeeRun models members charged inp in
      if pl_Items plan = [] then None else Some (plan, fold record_item (pl_Items plan) charged))"

text \<open>\<open>FeeModelsOn\<close>.\<close>

definition FeeModelsOn :: "fee_model list \<Rightarrow> fee_member list \<Rightarrow> date
    \<Rightarrow> (member_ref \<times> fee_assignment \<times> fee_model option \<times> int option) list" where
  "FeeModelsOn models members on =
     map (\<lambda>m. (fe_ref m, fe_assignment m, modelFor m models (modelsByID models) on))
       (filter (\<lambda>m. ActiveIn (fe_membership m) \<lparr>p_Start = on, p_End = on\<rparr>) members)"

subsection \<open>The items of a plan\<close>

fun accepted :: "(fee_model \<times> period) list \<Rightarrow> period list \<Rightarrow> (fee_model \<times> period) list" where
  "accepted [] taken = []"
| "accepted ((model, p) # cs) taken =
     (if overlapsAny p taken then accepted cs taken else (model, p) # accepted cs (taken @ [p]))"

definition item_of :: "fee_member \<Rightarrow> date \<Rightarrow> fee_model \<times> period \<Rightarrow> run_item" where
  "item_of m due c = \<lparr>it_Member = fe_ref m, it_Model = fst c, it_Period = snd c,
     it_AmountCents = fee_Amount (fst c) (snd c) (fe_membership m),
     it_DueDate = (if p_Start (snd c) > due then p_Start (snd c) else due)\<rparr>"

definition sorted_candidates :: "fee_model list \<Rightarrow> run_input \<Rightarrow> fee_member \<Rightarrow> (fee_model \<times> period) list" where
  "sorted_candidates models inp m = sort_key (\<lambda>c. p_Start (snd c)) (candidate_periods m models (modelsByID models) inp)"

definition items_for :: "fee_model list \<Rightarrow> (string, period list) gomap \<Rightarrow> run_input \<Rightarrow> fee_member \<Rightarrow> run_item list" where
  "items_for models charged inp m =
     map (item_of m (in_DueDate inp)) (accepted (sorted_candidates models inp m) (gm_get [] charged (mr_ID (fe_ref m))))"

lemma charge_loop_Items:
  "pl_Items (charge_loop m due cs taken plan) = pl_Items plan @ map (item_of m due) (accepted cs taken)"
  by (induction m due cs taken plan rule: charge_loop.induct) (auto simp: item_of_def)

lemma planFeeRun_Items: "pl_Items (planFeeRun models members charged inp) = concat (map (items_for models charged inp) members)"
proof -
  have "pl_Items (fold (plan_member models (modelsByID models) charged inp) members plan)
      = pl_Items plan @ concat (map (items_for models charged inp) members)" for plan
  proof (induction members arbitrary: plan)
    case (Cons m ms)
    have "pl_Items (plan_member models (modelsByID models) charged inp m plan) = pl_Items plan @ items_for models charged inp m"
      by (simp add: plan_member_def items_for_def sorted_candidates_def charge_loop_Items Let_def)
    then show ?case using Cons by simp
  qed simp
  then show ?thesis by (simp add: planFeeRun_def)
qed

lemma Overlaps_sym: "Overlaps p q \<longleftrightarrow> Overlaps q p"
  by (auto simp: Overlaps_def)

abbreviation "apart \<equiv> \<lambda>p q. \<not> Overlaps p q"

lemma accepted_sub: "c \<in> set (accepted cs taken) \<Longrightarrow> c \<in> set cs \<and> \<not> overlapsAny (snd c) taken"
  by (induction cs taken rule: accepted.induct) (auto simp: overlapsAny_def split: if_splits)

lemma accepted_apart: "sorted_wrt apart taken \<Longrightarrow> sorted_wrt apart (taken @ map snd (accepted cs taken))"
proof (induction cs taken rule: accepted.induct)
  case (2 model p cs taken)
  have "sorted_wrt apart (taken @ [p])" if "\<not> overlapsAny p taken"
    using 2(3) that by (auto simp: sorted_wrt_append overlapsAny_def list_ex_iff Overlaps_sym)
  then show ?case using 2 by simp
qed simp

lemma accepted_complete:
  "\<forall>c \<in> set cs. Overlaps (snd c) (snd c) \<Longrightarrow> c \<in> set cs \<Longrightarrow> overlapsAny (snd c) (taken @ map snd (accepted cs taken))"
  by (induction cs taken rule: accepted.induct) (auto simp: overlapsAny_def split: if_splits)

lemma accepted_none: "\<forall>c \<in> set cs. overlapsAny (snd c) taken \<Longrightarrow> accepted cs taken = []"
  by (induction cs taken rule: accepted.induct) auto

lemma accepted_all:
  "sorted_wrt apart (map snd cs) \<Longrightarrow> \<forall>c \<in> set cs. \<not> overlapsAny (snd c) taken \<Longrightarrow> accepted cs taken = cs"
proof (induction cs taken rule: accepted.induct)
  case (2 model p cs taken)
  then have "\<not> overlapsAny (snd c) (taken @ [p])" if "c \<in> set cs" for c
    using that by (auto simp: overlapsAny_def Overlaps_sym)
  then show ?case using 2 by auto
qed simp

lemma gm_get_record_items:
  "gm_get [] (fold record_item its charged) i
    = gm_get [] charged i @ map it_Period (filter (\<lambda>it. mr_ID (it_Member it) = i) its)"
  by (induction its arbitrary: charged) (auto simp: record_item_def gm_get_def update_conv' split: option.splits)

lemma items_for_member: "it \<in> set (items_for models charged inp m) \<Longrightarrow> it_Member it = fe_ref m"
  by (auto simp: items_for_def item_of_def)

lemma candidate_period:
  assumes "(model, p) \<in> set (candidate_periods m models byID inp)"
  shows "Overlaps p p" "\<exists>k. p = period_at (Months (fm_Interval model)) k" "ActiveIn (fe_membership m) p"
    "p \<in> set (Periods (fm_Interval model) (in_From inp) (in_To inp))" "model \<in> set (candidate_models m models byID)"
    "\<exists>a. fst (modelFor m models byID (p_Start p)) = Some a \<and> fm_ID a = fm_ID model"
proof -
  show p: "p \<in> set (Periods (fm_Interval model) (in_From inp) (in_To inp))" and "ActiveIn (fe_membership m) p"
      "model \<in> set (candidate_models m models byID)"
      "\<exists>a. fst (modelFor m models byID (p_Start p)) = Some a \<and> fm_ID a = fm_ID model"
    using assms by (auto simp: candidate_periods_def split: option.splits)
  from Periods_member [OF p] obtain k where k: "p = period_at (Months (fm_Interval model)) k" "0 < Months (fm_Interval model)" by blast
  then show "\<exists>k. p = period_at (Months (fm_Interval model)) k" by blast
  have "month_start k < month_start (k + Months (fm_Interval model))" using k by (simp add: month_start_less_iff)
  then show "Overlaps p p" by (simp add: k period_at_def Overlaps_def)
qed

lemma sorted_candidates_self: "\<forall>c \<in> set (sorted_candidates models inp m). Overlaps (snd c) (snd c)"
  using candidate_period(1) by (auto simp: sorted_candidates_def)

text \<open>
  A billing run charges everything there is to charge: planned again with the fees of the run saved, it has no
  item left, and creating it a second time is refused.
\<close>

theorem CreateFeeRun_once:
  "case CreateFeeRun models members inp charged of
     None \<Rightarrow> pl_Items (planFeeRun models members charged inp) = []
   | Some (plan, charged') \<Rightarrow> pl_Items plan \<noteq> [] \<and> CreateFeeRun models members inp charged' = None"
proof (cases "pl_Items (planFeeRun models members charged inp) = []")
  case False
  let ?its = "pl_Items (planFeeRun models members charged inp)"
  let ?c = "fold record_item ?its charged"
  have "items_for models ?c inp m = []" if m: "m \<in> set members" for m
  proof -
    let ?i = "mr_ID (fe_ref m)" and ?cs = "sorted_candidates models inp m"
    have "set (gm_get [] charged ?i @ map snd (accepted ?cs (gm_get [] charged ?i))) \<subseteq> set (gm_get [] ?c ?i)"
      using m by (force simp: gm_get_record_items planFeeRun_Items items_for_def item_of_def)
    then have "\<forall>c \<in> set ?cs. overlapsAny (snd c) (gm_get [] ?c ?i)"
      using accepted_complete [OF sorted_candidates_self [of models inp m]]
      by (force simp: overlapsAny_def list_ex_iff)
    then show ?thesis by (simp add: items_for_def accepted_none)
  qed
  then show ?thesis using False by (simp add: CreateFeeRun_def planFeeRun_Items Let_def)
qed (simp add: CreateFeeRun_def)

definition no_double_charge :: "(string, period list) gomap \<Rightarrow> bool" where
  "no_double_charge charged \<longleftrightarrow> list_all (\<lambda>(i, ps). sorted_wrt apart ps) (gm_entries charged)"

lemma no_double_charge_iff: "no_double_charge charged \<longleftrightarrow> (\<forall>i. sorted_wrt apart (gm_get [] charged i))"
  unfolding no_double_charge_def list_all_iff
  by (auto simp: set_gm_entries gm_get_def split: option.splits)

lemma filter_items_of:
  assumes "distinct (map (\<lambda>m. mr_ID (fe_ref m)) members)"
  shows "filter (\<lambda>it. mr_ID (it_Member it) = i) (concat (map (items_for models charged inp) members))
    = (case find (\<lambda>m. mr_ID (fe_ref m) = i) members of None \<Rightarrow> [] | Some m \<Rightarrow> items_for models charged inp m)"
  using assms
proof (induction members)
  case (Cons m ms)
  show ?case
  proof (cases "mr_ID (fe_ref m) = i")
    case True
    then have "find (\<lambda>m. mr_ID (fe_ref m) = i) ms = None" using True Cons(2) by (auto simp: find_None_iff intro: rev_image_eqI)
    then show ?thesis using Cons True items_for_member [of _ models charged inp m]
      by (auto simp: filter_id_conv)
  next
    case False
    then have "filter (\<lambda>it. mr_ID (it_Member it) = i) (items_for models charged inp m) = []"
      using items_for_member [of _ models charged inp m] by (auto simp: filter_empty_conv)
    then show ?thesis using Cons False by simp
  qed
qed simp

text \<open>
  C8. No period is charged twice: if no two charged periods of a member overlap, this still holds after a
  billing run, for every list of members without repetition.
\<close>

theorem CreateFeeRun_no_double:
  assumes "no_double_charge charged" "distinct (map (\<lambda>m. mr_ID (fe_ref m)) members)"
    and "CreateFeeRun models members inp charged = Some (plan, charged')"
  shows "no_double_charge charged'"
proof -
  have c: "charged' = fold record_item (concat (map (items_for models charged inp) members)) charged"
    using assms(3) by (auto simp: CreateFeeRun_def planFeeRun_Items Let_def split: if_splits)
  have "sorted_wrt apart (gm_get [] charged' i)" for i
  proof (cases "find (\<lambda>m. mr_ID (fe_ref m) = i) members")
    case None
    then show ?thesis using assms(1) by (simp add: c gm_get_record_items filter_items_of [OF assms(2)] no_double_charge_iff)
  next
    case (Some m)
    then have "mr_ID (fe_ref m) = i" by (auto simp: find_Some_iff)
    then have "map it_Period (items_for models charged inp m)
        = map snd (accepted (sorted_candidates models inp m) (gm_get [] charged i))"
      by (simp add: items_for_def item_of_def)
    then show ?thesis
      using assms(1) accepted_apart [of "gm_get [] charged i"] Some
      by (simp add: c gm_get_record_items filter_items_of [OF assms(2)] no_double_charge_iff)
  qed
  then show ?thesis by (simp add: no_double_charge_iff)
qed

subsection \<open>A full year is covered once\<close>

lemma YearStart_month: "YearStart (month_start k) = month_start (12 * (k div 12))"
  by (simp add: YearStart_def go_Date_month t_Year_index)

lemma modelFor_year:
  "j div 12 = k div 12 \<Longrightarrow> modelFor m models byID (month_start j) = modelFor m models byID (month_start k)"
  unfolding modelFor_def YearStart_month by simp

text \<open>The block of \<open>n\<close> months around month \<open>k\<close>.\<close>

lemma block_unique: "n dvd j \<Longrightarrow> j \<le> k \<Longrightarrow> k < j + n \<Longrightarrow> j = k - k mod n" for n j k :: int
proof -
  assume a: "n dvd j" "j \<le> k" "k < j + n"
  then have "k mod n = (k - j) mod n" by (metis diff_zero dvd_imp_mod_0 mod_diff_right_eq)
  also have "\<dots> = k - j" using a by simp
  finally show ?thesis by simp
qed

lemma block_year:
  fixes n j k :: int
  assumes "0 < n" "n dvd 12" "n dvd j" "j \<le> k" "k < j + n"
  shows "j div 12 = k div 12"
proof -
  obtain q where q: "12 = n * q" using assms(2) by blast
  obtain i where i: "j = n * i" using assms(3) by blast
  have "k div n = i" using assms(1,4,5) by (intro int_div_pos_eq [of k n i "k - j"]) (auto simp: i)
  moreover have "j div n = i" using assms(1) by (simp add: i)
  moreover have "0 < q" using assms(1) q by (metis zero_less_mult_pos zero_less_numeral)
  ultimately show ?thesis by (simp add: q zdiv_zmult2_eq)
qed

lemma period_at_month:
  "p_Start (period_at n j) \<le> month_start k \<and> month_start k \<le> p_End (period_at n j) \<longleftrightarrow> j \<le> k \<and> k < j + n"
  by (auto simp: period_at_def month_start_le_iff month_start_less_iff zle_diff1_eq)

lemma SelectByAge_member: "SelectByAge models age = Some a \<Longrightarrow> a \<in> set models \<and> HasAgeLimit a"
  using select_loop_min [where ms = models and age = age and best = None]
  by (auto simp: SelectByAge_def fits_def)

lemma modelFor_candidate:
  assumes "fst (modelFor m models byID d) = Some a"
  shows "a \<in> set (candidate_models m models byID)"
  using assms SelectByAge_member
  by (auto simp: modelFor_def candidate_models_def gm_get_def Let_def split: fee_assignment.splits option.splits)

lemma candidate_models_inj:
  assumes "distinct (map fm_ID models)"
  shows "inj_on fm_ID (set (candidate_models m models byID)) \<and> distinct (candidate_models m models byID)"
proof -
  have "inj_on fm_ID (set models)" "distinct models" using assms by (simp_all add: distinct_map)
  then show ?thesis
    by (auto simp: candidate_models_def inj_on_def split: fee_assignment.splits)
qed

lemma candidate_unique:
  assumes ids: "distinct (map fm_ID models)"
    and c: "(a, p) \<in> set (candidate_periods m models byID inp)" "p_Start p \<le> month_start k" "month_start k \<le> p_End p"
    and c': "(a', p') \<in> set (candidate_periods m models byID inp)" "p_Start p' \<le> month_start k" "month_start k \<le> p_End p'"
  shows "a = a' \<and> p = p'"
proof -
  have main: "\<exists>j b. p = period_at (Months (fm_Interval a)) j \<and> j = k - k mod Months (fm_Interval a)
        \<and> fst (modelFor m models byID (month_start k)) = Some b \<and> fm_ID b = fm_ID a
        \<and> a \<in> set (candidate_models m models byID)"
    if x: "(a, p) \<in> set (candidate_periods m models byID inp)" "p_Start p \<le> month_start k" "month_start k \<le> p_End p" for a p
  proof -
    note f = candidate_period [OF x(1)]
    from Periods_member [OF f(4)] obtain j where j: "p = period_at (Months (fm_Interval a)) j" "Months (fm_Interval a) dvd j"
        "0 < Months (fm_Interval a)" by blast
    have r: "j \<le> k" "k < j + Months (fm_Interval a)" using x(2,3) period_at_month j(1) by blast+
    have "Months (fm_Interval a) dvd 12" using Months_dvd_12 [of "fm_Interval a"] j(3) by simp
    from modelFor_year [OF block_year [OF j(3) this j(2) r]]
    have "modelFor m models byID (p_Start p) = modelFor m models byID (month_start k)"
      by (simp add: j(1) period_at_def)
    then show ?thesis using f(5,6) j(1) block_unique [OF j(2) r] by auto
  qed
  obtain b where b: "fst (modelFor m models byID (month_start k)) = Some b" "fm_ID b = fm_ID a" "fm_ID b = fm_ID a'"
      "a \<in> set (candidate_models m models byID)" "a' \<in> set (candidate_models m models byID)"
    using main [OF c] main [OF c'] by auto
  then have "a = a'" using candidate_models_inj [OF ids, of m byID] by (auto dest: inj_onD)
  then show ?thesis using main [OF c] main [OF c'] by auto
qed

lemma distinct_candidates:
  assumes "distinct (map fm_ID models)"
  shows "distinct (candidate_periods m models byID inp)"
proof -
  have inj: "inj (period_at n)" for n by (auto simp: inj_def period_at_def dest: arg_cong [where f = month_index])
  have "distinct (Periods i lo hi)" for i lo hi
    by (auto simp: Periods_exact distinct_map intro: inj_on_subset [OF inj])
  then have D: "distinct (concat (map (\<lambda>model. map (Pair model) (filter (P model) (Periods (fm_Interval model) lo hi))) ms))"
    if "distinct ms" for ms P lo hi
    using that by (induction ms) (auto simp: distinct_map inj_on_def)
  have "distinct (candidate_models m models byID)" using candidate_models_inj [OF assms] by blast
  then show ?thesis unfolding candidate_periods_def by (rule D)
qed

lemma sorted_wrt_distinct:
  "distinct xs \<Longrightarrow> (\<And>x y. x \<in> set xs \<Longrightarrow> y \<in> set xs \<Longrightarrow> x \<noteq> y \<Longrightarrow> R x y) \<Longrightarrow> sorted_wrt R xs"
  by (induction xs) auto

lemma candidates_apart:
  assumes "distinct (map fm_ID models)"
  shows "sorted_wrt apart (map snd (sorted_candidates models inp m))"
proof -
  let ?cs = "candidate_periods m models (modelsByID models) inp"
  have "\<not> Overlaps (snd c) (snd c')" if cc: "c \<in> set ?cs" "c' \<in> set ?cs" "c \<noteq> c'" for c c'
  proof
    assume o': "Overlaps (snd c) (snd c')"
    obtain n k n' k' where p: "snd c = period_at n k" "snd c' = period_at n' k'"
      using candidate_period(2) cc by (metis prod.collapse)
    have "month_start k < month_start (k' + n')" "month_start k' < month_start (k + n)"
      using o' by (auto simp: Overlaps_def p period_at_def)
    then have lt: "k < k' + n'" "k' < k + n" by (simp_all add: month_start_less_iff)
    have "Overlaps (snd c) (snd c)" "Overlaps (snd c') (snd c')" using candidate_period(1) cc by (metis prod.collapse)+
    then have "month_start k < month_start (k + n)" "month_start k' < month_start (k' + n')"
      by (auto simp: Overlaps_def p period_at_def)
    then have "k < k + n" "k' < k' + n'" by (simp_all only: month_start_less_iff)
    then have "p_Start (snd c) \<le> month_start (max k k') \<and> month_start (max k k') \<le> p_End (snd c)"
        "p_Start (snd c') \<le> month_start (max k k') \<and> month_start (max k k') \<le> p_End (snd c')"
      unfolding p period_at_month using lt by auto
    then have "c = c'" using candidate_unique [OF assms] cc by (metis prod.collapse)
    then show False using cc by simp
  qed
  then have "sorted_wrt (\<lambda>c c'. apart (snd c) (snd c')) (sorted_candidates models inp m)"
    using distinct_candidates [OF assms] by (intro sorted_wrt_distinct) (auto simp: sorted_candidates_def)
  then show ?thesis by (simp add: sorted_wrt_map)
qed

text \<open>Without earlier charges every candidate period becomes an item.\<close>

lemma items_for_fresh:
  "distinct (map fm_ID models) \<Longrightarrow> gm_get [] charged (mr_ID (fe_ref m)) = [] \<Longrightarrow>
     items_for models charged inp m = map (item_of m (in_DueDate inp)) (sorted_candidates models inp m)"
  using candidates_apart [of models inp m] by (simp add: items_for_def accepted_all overlapsAny_def)

lemma candidate_covers:
  assumes "fst (modelFor m models byID (month_start k)) = Some a" "Months (fm_Interval a) \<noteq> 0"
    and "between (fe_membership m) (month_start k) (month_start (k + 1) - 1)"
    and "12 dvd month_index (in_From inp)" "month_index (in_From inp) \<le> k" "k \<le> month_index (in_To inp)"
  shows "\<exists>p. (a, p) \<in> set (candidate_periods m models byID inp) \<and> p_Start p \<le> month_start k \<and> month_start k \<le> p_End p"
proof -
  let ?n = "Months (fm_Interval a)"
  define j where "j = k - k mod ?n"
  have n: "0 < ?n" "?n dvd 12" using Months_dvd_12 [OF assms(2)] by auto
  have j: "?n dvd j" "j \<le> k" "k < j + ?n" using n(1) by (auto simp: j_def dvd_minus_mod)
  have "?n dvd month_index (in_From inp)" using n(2) assms(4) by (rule dvd_trans)
  then have lo: "month_index (in_From inp) \<le> j"
    using aligned_none [OF j(1), of "month_index (in_From inp)"] assms(5) j by linarith
  have p: "period_at ?n j \<in> set (Periods (fm_Interval a) (in_From inp) (in_To inp))"
    using lo j assms(2,6) by (simp add: Periods_exact)
  have "month_start j \<le> month_start k" "month_start (k + 1) \<le> month_start (j + ?n)"
    using j by (simp_all add: month_start_le_iff)
  then have "ActiveIn (fe_membership m) (period_at ?n j)"
    using assms(3) by (auto simp: ActiveIn_def between_def period_at_def split: option.splits)
  moreover have "fst (modelFor m models byID (p_Start (period_at ?n j))) = Some a"
    using modelFor_year [OF block_year [OF n j]] assms(1) by (simp add: period_at_def)
  ultimately have "(a, period_at ?n j) \<in> set (candidate_periods m models byID inp)"
    using p modelFor_candidate [OF assms(1)] by (force simp: candidate_periods_def)
  moreover have "p_Start (period_at ?n j) \<le> month_start k \<and> month_start k \<le> p_End (period_at ?n j)"
    unfolding period_at_month using j by simp
  ultimately show ?thesis by blast
qed

lemma filter_single:
  assumes "distinct xs" "x \<in> set xs" "P x" and only: "\<And>y. y \<in> set xs \<Longrightarrow> P y \<Longrightarrow> y = x"
  shows "filter P xs = [x]"
proof -
  obtain ys zs where xs: "xs = ys @ x # zs" using split_list [OF assms(2)] by blast
  have "\<not> P y" if "y \<in> set ys \<or> y \<in> set zs" for y
  proof
    assume "P y"
    then have "y = x" using only [of y] that xs by auto
    then show False using that assms(1) xs by auto
  qed
  then have "filter P ys = []" "filter P zs = []" by (simp_all add: filter_empty_conv)
  then show ?thesis using xs assms(3) by simp
qed


subsection \<open>A run at the turn of the year\<close>

definition youth_fee :: fee_model where
  "youth_fee = \<lparr>fm_ID = ''y'', fm_Name = ''Y'', fm_AmountCents = 500, fm_Interval = Quarterly, fm_MinAge = None,
     fm_MaxAge = Some 17, fm_ProRata = True\<rparr>"

definition adult_fee :: fee_model where
  "adult_fee = \<lparr>fm_ID = ''a'', fm_Name = ''A'', fm_AmountCents = 9000, fm_Interval = HalfYearly, fm_MinAge = Some 18,
     fm_MaxAge = None, fm_ProRata = True\<rparr>"

definition young_member :: fee_member where
  "young_member = \<lparr>fe_ref = \<lparr>mr_ID = ''m'', mr_Number = 1, mr_FirstName = ''F'', mr_LastName = ''L''\<rparr>,
     fe_birthday = Some (go_Date 2009 6 15), fe_membership = \<lparr>ms_Entry = Some (go_Date 2027 5 3), ms_Exit = None\<rparr>,
     fe_assignment = FeeModeAuto\<rparr>"

definition two_years :: run_input where
  "two_years = \<lparr>in_From = go_Date 2027 1 1, in_To = go_Date 2028 12 1, in_DueDate = go_Date 2027 2 1\<rparr>"


theorem CreateFeeRun_no_double_witness:
  "\<exists>plan charged. CreateFeeRun [youth_fee, adult_fee] [young_member] two_years [] = Some (plan, charged)
     \<and> no_double_charge charged"
proof -
  have "CreateFeeRun [youth_fee, adult_fee] [young_member] two_years [] \<noteq> None" by code_simp
  then obtain plan charged where c: "CreateFeeRun [youth_fee, adult_fee] [young_member] two_years [] = Some (plan, charged)"
    by (metis option.exhaust prod.collapse)
  have "no_double_charge charged" by (rule CreateFeeRun_no_double [OF _ _ c]) (simp_all add: no_double_charge_iff gm_get_def)
  with c show ?thesis by blast
qed

end
