(* ===== verification/Accounts.thy ===== *)
theory Accounts
  imports GoJson
begin

text \<open>
  Logins as the database keeps them (\<open>server/internal/store/users.go\<close>, \<open>refreshtokens.go\<close>,
  \<open>password_reset.go\<close>): users with tombstones, refresh tokens in families, password reset tokens.
  The tables are lists of rows with the constraints of the migrations. Times are nanoseconds; the
  stored texts have millisecond precision and sort like their times. New ids, hashes of passwords and the
  reading of the clock are arguments.
\<close>

definition FormatTime :: "int \<Rightarrow> int" where
  "FormatTime t = t - t mod 1000000"

record user =
  u_ID :: string
  u_Email :: string
  u_PasswordHash :: string
  u_AppRole :: string
  u_CreatedAt :: int
  u_UpdatedAt :: int

record user_row = user +
  u_deleted_at :: "int option"

record refresh_token =
  rt_ID :: string
  rt_FamilyID :: string
  rt_Email :: string
  rt_AppRole :: string
  rt_CreatedAt :: int
  rt_ExpiresAt :: int
  rt_ReplacedAt :: "int option"

record refresh_row = refresh_token +
  rt_hash :: string
  rt_user_id :: "string option"

record reset_row =
  pr_id :: string
  pr_hash :: string
  pr_user :: string
  pr_created :: int
  pr_expires :: int

record accounts =
  ac_users :: "user_row list"
  ac_refresh :: "refresh_row list"
  ac_resets :: "reset_row list"

datatype acc_error = AccNotFound | AccConflict | AccInvalidReference | AccCheckFailed

definition AppRoles :: "string list" where
  "AppRoles = [''ADMIN'', ''SECRETARY'', ''TREASURER'', ''READONLY'', ''TRAINER'']"

text \<open>Users.\<close>

definition live :: "user_row \<Rightarrow> bool" where
  "live u \<longleftrightarrow> u_deleted_at u = None"

definition scanUser :: "user_row option \<Rightarrow> acc_error + user" where
  "scanUser r = (case r of None \<Rightarrow> Inl AccNotFound | Some u \<Rightarrow> Inr (user.truncate u))"

definition ListUsers :: "accounts \<Rightarrow> user list" where
  "ListUsers a = map user.truncate (sort_key u_CreatedAt (sort_key u_ID (filter live (ac_users a))))"

definition GetUser :: "string \<Rightarrow> accounts \<Rightarrow> acc_error + user" where
  "GetUser i a = scanUser (find (\<lambda>u. live u \<and> u_ID u = i) (ac_users a))"

definition GetUserByEmail :: "string \<Rightarrow> accounts \<Rightarrow> acc_error + user" where
  "GetUserByEmail email a = scanUser (find (\<lambda>u. live u \<and> u_Email u = email) (ac_users a))"

definition UserEmailTaken :: "string \<Rightarrow> string \<Rightarrow> accounts \<Rightarrow> bool" where
  "UserEmailTaken email exceptID a \<longleftrightarrow>
     list_ex (\<lambda>u. live u \<and> map to_lower (u_Email u) = map to_lower email \<and> u_ID u \<noteq> exceptID) (ac_users a)"

definition CreateUser :: "string \<Rightarrow> int \<Rightarrow> string \<Rightarrow> string \<Rightarrow> string \<Rightarrow> accounts \<Rightarrow> acc_error + (user \<times> accounts)" where
  "CreateUser newID now email passwordHash appRole a =
     (let row = \<lparr>u_ID = newID, u_Email = email, u_PasswordHash = passwordHash, u_AppRole = appRole,
                 u_CreatedAt = FormatTime now, u_UpdatedAt = FormatTime now, u_deleted_at = None\<rparr> in
      if \<not> List.member AppRoles appRole then Inl AccCheckFailed
      else if list_ex (\<lambda>u. u_ID u = newID \<or> live u \<and> u_Email u = email) (ac_users a) then Inl AccConflict
      else (let a' = a\<lparr>ac_users := ac_users a @ [row]\<rparr> in
            case GetUser newID a' of Inl e \<Rightarrow> Inl e | Inr u \<Rightarrow> Inr (u, a')))"

definition UpdateUser :: "string \<Rightarrow> string option \<Rightarrow> string option \<Rightarrow> int \<Rightarrow> accounts \<Rightarrow> acc_error + (user \<times> accounts)" where
  "UpdateUser i email appRole now a =
     (case find (\<lambda>u. live u \<and> u_ID u = i) (ac_users a) of
        None \<Rightarrow> Inl AccNotFound
      | Some old \<Rightarrow>
          (let email' = (case email of None \<Rightarrow> u_Email old | Some e \<Rightarrow> e);
               role' = (case appRole of None \<Rightarrow> u_AppRole old | Some r \<Rightarrow> r) in
           if \<not> List.member AppRoles role' then Inl AccCheckFailed
           else if list_ex (\<lambda>u. live u \<and> u_ID u \<noteq> i \<and> u_Email u = email') (ac_users a) then Inl AccConflict
           else (let a' = a\<lparr>ac_users := map (\<lambda>u. if live u \<and> u_ID u = i
                                              then u\<lparr>u_Email := email', u_AppRole := role', u_UpdatedAt := FormatTime now\<rparr>
                                              else u) (ac_users a),
                           ac_refresh := filter (\<lambda>r. rt_user_id r \<noteq> Some i) (ac_refresh a)\<rparr> in
                 case GetUser i a' of Inl e \<Rightarrow> Inl e | Inr u \<Rightarrow> Inr (u, a'))))"

definition SetUserPassword :: "string \<Rightarrow> string \<Rightarrow> int \<Rightarrow> accounts \<Rightarrow> acc_error + accounts" where
  "SetUserPassword email passwordHash now a =
     (if \<not> list_ex (\<lambda>u. live u \<and> u_Email u = email) (ac_users a) then Inl AccNotFound
      else Inr (a\<lparr>ac_users := map (\<lambda>u. if live u \<and> u_Email u = email
                                       then u\<lparr>u_PasswordHash := passwordHash, u_UpdatedAt := FormatTime now\<rparr> else u) (ac_users a),
                  ac_refresh := filter (\<lambda>r. rt_Email r \<noteq> email) (ac_refresh a)\<rparr>))"

definition DeleteUser :: "string \<Rightarrow> int \<Rightarrow> accounts \<Rightarrow> acc_error + accounts" where
  "DeleteUser i now a =
     (if \<not> list_ex (\<lambda>u. live u \<and> u_ID u = i) (ac_users a) then Inl AccNotFound
      else Inr (a\<lparr>ac_users := map (\<lambda>u. if live u \<and> u_ID u = i
                                       then u\<lparr>u_deleted_at := Some (FormatTime now), u_UpdatedAt := FormatTime now\<rparr> else u) (ac_users a),
                  ac_refresh := filter (\<lambda>r. rt_user_id r \<noteq> Some i) (ac_refresh a),
                  ac_resets := filter (\<lambda>r. pr_user r \<noteq> i) (ac_resets a)\<rparr>))"

text \<open>Refresh tokens.\<close>

definition insert_refresh :: "refresh_row \<Rightarrow> accounts \<Rightarrow> acc_error + accounts" where
  "insert_refresh row a =
     (if list_ex (\<lambda>r. rt_ID r = rt_ID row \<or> rt_hash r = rt_hash row) (ac_refresh a) then Inl AccConflict
      else if \<not> (case rt_user_id row of None \<Rightarrow> True | Some i \<Rightarrow> list_ex (\<lambda>u. u_ID u = i) (ac_users a)) then Inl AccInvalidReference
      else Inr (a\<lparr>ac_refresh := ac_refresh a @ [row]\<rparr>))"

definition CreateRefreshToken :: "string \<Rightarrow> string \<Rightarrow> string \<Rightarrow> string \<Rightarrow> string \<Rightarrow> string \<Rightarrow> int \<Rightarrow> int \<Rightarrow> accounts \<Rightarrow> acc_error + accounts" where
  "CreateRefreshToken newID tokenHash familyID email appRole userID createdAt expiresAt a =
     insert_refresh \<lparr>rt_ID = newID, rt_FamilyID = familyID, rt_Email = email, rt_AppRole = appRole, rt_CreatedAt = FormatTime createdAt,
         rt_ExpiresAt = FormatTime expiresAt, rt_ReplacedAt = None, rt_hash = tokenHash,
         rt_user_id = (if userID \<noteq> '''' then Some userID else None)\<rparr>
       (a\<lparr>ac_refresh := filter (\<lambda>r. \<not> rt_ExpiresAt r < FormatTime createdAt) (ac_refresh a)\<rparr>)"

definition GetRefreshToken :: "string \<Rightarrow> accounts \<Rightarrow> acc_error + refresh_token" where
  "GetRefreshToken tokenHash a =
     (case find (\<lambda>r. rt_hash r = tokenHash) (ac_refresh a) of
        None \<Rightarrow> Inl AccNotFound
      | Some r \<Rightarrow> Inr (refresh_token.truncate r))"

definition RotateRefreshToken :: "refresh_token \<Rightarrow> string \<Rightarrow> string \<Rightarrow> int \<Rightarrow> int \<Rightarrow> accounts \<Rightarrow> acc_error + accounts" where
  "RotateRefreshToken old newID newHash now expiresAt a =
     (case find (\<lambda>r. rt_ID r = rt_ID old \<and> rt_ReplacedAt r = None) (ac_refresh a) of
        None \<Rightarrow> Inl AccNotFound
      | Some row \<Rightarrow>
          insert_refresh (row\<lparr>rt_ID := newID, rt_hash := newHash, rt_CreatedAt := FormatTime now, rt_ExpiresAt := FormatTime expiresAt\<rparr>)
            (a\<lparr>ac_refresh := map (\<lambda>r. if rt_ID r = rt_ID old \<and> rt_ReplacedAt r = None
                                      then r\<lparr>rt_ReplacedAt := Some (FormatTime now)\<rparr> else r) (ac_refresh a)\<rparr>))"

definition RevokeRefreshTokenFamily :: "string \<Rightarrow> accounts \<Rightarrow> accounts" where
  "RevokeRefreshTokenFamily familyID a = a\<lparr>ac_refresh := filter (\<lambda>r. rt_FamilyID r \<noteq> familyID) (ac_refresh a)\<rparr>"

definition RevokeRefreshTokensForEmail :: "string \<Rightarrow> accounts \<Rightarrow> accounts" where
  "RevokeRefreshTokensForEmail email a = a\<lparr>ac_refresh := filter (\<lambda>r. rt_Email r \<noteq> email) (ac_refresh a)\<rparr>"

text \<open>Password reset tokens; only the hash of a token is kept.\<close>

definition hex_encode :: "bytes \<Rightarrow> string" where
  "hex_encode d = concat (map (\<lambda>c. fix_digits 16 2 (byte_of c)) d)"

definition hashResetToken :: "('c) crypto_scheme \<Rightarrow> string \<Rightarrow> string" where
  "hashResetToken C token = hex_encode (sha256 C token)"

definition deleteExpiredResetTokens :: "int \<Rightarrow> accounts \<Rightarrow> accounts" where
  "deleteExpiredResetTokens now a = a\<lparr>ac_resets := filter (\<lambda>r. \<not> pr_expires r \<le> FormatTime now) (ac_resets a)\<rparr>"

definition CreatePasswordResetToken :: "('c) crypto_scheme \<Rightarrow> string \<Rightarrow> int \<Rightarrow> string \<Rightarrow> string \<Rightarrow> int \<Rightarrow> accounts \<Rightarrow> acc_error + accounts" where
  "CreatePasswordResetToken C newID now userID token expiresAt a =
     (let a1 = deleteExpiredResetTokens now a;
          rows = filter (\<lambda>r. pr_user r \<noteq> userID) (ac_resets a1) in
      if list_ex (\<lambda>r. pr_id r = newID \<or> pr_hash r = hashResetToken C token) rows then Inl AccConflict
      else Inr (a1\<lparr>ac_resets := rows @ [\<lparr>pr_id = newID, pr_hash = hashResetToken C token, pr_user = userID,
                                        pr_created = FormatTime now, pr_expires = FormatTime expiresAt\<rparr>]\<rparr>))"

definition ConsumePasswordResetToken :: "('c) crypto_scheme \<Rightarrow> int \<Rightarrow> string \<Rightarrow> accounts \<Rightarrow> (acc_error + string) \<times> accounts" where
  "ConsumePasswordResetToken C now token a =
     (let a1 = deleteExpiredResetTokens now a in
      case find (\<lambda>r. pr_hash r = hashResetToken C token) (ac_resets a1) of
        None \<Rightarrow> (Inl AccNotFound, a1)
      | Some r \<Rightarrow>
          (if pr_user r = '''' then Inl AccNotFound else Inr (pr_user r),
           a1\<lparr>ac_resets := filter (\<lambda>x. pr_user x \<noteq> pr_user r) (ac_resets a1)\<rparr>))"

lemma FormatTime_mono: "s \<le> t \<Longrightarrow> FormatTime s \<le> FormatTime t"
proof -
  assume "s \<le> t"
  then have "s div 1000000 \<le> t div 1000000" by (rule zdiv_mono1) simp
  moreover have "FormatTime x = 1000000 * (x div 1000000)" for x by (simp add: FormatTime_def minus_mod_eq_mult_div)
  ultimately show ?thesis by simp
qed

lemma FormatTime_le: "FormatTime t \<le> t"
  by (simp add: FormatTime_def)

lemma find_Some_unique:
  assumes "find P xs = Some x" shows "x \<in> set xs" "P x"
  using assms by (auto simp: find_Some_iff)

subsection \<open>Password reset tokens\<close>

text \<open>
  The log of what happened to the reset tokens, newest first, and the link it leaves to an account: the one issued
  last, unless it was redeemed or the account deleted since.
\<close>

datatype reset_event = Issued string string int | Redeemed string | Dropped string

fun current :: "reset_event list \<Rightarrow> string \<Rightarrow> (string \<times> int) option" where
  "current [] u = None"
| "current (Issued v h e # l) u = (if u = v then Some (h, e) else current l u)"
| "current (Redeemed v # l) u = (if u = v then None else current l u)"
| "current (Dropped v # l) u = (if u = v then None else current l u)"

text \<open>The histories of a database, with the time of their last step.\<close>

inductive reset_history :: "('c) crypto_scheme \<Rightarrow> accounts \<Rightarrow> reset_event list \<Rightarrow> int \<Rightarrow> bool" for C where
  start: "ac_resets a = [] \<Longrightarrow> reset_history C a [] t"
| issue: "reset_history C a l t \<Longrightarrow> t \<le> now \<Longrightarrow> CreatePasswordResetToken C i now u tok expiry a = Inr a'
    \<Longrightarrow> reset_history C a' (Issued u (hashResetToken C tok) (FormatTime expiry) # l) now"
| redeem: "reset_history C a l t \<Longrightarrow> t \<le> now \<Longrightarrow> ConsumePasswordResetToken C now tok a = (Inr u, a')
    \<Longrightarrow> reset_history C a' (Redeemed u # l) now"
| refused: "reset_history C a l t \<Longrightarrow> t \<le> now \<Longrightarrow> ConsumePasswordResetToken C now tok a = (Inl e, a')
    \<Longrightarrow> reset_history C a' l now"
| delete: "reset_history C a l t \<Longrightarrow> t \<le> now \<Longrightarrow> DeleteUser u now a = Inr a'
    \<Longrightarrow> reset_history C a' (Dropped u # l) now"
| other: "reset_history C a l t \<Longrightarrow> t \<le> now \<Longrightarrow> ac_resets a' = ac_resets a \<Longrightarrow> reset_history C a' l now"

definition rows_follow :: "reset_row list \<Rightarrow> reset_event list \<Rightarrow> int \<Rightarrow> bool" where
  "rows_follow rows l t \<longleftrightarrow> distinct (map pr_user rows) \<and> distinct (map pr_hash rows)
     \<and> (\<forall>r \<in> set rows. current l (pr_user r) = Some (pr_hash r, pr_expires r))
     \<and> (\<forall>u h e. u \<noteq> '''' \<longrightarrow> current l u = Some (h, e) \<longrightarrow> FormatTime t < e \<longrightarrow> (\<exists>r \<in> set rows. pr_user r = u \<and> pr_hash r = h \<and> pr_expires r = e))"

lemma rows_follow_later: "rows_follow rows l t \<Longrightarrow> t \<le> now \<Longrightarrow> rows_follow rows l now"
  using FormatTime_mono [of t now] unfolding rows_follow_def by (meson le_less_trans)

lemma rows_follow_expire:
  "rows_follow rows l now \<Longrightarrow> rows_follow (filter (\<lambda>r. \<not> pr_expires r \<le> FormatTime now) rows) l now"
  unfolding rows_follow_def by (auto simp: distinct_map inj_on_def) fastforce

lemma rows_follow_without:
  assumes "rows_follow rows l now" "\<And>v. current l' v = (if v = u then None else current l v)"
  shows "rows_follow (filter (\<lambda>r. pr_user r \<noteq> u) rows) l' now"
  using assms unfolding rows_follow_def by (auto simp: distinct_map inj_on_def split: if_splits) fastforce

lemma rows_follow_issue:
  assumes "rows_follow rows l now" "\<forall>r \<in> set rows. pr_user r \<noteq> pr_user x \<and> pr_hash r \<noteq> pr_hash x"
    and "\<And>v. current l' v = (if v = pr_user x then Some (pr_hash x, pr_expires x) else current l v)"
  shows "rows_follow (rows @ [x]) l' now"
  using assms unfolding rows_follow_def by (auto split: if_splits)

lemma rows_follow_nobody:
  "rows_follow rows l now \<Longrightarrow> rows_follow (filter (\<lambda>r. pr_user r \<noteq> '''') rows) l now"
  unfolding rows_follow_def by (auto simp: distinct_map inj_on_def) fastforce

lemma consume_cases:
  assumes "ConsumePasswordResetToken C now tok a = (res, a')"
  obtains (none) "\<forall>r \<in> set (ac_resets a). pr_hash r = hashResetToken C tok \<longrightarrow> pr_expires r \<le> FormatTime now"
      "res = Inl AccNotFound" "ac_resets a' = filter (\<lambda>r. \<not> pr_expires r \<le> FormatTime now) (ac_resets a)"
    | (some) r where "r \<in> set (ac_resets a)" "pr_hash r = hashResetToken C tok" "FormatTime now < pr_expires r"
      "res = (if pr_user r = '''' then Inl AccNotFound else Inr (pr_user r))"
      "ac_resets a' = filter (\<lambda>x. pr_user x \<noteq> pr_user r) (filter (\<lambda>r. \<not> pr_expires r \<le> FormatTime now) (ac_resets a))"
proof (cases "find (\<lambda>r. pr_hash r = hashResetToken C tok) (ac_resets (deleteExpiredResetTokens now a))")
  case None
  have "res = Inl AccNotFound \<and> a' = deleteExpiredResetTokens now a"
    using assms by (simp add: ConsumePasswordResetToken_def Let_def None)
  then show ?thesis using None none by (auto simp: deleteExpiredResetTokens_def find_None_iff)
next
  case (Some r)
  have "res = (if pr_user r = '''' then Inl AccNotFound else Inr (pr_user r))
      \<and> ac_resets a' = filter (\<lambda>x. pr_user x \<noteq> pr_user r) (ac_resets (deleteExpiredResetTokens now a))"
    using assms by (auto simp: ConsumePasswordResetToken_def Let_def Some)
  then show ?thesis using some [of r] find_Some_unique [OF Some] by (simp add: deleteExpiredResetTokens_def not_le)
qed

lemma history_rows: "reset_history C a l t \<Longrightarrow> rows_follow (ac_resets a) l t"
proof (induction rule: reset_history.induct)
  case (start a t)
  then show ?case by (simp add: rows_follow_def)
next
  case (issue a l t now i u tok expiry a')
  let ?rows = "filter (\<lambda>r. pr_user r \<noteq> u) (filter (\<lambda>r. \<not> pr_expires r \<le> FormatTime now) (ac_resets a))"
  let ?l = "Dropped u # l"
  let ?x = "\<lparr>pr_id = i, pr_hash = hashResetToken C tok, pr_user = u, pr_created = FormatTime now, pr_expires = FormatTime expiry\<rparr>"
  have "rows_follow ?rows ?l now"
    by (intro rows_follow_without [where l = l] rows_follow_expire rows_follow_later [OF issue.IH] issue.hyps) simp
  moreover have "ac_resets a' = ?rows @ [?x]" "\<forall>r \<in> set ?rows. pr_user r \<noteq> pr_user ?x \<and> pr_hash r \<noteq> pr_hash ?x"
    using issue.hyps(3) by (auto simp: CreatePasswordResetToken_def deleteExpiredResetTokens_def Let_def list_ex_iff split: if_splits)
  ultimately show ?case using rows_follow_issue [of ?rows ?l now ?x] by simp
next
  case (redeem a l t now tok u a')
  from redeem.hyps(3) show ?case
  proof (cases rule: consume_cases)
    case (some r)
    then have "u = pr_user r" by (simp split: if_splits)
    then show ?thesis unfolding some
      by (intro rows_follow_without [where l = l] rows_follow_expire rows_follow_later [OF redeem.IH] redeem.hyps) simp
  qed simp
next
  case (refused a l t now tok e a')
  note e = rows_follow_expire [OF rows_follow_later [OF refused.IH refused.hyps(2)]]
  from refused.hyps(3) show ?case
  proof (cases rule: consume_cases)
    case (some r)
    then have "pr_user r = ''''" by (simp split: if_splits)
    then show ?thesis unfolding some using rows_follow_nobody [OF e] by simp
  qed (simp add: e)
next
  case (delete a l t now u a')
  have "ac_resets a' = filter (\<lambda>r. pr_user r \<noteq> u) (ac_resets a)"
    using delete.hyps(3) by (auto simp: DeleteUser_def split: if_splits)
  then show ?case using rows_follow_without [where l = l] rows_follow_later [OF delete.IH delete.hyps(2)] by simp
next
  case (other a l t now a')
  then show ?case by (simp add: rows_follow_later)
qed

text \<open>
  C19. A password reset link works exactly as promised: after any history, a token redeems an account if and only if
  it is the one issued last to this account, the account was not deleted and no token of it redeemed since, and it
  has not expired. So a link works at most once, and an older link never again.
\<close>

theorem reset_link_exact:
  assumes "reset_history C a l t" "t \<le> now" "u \<noteq> ''''"
  shows "fst (ConsumePasswordResetToken C now tok a) = Inr u
     \<longleftrightarrow> (\<exists>e. current l u = Some (hashResetToken C tok, e) \<and> FormatTime now < e)"
proof -
  have rows: "rows_follow (ac_resets a) l now" using rows_follow_later [OF history_rows] assms by blast
  obtain res a' where c: "ConsumePasswordResetToken C now tok a = (res, a')" by fastforce
  then show ?thesis
  proof (cases rule: consume_cases)
    case none
    then show ?thesis using rows c assms(3) unfolding rows_follow_def by fastforce
  next
    case (some r)
    have u: "pr_user r = u" if "current l u = Some (hashResetToken C tok, e)" "FormatTime now < e" for e
    proof -
      have "\<exists>r' \<in> set (ac_resets a). pr_user r' = u \<and> pr_hash r' = hashResetToken C tok \<and> pr_expires r' = e"
        using rows assms(3) that by (simp add: rows_follow_def)
      then obtain r' where r': "r' \<in> set (ac_resets a)" "pr_user r' = u" "pr_hash r' = hashResetToken C tok" by blast
      have "inj_on pr_hash (set (ac_resets a))" using rows by (simp add: rows_follow_def distinct_map)
      then have "r' = r" using some(1,2) r' by (simp add: inj_on_def)
      then show ?thesis using r' by simp
    qed
    have cur: "current l (pr_user r) = Some (hashResetToken C tok, pr_expires r)"
      using rows some(1,2) unfolding rows_follow_def by fastforce
    have "fst (ConsumePasswordResetToken C now tok a) = Inr u \<longleftrightarrow> pr_user r = u"
      using c some(4) assms(3) by (cases "pr_user r = ''''") auto
    then show ?thesis using u cur some(3) by blast
  qed
qed

definition no_accounts :: accounts where
  "no_accounts = \<lparr>ac_users = [], ac_refresh = [], ac_resets = []\<rparr>"

definition one_link :: accounts where
  "one_link = projr (CreatePasswordResetToken toy_crypto ''1'' 0 ''user'' ''old'' 3600000000000 no_accounts)"

definition two_links :: accounts where
  "two_links = projr (CreatePasswordResetToken toy_crypto ''2'' 5000000 ''user'' ''newest'' 3600005000000 one_link)"

theorem reset_link_exact_witness:
  "fst (ConsumePasswordResetToken toy_crypto 6000000 ''newest'' two_links) = Inr ''user''
   \<and> fst (ConsumePasswordResetToken toy_crypto 6000000 ''old'' two_links) \<noteq> Inr ''user''
   \<and> fst (ConsumePasswordResetToken toy_crypto 3600005000000 ''newest'' two_links) \<noteq> Inr ''user''"
proof -
  have "CreatePasswordResetToken toy_crypto ''1'' 0 ''user'' ''old'' 3600000000000 no_accounts = Inr one_link"
    "CreatePasswordResetToken toy_crypto ''2'' 5000000 ''user'' ''newest'' 3600005000000 one_link = Inr two_links"
    by (simp_all add: two_links_def one_link_def no_accounts_def CreatePasswordResetToken_def deleteExpiredResetTokens_def Let_def)
  then have h: "reset_history toy_crypto two_links [Issued ''user'' (hashResetToken toy_crypto ''newest'') (FormatTime 3600005000000),
      Issued ''user'' (hashResetToken toy_crypto ''old'') (FormatTime 3600000000000)] 5000000"
    by (intro reset_history.issue [where t = 0] reset_history.issue [where t = 0, OF reset_history.start]) (simp_all add: no_accounts_def)
  have differ: "hashResetToken toy_crypto ''old'' \<noteq> hashResetToken toy_crypto ''newest''"
  proof -
    have "take 2 (hashResetToken toy_crypto (c # r)) = fix_digits 16 2 (byte_of c)" for c r
      by (simp add: hashResetToken_def hex_encode_def toy_crypto_def pad_to_def take_Cons')
    moreover have "fix_digits 16 2 (byte_of (CHR ''o'')) \<noteq> fix_digits 16 2 (byte_of (CHR ''n''))" by code_simp
    ultimately show ?thesis by metis
  qed
  show ?thesis
    using reset_link_exact [OF h, of 6000000 "''user''" "''newest''"] reset_link_exact [OF h, of 6000000 "''user''" "''old''"]
      reset_link_exact [OF h, of 3600005000000 "''user''" "''newest''"] differ
    by (simp add: FormatTime_def)
qed

end
