(* ===== verification/GoNet.thy ===== *)
theory GoNet
  imports GoLib
begin

text \<open>
  \<open>net.SplitHostPort\<close> of Go's standard library: the host of a \<open>host:port\<close> or \<open>[host]:port\<close> text.
\<close>

definition after_last :: "char \<Rightarrow> string \<Rightarrow> string" where
  "after_last c s = rev (takeWhile (\<lambda>x. x \<noteq> c) (rev s))"

definition before_last :: "char \<Rightarrow> string \<Rightarrow> string" where
  "before_last c s = rev (tl (dropWhile (\<lambda>x. x \<noteq> c) (rev s)))"

definition SplitHostPort :: "string \<Rightarrow> (string \<times> string) option" where
  "SplitHostPort s =
     (if CHR '':'' \<notin> set s then None
      else
        (let port = after_last (CHR '':'') s in
         case s of
           [] \<Rightarrow> None
         | c # r \<Rightarrow>
             if c = CHR ''['' then
               (if CHR '']'' \<notin> set r then None
                else
                  (let host = takeWhile (\<lambda>x. x \<noteq> CHR '']'') r; rest = tl (dropWhile (\<lambda>x. x \<noteq> CHR '']'') r) in
                   if rest \<noteq> CHR '':'' # port then None
                   else if CHR ''['' \<in> set r \<or> CHR '']'' \<in> set rest then None
                   else Some (host, port)))
             else
               (let host = before_last (CHR '':'') s in
                if CHR '':'' \<in> set host then None
                else if CHR ''['' \<in> set s \<or> CHR '']'' \<in> set s then None
                else Some (host, port))))"

lemma split_last:
  "CHR '':'' \<notin> set port \<Longrightarrow> after_last (CHR '':'') (host @ CHR '':'' # port) = port
     \<and> before_last (CHR '':'') (host @ CHR '':'' # port) = host"
proof -
  assume "CHR '':'' \<notin> set port"
  then have "takeWhile (\<lambda>x. x \<noteq> CHR '':'') (rev port @ CHR '':'' # rev host) = rev port"
      "dropWhile (\<lambda>x. x \<noteq> CHR '':'') (rev port @ CHR '':'' # rev host) = CHR '':'' # rev host"
    by (auto simp: takeWhile_tail dropWhile_append3 set_rev)
  then show ?thesis by (simp add: after_last_def before_last_def)
qed

text \<open>A plain host and port, and a bracketed one, split into their parts.\<close>

lemma SplitHostPort_plain:
  assumes "list_all (\<lambda>c. c \<noteq> CHR '':'' \<and> c \<noteq> CHR ''['' \<and> c \<noteq> CHR '']'') (host @ port)"
  shows "SplitHostPort (host @ CHR '':'' # port) = Some (host, port)"
proof -
  have c: "CHR '':'' \<notin> set port" "CHR '':'' \<notin> set host" "CHR ''['' \<notin> set (host @ CHR '':'' # port)"
      "CHR '']'' \<notin> set (host @ CHR '':'' # port)"
    using assms by (auto simp: list_all_iff)
  then have "host = [] \<or> hd host \<noteq> CHR ''[''" by (cases host) auto
  then show ?thesis
    using c split_last [OF c(1), of host] by (cases host) (auto simp: SplitHostPort_def Let_def)
qed

lemma SplitHostPort_bracket:
  assumes "list_all (\<lambda>c. c \<noteq> CHR ''['' \<and> c \<noteq> CHR '']'') host"
    and "list_all (\<lambda>c. c \<noteq> CHR '':'' \<and> c \<noteq> CHR ''['' \<and> c \<noteq> CHR '']'') port"
  shows "SplitHostPort (CHR ''['' # host @ CHR '']'' # CHR '':'' # port) = Some (host, port)"
proof -
  have c: "CHR '':'' \<notin> set port" "CHR '']'' \<notin> set host" "CHR ''['' \<notin> set host" "CHR ''['' \<notin> set port" "CHR '']'' \<notin> set port"
    using assms by (auto simp: list_all_iff)
  have "after_last (CHR '':'') ((CHR ''['' # host @ [CHR '']'']) @ CHR '':'' # port) = port"
    using split_last [OF c(1)] by blast
  moreover have "takeWhile (\<lambda>x. x \<noteq> CHR '']'') (host @ CHR '']'' # CHR '':'' # port) = host"
      "dropWhile (\<lambda>x. x \<noteq> CHR '']'') (host @ CHR '']'' # CHR '':'' # port) = CHR '']'' # CHR '':'' # port"
    using c by (auto simp: takeWhile_tail dropWhile_append3)
  ultimately show ?thesis using c by (simp add: SplitHostPort_def Let_def)
qed

end
