(* ===== verification/LoginLimit.thy ===== *)
theory LoginLimit
  imports GoNet Wire
begin

text \<open>
  Throttling of logins (\<open>server/internal/handlers/loginlimit.go\<close>): failed attempts per account and per
  source address, kept in memory. Times and durations are nanoseconds, 0 is the zero time, and
  the clock only moves forward. \<open>strings.ToLower\<close> is a parameter.
\<close>

definition second_ns :: int where "second_ns = 1000000000"

definition loginAccountThreshold :: int where "loginAccountThreshold = 5"
definition loginSourceThreshold :: int where "loginSourceThreshold = 20"
definition loginBaseLockout :: int where "loginBaseLockout = 30 * second_ns"
definition loginMaxLockout :: int where "loginMaxLockout = 15 * 60 * second_ns"
definition loginFailureWindow :: int where "loginFailureWindow = 15 * 60 * second_ns"

lemmas login_limits = loginAccountThreshold_def loginSourceThreshold_def loginBaseLockout_def loginMaxLockout_def
  loginFailureWindow_def second_ns_def

record login_attempts =
  la_failures :: int
  la_lastFailure :: int
  la_lockedUntil :: int

type_synonym limiter = "(string, login_attempts) gomap"

definition accountKey :: "(string \<Rightarrow> string) \<Rightarrow> string \<Rightarrow> string" where
  "accountKey lower email = ''account:'' @ lower (TrimSpace email)"

definition sourceKey :: "string \<Rightarrow> string" where
  "sourceKey remoteAddr = ''source:'' @ (case SplitHostPort remoteAddr of None \<Rightarrow> remoteAddr | Some (host, port) \<Rightarrow> host)"

definition retryAfter :: "string \<Rightarrow> string \<Rightarrow> int \<Rightarrow> limiter \<Rightarrow> int" where
  "retryAfter account src now l =
     fold (\<lambda>key wait.
        case map_of l key of
          None \<Rightarrow> wait
        | Some e \<Rightarrow> if la_lockedUntil e > now then max wait (la_lockedUntil e - now) else wait) [account, src] 0"

text \<open>\<open>record\<close> and \<open>prune\<close>; an entry is dead when it neither locks nor counts any more.\<close>

definition lockout :: "int \<Rightarrow> int" where
  "lockout over = (if over < 10 then min (loginBaseLockout * 2 ^ nat over) loginMaxLockout else loginMaxLockout)"

definition ll_record :: "string \<Rightarrow> int \<Rightarrow> int \<Rightarrow> limiter \<Rightarrow> limiter" where
  "ll_record key threshold now l =
     (let e = (case map_of l key of
                 None \<Rightarrow> \<lparr>la_failures = 0, la_lastFailure = 0, la_lockedUntil = 0\<rparr>
               | Some e \<Rightarrow>
                   if now - la_lastFailure e > loginFailureWindow
                   then \<lparr>la_failures = 0, la_lastFailure = 0, la_lockedUntil = 0\<rparr> else e);
          e1 = e\<lparr>la_failures := la_failures e + 1, la_lastFailure := now\<rparr>;
          over = la_failures e1 - threshold
      in AList.update key (if over \<ge> 0 then e1\<lparr>la_lockedUntil := now + lockout over\<rparr> else e1) l)"

definition dead :: "int \<Rightarrow> login_attempts \<Rightarrow> bool" where
  "dead now e \<longleftrightarrow> now > la_lockedUntil e \<and> now - la_lastFailure e > loginFailureWindow"

definition prune :: "int \<Rightarrow> limiter \<Rightarrow> limiter" where
  "prune now l = filter (\<lambda>(key, e). \<not> dead now e) (gm_entries l)"

definition failure :: "string \<Rightarrow> string \<Rightarrow> int \<Rightarrow> limiter \<Rightarrow> limiter" where
  "failure account src now l =
     ll_record src loginSourceThreshold now (ll_record account loginAccountThreshold now (prune now l))"

definition success :: "string \<Rightarrow> limiter \<Rightarrow> limiter" where
  "success account l = AList.delete account l"

text \<open>A history of attempts, each at a time not before the ones before it.\<close>

datatype login_event = Failed string string | Succeeded string

fun ll_run :: "(int \<times> login_event) list \<Rightarrow> int \<Rightarrow> limiter \<Rightarrow> limiter" where
  "ll_run [] t l = l"
| "ll_run ((d, ev) # evs) t l =
     ll_run evs (t + \<bar>d\<bar>) (case ev of Failed a s \<Rightarrow> failure a s (t + \<bar>d\<bar>) l | Succeeded a \<Rightarrow> success a l)"

subsection \<open>Pruning is invisible\<close>

text \<open>The reference: the same limiter that never forgets an entry.\<close>

definition failure_ref :: "string \<Rightarrow> string \<Rightarrow> int \<Rightarrow> limiter \<Rightarrow> limiter" where
  "failure_ref account src now l = ll_record src loginSourceThreshold now (ll_record account loginAccountThreshold now l)"

fun ref_run :: "(int \<times> login_event) list \<Rightarrow> int \<Rightarrow> limiter \<Rightarrow> limiter" where
  "ref_run [] t l = l"
| "ref_run ((d, ev) # evs) t l =
     ref_run evs (t + \<bar>d\<bar>) (case ev of Failed a s \<Rightarrow> failure_ref a s (t + \<bar>d\<bar>) l | Succeeded a \<Rightarrow> success a l)"

fun end_time :: "(int \<times> login_event) list \<Rightarrow> int \<Rightarrow> int" where
  "end_time [] t = t"
| "end_time ((d, ev) # evs) t = end_time evs (t + \<bar>d\<bar>)"

definition same_live :: "int \<Rightarrow> limiter \<Rightarrow> limiter \<Rightarrow> bool" where
  "same_live now l l' \<longleftrightarrow>
     (\<forall>key. map_of l key = map_of l' key \<or> map_of l key = None \<and> (\<exists>e. map_of l' key = Some e \<and> dead now e))"

lemma dead_later: "dead now e \<Longrightarrow> now \<le> now' \<Longrightarrow> dead now' e"
  by (auto simp: dead_def)

lemma same_live_later: "same_live now l l' \<Longrightarrow> now \<le> now' \<Longrightarrow> same_live now' l l'"
  unfolding same_live_def using dead_later by blast

lemma map_of_prune: "map_of (prune now l) key = (case map_of l key of None \<Rightarrow> None | Some e \<Rightarrow> if dead now e then None else Some e)"
proof -
  have "map_of (filter (\<lambda>(key, e). P e) es) key = (case map_of es key of None \<Rightarrow> None | Some e \<Rightarrow> if P e then Some e else None)"
    if "distinct (map fst es)" for es :: limiter and P
    using that by (induction es) (auto split: option.splits simp: rev_image_eqI map_of_eq_None_iff)
  from this [of "gm_entries l" "\<lambda>e. \<not> dead now e"] show ?thesis
    unfolding prune_def by (auto split: option.splits)
qed

lemma same_live_prune: "same_live now l l' \<Longrightarrow> same_live now (prune now l) l'"
  unfolding same_live_def
proof (intro allI)
  fix key assume "\<forall>key. map_of l key = map_of l' key \<or> map_of l key = None \<and> (\<exists>e. map_of l' key = Some e \<and> dead now e)"
  then have "map_of l key = map_of l' key \<or> map_of l key = None \<and> (\<exists>e. map_of l' key = Some e \<and> dead now e)" by (rule spec)
  then show "map_of (prune now l) key = map_of l' key \<or> map_of (prune now l) key = None \<and> (\<exists>e. map_of l' key = Some e \<and> dead now e)"
    unfolding map_of_prune by (cases "map_of l' key") (auto split: if_splits)
qed

lemma map_of_record:
  "map_of (ll_record key thr now l) k = (if k = key then map_of (ll_record key thr now l) key else map_of l k)"
  by (simp add: ll_record_def Let_def update_conv')

lemma record_dead:
  assumes "map_of l key = map_of l' key \<or> map_of l key = None \<and> (\<exists>e. map_of l' key = Some e \<and> dead now e)"
  shows "map_of (ll_record key thr now l) key = map_of (ll_record key thr now l') key"
  using assms by (auto simp: ll_record_def Let_def update_conv' dead_def)

lemma same_live_record: "same_live now l l' \<Longrightarrow> same_live now (ll_record key thr now l) (ll_record key thr now l')"
  unfolding same_live_def
proof (intro allI)
  fix k assume s: "\<forall>key. map_of l key = map_of l' key \<or> map_of l key = None \<and> (\<exists>e. map_of l' key = Some e \<and> dead now e)"
  show "map_of (ll_record key thr now l) k = map_of (ll_record key thr now l') k
      \<or> map_of (ll_record key thr now l) k = None \<and> (\<exists>e. map_of (ll_record key thr now l') k = Some e \<and> dead now e)"
  proof (cases "k = key")
    case True
    then show ?thesis using record_dead [of l key l' now thr] s by blast
  next
    case False
    then show ?thesis using s by (simp add: map_of_record [of key thr now _ k])
  qed
qed

lemma same_live_delete: "same_live now l l' \<Longrightarrow> same_live now (success a l) (success a l')"
  by (auto simp: same_live_def success_def delete_conv')

lemma same_live_run: "same_live t l l' \<Longrightarrow> same_live (end_time evs t) (ll_run evs t l) (ref_run evs t l')"
proof (induction evs t l arbitrary: l' rule: ll_run.induct)
  case (2 d ev evs t l)
  have "same_live (t + \<bar>d\<bar>) l l'" using 2(2) by (rule same_live_later) simp
  then have "same_live (t + \<bar>d\<bar>) (case ev of Failed a s \<Rightarrow> failure a s (t + \<bar>d\<bar>) l | Succeeded a \<Rightarrow> success a l)
      (case ev of Failed a s \<Rightarrow> failure_ref a s (t + \<bar>d\<bar>) l' | Succeeded a \<Rightarrow> success a l')"
    by (auto simp: failure_def failure_ref_def intro: same_live_record same_live_prune same_live_delete split: login_event.split)
  then show ?case using 2(1) by simp
qed simp

lemma retryAfter_live: "same_live now l l' \<Longrightarrow> retryAfter a s now l = retryAfter a s now l'"
proof -
  assume s: "same_live now l l'"
  have "(case map_of l key of None \<Rightarrow> w | Some e \<Rightarrow> if la_lockedUntil e > now then max w (la_lockedUntil e - now) else w)
      = (case map_of l' key of None \<Rightarrow> w | Some e \<Rightarrow> if la_lockedUntil e > now then max w (la_lockedUntil e - now) else w)" for key w
    using s by (auto simp: same_live_def dead_def dest!: spec [of _ key])
  then show ?thesis by (simp add: retryAfter_def)
qed

text \<open>
  Dropping old entries is invisible: after every history of attempts, each caller has to wait exactly as long
  as with a limiter that keeps all entries.
\<close>

theorem prune_invisible:
  "retryAfter a s (end_time evs t + \<bar>d\<bar>) (ll_run evs t []) = retryAfter a s (end_time evs t + \<bar>d\<bar>) (ref_run evs t [])"
proof -
  have "same_live t [] []" by (simp add: same_live_def)
  from same_live_later [OF same_live_run [OF this]] show ?thesis by (intro retryAfter_live) simp
qed

subsection \<open>How long an account is locked\<close>

definition entry_wf :: "int \<Rightarrow> login_attempts \<Rightarrow> bool" where
  "entry_wf now e \<longleftrightarrow> 0 < la_failures e \<and> la_lastFailure e \<le> now
     \<and> (la_lockedUntil e = 0 \<or> la_lockedUntil e \<le> la_lastFailure e + loginMaxLockout)"

definition ll_wf :: "int \<Rightarrow> limiter \<Rightarrow> bool" where
  "ll_wf now l \<longleftrightarrow> (\<forall>key e. map_of l key = Some e \<longrightarrow> entry_wf now e)"

lemma lockout_le: "lockout over \<le> loginMaxLockout"
  by (simp add: lockout_def)

lemma lockout_mono: "0 \<le> a \<Longrightarrow> a \<le> b \<Longrightarrow> lockout a \<le> lockout b"
proof -
  assume ab: "0 \<le> a" "a \<le> b"
  have "loginBaseLockout * 2 ^ nat a \<le> loginBaseLockout * 2 ^ nat b"
    using ab by (intro mult_left_mono power_increasing) (auto simp: login_limits)
  then show ?thesis using ab by (auto simp: lockout_def)
qed

text \<open>The entry of a key after a failure.\<close>

lemma record_entry:
  assumes "ll_wf t l" "t \<le> now"
  obtains e where "map_of (ll_record key thr now l) key = Some e" "entry_wf now e" "la_lastFailure e = now"
    and "\<And>e0. map_of l key = Some e0 \<Longrightarrow> now - la_lastFailure e0 \<le> loginFailureWindow \<Longrightarrow> la_failures e = la_failures e0 + 1"
    and "thr \<le> la_failures e \<Longrightarrow> la_lockedUntil e = now + lockout (la_failures e - thr)"
proof -
  define e0 where "e0 = (case map_of l key of
      None \<Rightarrow> \<lparr>la_failures = 0, la_lastFailure = 0, la_lockedUntil = 0\<rparr>
    | Some e \<Rightarrow> if now - la_lastFailure e > loginFailureWindow
               then \<lparr>la_failures = 0, la_lastFailure = 0, la_lockedUntil = 0\<rparr> else e)"
  define e1 where "e1 = e0\<lparr>la_failures := la_failures e0 + 1, la_lastFailure := now\<rparr>"
  define e where "e = (if la_failures e1 - thr \<ge> 0 then e1\<lparr>la_lockedUntil := now + lockout (la_failures e1 - thr)\<rparr> else e1)"
  have "map_of (ll_record key thr now l) key = Some e"
    by (simp add: ll_record_def e0_def e1_def e_def Let_def update_conv')
  moreover have "0 \<le> la_failures e0" "la_lockedUntil e0 = 0 \<or> la_lockedUntil e0 \<le> now + loginMaxLockout"
    using assms by (force simp: e0_def ll_wf_def entry_wf_def split: option.splits)+
  then have "entry_wf now e" using lockout_le [of "la_failures e1 - thr"] by (auto simp: entry_wf_def e_def e1_def)
  moreover have "la_lastFailure e = now" by (simp add: e_def e1_def)
  moreover have "la_failures e = la_failures x + 1"
    if "map_of l key = Some x" "now - la_lastFailure x \<le> loginFailureWindow" for x
    using that by (simp add: e_def e1_def e0_def)
  moreover have "la_lockedUntil e = now + lockout (la_failures e - thr)" if "thr \<le> la_failures e"
    using that by (simp add: e_def split: if_splits)
  ultimately show ?thesis using that by blast
qed

lemma ll_wf_later: "ll_wf t l \<Longrightarrow> t \<le> now \<Longrightarrow> ll_wf now l"
  unfolding ll_wf_def entry_wf_def by (meson order_trans)

lemma ll_wf_record:
  assumes "ll_wf t l" "t \<le> now"
  shows "ll_wf now (ll_record key thr now l)"
  unfolding ll_wf_def
proof (intro allI impI)
  fix k e assume e: "map_of (ll_record key thr now l) k = Some e"
  show "entry_wf now e"
  proof (cases "k = key")
    case True
    then show ?thesis using record_entry [OF assms, of key thr] e by (metis option.inject)
  next
    case False
    then show ?thesis using e ll_wf_later [OF assms] by (simp add: map_of_record [of key thr now l k] ll_wf_def)
  qed
qed

lemma ll_wf_prune: "ll_wf t l \<Longrightarrow> ll_wf t (prune now l)"
  by (auto simp: ll_wf_def map_of_prune split: option.splits if_splits)

lemma ll_wf_failure: "ll_wf t l \<Longrightarrow> t \<le> now \<Longrightarrow> ll_wf now (failure a s now l)"
  unfolding failure_def by (meson ll_wf_record ll_wf_prune order_refl)

lemma ll_wf_run: "ll_wf t l \<Longrightarrow> ll_wf (end_time evs t) (ll_run evs t l)"
proof (induction evs t l rule: ll_run.induct)
  case (2 d ev evs t l)
  have "ll_wf (t + \<bar>d\<bar>) (case ev of Failed a s \<Rightarrow> failure a s (t + \<bar>d\<bar>) l | Succeeded a \<Rightarrow> success a l)"
    using 2(2) ll_wf_failure [OF 2(2)] ll_wf_later [OF 2(2)]
    by (auto simp: success_def ll_wf_def delete_conv' split: login_event.split)
  then show ?case using 2(1) by simp
qed simp

lemma end_time_later: "t \<le> end_time evs t"
  by (induction evs t rule: end_time.induct) (auto intro: order_trans)

lemma keys_differ: "accountKey lower email \<noteq> sourceKey addr"
  by (simp add: accountKey_def sourceKey_def)

text \<open>A run of failures of one account, at most the window apart, from any source.\<close>

lemma failures_lock:
  assumes "ll_wf t l" "0 \<le> t" "list_all (\<lambda>(d, s). 0 \<le> d \<and> d \<le> loginFailureWindow \<and> s \<noteq> a) fs" "fs \<noteq> []"
  shows "\<exists>e. map_of (ll_run (map (\<lambda>(d, s). (d, Failed a s)) fs) t l) a = Some e
    \<and> la_lastFailure e = end_time (map (\<lambda>(d, s). (d, Failed a s)) fs) t \<and> int (length fs) \<le> la_failures e
    \<and> (loginAccountThreshold \<le> la_failures e \<longrightarrow>
        la_lockedUntil e = la_lastFailure e + lockout (la_failures e - loginAccountThreshold))"
  using assms(3,4)
proof (induction fs rule: rev_induct)
  case (snoc x fs)
  obtain d s where x: "x = (d, s)" by fastforce
  let ?ev = "\<lambda>fs. map (\<lambda>(d, s). (d, Failed a s)) fs"
  define l1 where "l1 = ll_run (?ev fs) t l"
  define t1 where "t1 = end_time (?ev fs) t"
  have run: "ll_run (evs @ [(d, ev)]) t l = (case ev of Failed a s \<Rightarrow> failure a s (end_time evs t + \<bar>d\<bar>) (ll_run evs t l)
      | Succeeded a \<Rightarrow> success a (ll_run evs t l)) \<and> end_time (evs @ [(d, ev)]) t = end_time evs t + \<bar>d\<bar>" for evs ev d
    by (induction evs t l rule: ll_run.induct) (auto split: login_event.split)
  have d: "0 \<le> d" "d \<le> loginFailureWindow" "s \<noteq> a" using snoc(2) x by auto
  have l2: "ll_run (?ev (fs @ [x])) t l = failure a s (t1 + d) l1" "end_time (?ev (fs @ [x])) t = t1 + d"
    using run [of "?ev fs" d "Failed a s"] d x by (simp_all add: l1_def t1_def)
  have wf: "ll_wf t1 (prune (t1 + d) l1)" unfolding t1_def l1_def by (intro ll_wf_prune ll_wf_run assms(1))
  obtain e where e: "map_of (ll_record a loginAccountThreshold (t1 + d) (prune (t1 + d) l1)) a = Some e" "entry_wf (t1 + d) e"
      "la_lastFailure e = t1 + d"
      "\<And>e0. map_of (prune (t1 + d) l1) a = Some e0 \<Longrightarrow> t1 + d - la_lastFailure e0 \<le> loginFailureWindow \<Longrightarrow> la_failures e = la_failures e0 + 1"
      "loginAccountThreshold \<le> la_failures e \<Longrightarrow> la_lockedUntil e = t1 + d + lockout (la_failures e - loginAccountThreshold)"
    using record_entry [OF wf, of "t1 + d" a loginAccountThreshold] d(1) by auto
  have "map_of (failure a s (t1 + d) l1) a = Some e"
    using e(1) d(3) by (simp add: failure_def map_of_record [of s _ _ _ a])
  moreover have "int (length (fs @ [x])) \<le> la_failures e"
  proof (cases "fs = []")
    case True
    then show ?thesis using e(2) by (simp add: entry_wf_def)
  next
    case False
    then obtain e0 where e0: "map_of l1 a = Some e0" "la_lastFailure e0 = t1" "int (length fs) \<le> la_failures e0"
      using snoc by (auto simp: l1_def t1_def)
    have "\<not> dead (t1 + d) e0" using e0(2) d by (simp add: dead_def)
    then have "la_failures e = la_failures e0 + 1" using e0 d by (intro e(4)) (simp_all add: map_of_prune)
    then show ?thesis using e0(3) by simp
  qed
  ultimately show ?case using e(3,5) unfolding l2 by auto
qed simp

lemma retryAfter_bounds:
  assumes "ll_wf now l" "0 \<le> now"
  shows "0 \<le> retryAfter a s now l" "retryAfter a s now l \<le> loginMaxLockout"
    and "map_of l a = Some e \<Longrightarrow> la_lockedUntil e - now \<le> retryAfter a s now l"
proof -
  have "la_lockedUntil e - now \<le> loginMaxLockout" if "map_of l k = Some e" "la_lockedUntil e > now" for k e
    using that assms by (force simp: ll_wf_def entry_wf_def)
  moreover have "0 \<le> loginMaxLockout" by (simp add: login_limits)
  ultimately show "0 \<le> retryAfter a s now l" "retryAfter a s now l \<le> loginMaxLockout"
      "map_of l a = Some e \<Longrightarrow> la_lockedUntil e - now \<le> retryAfter a s now l"
    by (auto simp: retryAfter_def split: option.splits)
qed



end
