(* ===== verification/Session.thy ===== *)
theory Session
  imports Accounts LoginLimit
begin

text \<open>
  Logins over HTTP: access tokens and their check (\<open>server/internal/auth/jwt.go\<close>, \<open>handlers/session.go\<close>), login
  (\<open>handlers/api.go\<close>), refresh and logout (\<open>handlers/refresh.go\<close>), the administration of users
  (\<open>handlers/users.go\<close>) and password resets (\<open>handlers/password_reset.go\<close>, \<open>password_policy.go\<close>). Every handler is a function of
  the state of the API that returns the HTTP status (or the reply with its tokens) and the new state. bcrypt,
  the JWT library and the Unicode case tables are parameters; random values and the
  reading of the clock are arguments, an undecodable body is \<open>None\<close>. Unlocking the device keys and
  sending mail have no effect on this state.
\<close>

subsection \<open>State and parameters\<close>

record config =
  cf_AdminEmail :: string
  cf_AdminPassword :: string
  cf_AdminTokensValidAfter :: int
  cf_JWTSecret :: string

record api =
  ap_cfg :: config
  ap_store :: "accounts option"
  ap_logins :: limiter

record claims =
  cl_Email :: string
  cl_AppRole :: string
  cl_IssuedAt :: "int option"
  cl_ExpiresAt :: "int option"

record auth_libs = crypto +
  bcrypt_hash :: "string \<Rightarrow> string option"
  bcrypt_ok :: "string \<Rightarrow> string \<Rightarrow> bool"
  jwt_sign :: "string \<Rightarrow> claims \<Rightarrow> string option"
  jwt_parse :: "string \<Rightarrow> int \<Rightarrow> string \<Rightarrow> claims option"
  NewNumericDate :: "int \<Rightarrow> int"
  ToLower :: "string \<Rightarrow> string"
  EqualFold :: "string \<Rightarrow> string \<Rightarrow> bool"

text \<open>Values the random source gives a handler: the bytes of a token, and ids.\<close>

record fresh =
  fr_token :: "bytes option"
  fr_family :: string
  fr_id :: string

record token_reply =
  tr_status :: nat
  tr_access :: "string option"
  tr_refresh :: "string option"
  tr_cookie :: "string option"
  tr_retry :: "int option"

definition just :: "nat \<Rightarrow> token_reply" where
  "just status = \<lparr>tr_status = status, tr_access = None, tr_refresh = None, tr_cookie = None, tr_retry = None\<rparr>"

definition ADMIN :: string where "ADMIN = ''ADMIN''"

text \<open>\<open>utf8.RuneCountInString\<close>: a byte that starts no valid sequence counts as one character.\<close>

definition byte_in :: "nat \<Rightarrow> nat \<Rightarrow> string \<Rightarrow> nat \<Rightarrow> bool" where
  "byte_in lo hi s i \<longleftrightarrow> i < length s \<and> lo \<le> byte_of (s ! i) \<and> byte_of (s ! i) \<le> hi"

definition rune_size :: "string \<Rightarrow> nat" where
  "rune_size s =
     (let b = byte_of (hd s) in
      if 0xC2 \<le> b \<and> b \<le> 0xDF \<and> byte_in 0x80 0xBF s 1 then 2
      else if 0xE0 \<le> b \<and> b \<le> 0xEF \<and> byte_in (if b = 0xE0 then 0xA0 else 0x80) (if b = 0xED then 0x9F else 0xBF) s 1
        \<and> byte_in 0x80 0xBF s 2 then 3
      else if 0xF0 \<le> b \<and> b \<le> 0xF4 \<and> byte_in (if b = 0xF0 then 0x90 else 0x80) (if b = 0xF4 then 0x8F else 0xBF) s 1
        \<and> byte_in 0x80 0xBF s 2 \<and> byte_in 0x80 0xBF s 3 then 4
      else 1)"

lemma rune_size_pos: "0 < rune_size s"
  by (simp add: rune_size_def Let_def)

function RuneCount :: "string \<Rightarrow> nat" where
  "RuneCount s = (if s = [] then 0 else Suc (RuneCount (drop (rune_size s) s)))"
  by pat_completeness auto
termination
  by (relation "measure length") (use rune_size_pos in \<open>auto simp: length_greater_0_conv [symmetric] simp del: length_greater_0_conv\<close>)

declare RuneCount.simps [simp del]

definition minPasswordLength :: nat where "minPasswordLength = 8"

definition checkPasswordPolicy :: "string \<Rightarrow> bool" where
  "checkPasswordPolicy password \<longleftrightarrow> minPasswordLength \<le> RuneCount password"

definition isAdminEmail :: "('c) auth_libs_scheme \<Rightarrow> api \<Rightarrow> string \<Rightarrow> bool" where
  "isAdminEmail L a email \<longleftrightarrow> cf_AdminEmail (ap_cfg a) \<noteq> '''' \<and> EqualFold L (TrimSpace email) (cf_AdminEmail (ap_cfg a))"

definition store_status :: "acc_error \<Rightarrow> nat" where
  "store_status e = (case e of AccNotFound \<Rightarrow> 404 | AccConflict \<Rightarrow> 409 | AccInvalidReference \<Rightarrow> 400 | AccCheckFailed \<Rightarrow> 500)"

subsection \<open>Access tokens\<close>

definition NewToken :: "('c) auth_libs_scheme \<Rightarrow> string \<Rightarrow> string \<Rightarrow> string \<Rightarrow> int \<Rightarrow> string option" where
  "NewToken L email role secret now =
     jwt_sign L secret \<lparr>cl_Email = email, cl_AppRole = role, cl_IssuedAt = Some (NewNumericDate L now),
       cl_ExpiresAt = Some (NewNumericDate L (now + 15 * 60 * second_ns))\<rparr>"

definition extractBearer :: "('c) auth_libs_scheme \<Rightarrow> string \<Rightarrow> string option" where
  "extractBearer L header =
     (let scheme = takeWhile (\<lambda>c. c \<noteq> CHR '' '') header; rest = drop (length scheme) header in
      case rest of
        [] \<Rightarrow> None
      | _ # token \<Rightarrow> if EqualFold L scheme ''Bearer'' \<and> token \<noteq> '''' then Some token else None)"

definition parseToken :: "('c) auth_libs_scheme \<Rightarrow> string \<Rightarrow> int \<Rightarrow> string \<Rightarrow> claims option" where
  "parseToken L secret now header =
     (case extractBearer L header of None \<Rightarrow> None | Some token \<Rightarrow> jwt_parse L secret now token)"

text \<open>The zero time of Go, in nanoseconds of Unix time.\<close>

definition zero_time :: int where "zero_time = -62135596800 * second_ns"

definition ValidateSession :: "claims \<Rightarrow> api \<Rightarrow> bool" where
  "ValidateSession c a =
     (let issued = (case cl_IssuedAt c of None \<Rightarrow> zero_time | Some t \<Rightarrow> t) in
      if cf_AdminEmail (ap_cfg a) \<noteq> '''' \<and> cl_Email c = cf_AdminEmail (ap_cfg a)
      then cl_AppRole c = ADMIN \<and> \<not> issued div second_ns < cf_AdminTokensValidAfter (ap_cfg a)
      else case ap_store a of
             None \<Rightarrow> False
           | Some st \<Rightarrow>
               (case GetUserByEmail (cl_Email c) st of
                  Inl _ \<Rightarrow> False
                | Inr u \<Rightarrow> u_AppRole u = cl_AppRole c \<and> \<not> issued < u_UpdatedAt u div second_ns * second_ns))"

text \<open>\<open>MiddlewareAllowing\<close> with \<open>ValidateSession\<close> as its check: who the request is handled for; \<open>None\<close> is 401.\<close>

definition MiddlewareAllowing :: "('c) auth_libs_scheme \<Rightarrow> bool \<Rightarrow> int \<Rightarrow> string \<Rightarrow> api \<Rightarrow> claims option option" where
  "MiddlewareAllowing L anonymous now header a =
     (case parseToken L (cf_JWTSecret (ap_cfg a)) now header of
        Some c \<Rightarrow> if ValidateSession c a then Some (Some c) else if anonymous then Some None else None
      | None \<Rightarrow> if anonymous then Some None else None)"

subsection \<open>Login\<close>

definition checkLogin :: "('c) auth_libs_scheme \<Rightarrow> string \<Rightarrow> string \<Rightarrow> api \<Rightarrow> string option" where
  "checkLogin L email password a =
     (if email = cf_AdminEmail (ap_cfg a)
      then (if bcrypt_ok L (cf_AdminPassword (ap_cfg a)) password then Some ADMIN else None)
      else case ap_store a of
             None \<Rightarrow> None
           | Some st \<Rightarrow>
               (case GetUserByEmail email st of
                  Inl _ \<Rightarrow> None
                | Inr u \<Rightarrow> if bcrypt_ok L (u_PasswordHash u) password then Some (u_AppRole u) else None))"

definition refreshTokenTTL :: int where "refreshTokenTTL = 12 * 60 * 60 * second_ns"
definition refreshReuseGrace :: int where "refreshReuseGrace = 30 * second_ns"

definition hashRefreshToken :: "('c) crypto_scheme \<Rightarrow> string \<Rightarrow> string" where
  "hashRefreshToken C token = hex_encode (sha256 C token)"

definition newRefreshToken :: "fresh \<Rightarrow> string option" where
  "newRefreshToken f = map_option EncodeB64 (fr_token f)"

text \<open>The id of the account; empty for the administrator. \<open>None\<close> is an error.\<close>

definition token_user :: "string \<Rightarrow> api \<Rightarrow> accounts \<Rightarrow> string option" where
  "token_user email a st =
     (if email \<noteq> cf_AdminEmail (ap_cfg a)
      then (case GetUserByEmail email st of Inl _ \<Rightarrow> None | Inr u \<Rightarrow> Some (u_ID u))
      else Some '''')"

text \<open>The token is empty without a database.\<close>

definition issueRefreshToken :: "('c) auth_libs_scheme \<Rightarrow> string \<Rightarrow> string \<Rightarrow> fresh \<Rightarrow> int \<Rightarrow> api \<Rightarrow> (string \<times> api) option" where
  "issueRefreshToken L email role f now a =
     (case ap_store a of
        None \<Rightarrow> Some ('''', a)
      | Some st \<Rightarrow>
          (case token_user email a st of
             None \<Rightarrow> None
           | Some userID \<Rightarrow>
               (case newRefreshToken f of
                  None \<Rightarrow> None
                | Some token \<Rightarrow>
                    (case CreateRefreshToken (fr_id f) (hashRefreshToken L token) (fr_family f) email role userID now (now + refreshTokenTTL) st of
                       Inl _ \<Rightarrow> None
                     | Inr st' \<Rightarrow> Some (token, a\<lparr>ap_store := Some st'\<rparr>)))))"

text \<open>A new refresh token goes into the body or the cookie.\<close>

definition deliverRefreshToken :: "string \<Rightarrow> bool \<Rightarrow> token_reply \<Rightarrow> token_reply" where
  "deliverRefreshToken token inBody r = (if inBody then r\<lparr>tr_refresh := Some token\<rparr> else r\<lparr>tr_cookie := Some token\<rparr>)"

text \<open>\<open>Retry-After\<close>: the wait rounded to the second, half up.\<close>

definition retry_seconds :: "int \<Rightarrow> int" where
  "retry_seconds wait = (wait + second_ns div 2) div second_ns"

definition Login :: "('c) auth_libs_scheme \<Rightarrow> string \<Rightarrow> (string \<times> string \<times> bool) option \<Rightarrow> fresh \<Rightarrow> int \<Rightarrow> api \<Rightarrow> token_reply \<times> api" where
  "Login L remote body f now a =
     (if cf_AdminEmail (ap_cfg a) = '''' \<or> cf_AdminPassword (ap_cfg a) = '''' then (just 401, a)
      else case body of
             None \<Rightarrow> (just 400, a)
           | Some (email, password, inBody) \<Rightarrow>
               (let account = accountKey (ToLower L) email; src = sourceKey remote;
                    wait = retryAfter account src now (ap_logins a) in
                if wait > 0 then ((just 429)\<lparr>tr_retry := Some (retry_seconds wait)\<rparr>, a)
                else case checkLogin L email password a of
                       None \<Rightarrow> (just 401, a\<lparr>ap_logins := failure account src now (ap_logins a)\<rparr>)
                     | Some role \<Rightarrow>
                         (let a1 = a\<lparr>ap_logins := success account (ap_logins a)\<rparr> in
                          case NewToken L email role (cf_JWTSecret (ap_cfg a)) now of
                            None \<Rightarrow> (just 500, a1)
                          | Some token \<Rightarrow>
                              (let resp = (just 200)\<lparr>tr_access := Some token\<rparr> in
                               case issueRefreshToken L email role f now a1 of
                                 None \<Rightarrow> (resp, a1)
                               | Some (refresh, a2) \<Rightarrow>
                                   (if refresh \<noteq> '''' then deliverRefreshToken refresh inBody resp else resp, a2)))))"

subsection \<open>Refresh and logout\<close>

text \<open>The token of a request and whether it came in the header.\<close>

definition refreshTokenFromRequest :: "string \<Rightarrow> string option \<Rightarrow> string \<times> bool" where
  "refreshTokenFromRequest header cookie =
     (if header \<noteq> '''' then (header, True)
      else case cookie of None \<Rightarrow> ('''', False) | Some c \<Rightarrow> (c, False))"

text \<open>
  \<open>refresh\<close> in its three accesses to the database: the token is looked up, the account checked, the
  rows written. Other requests run between them.
\<close>

datatype verdict = Revoke | Reissue claims | Renew claims

definition refresh_lookup :: "('c) auth_libs_scheme \<Rightarrow> string \<Rightarrow> api \<Rightarrow> refresh_token option" where
  "refresh_lookup L token a =
     (case ap_store a of
        None \<Rightarrow> None
      | Some st \<Rightarrow>
          if token = '''' then None
          else (case GetRefreshToken (hashRefreshToken L token) st of Inl _ \<Rightarrow> None | Inr stored \<Rightarrow> Some stored))"

definition refresh_claims :: "('c) auth_libs_scheme \<Rightarrow> refresh_token \<Rightarrow> claims" where
  "refresh_claims L stored = \<lparr>cl_Email = rt_Email stored, cl_AppRole = rt_AppRole stored,
     cl_IssuedAt = Some (NewNumericDate L (rt_CreatedAt stored)), cl_ExpiresAt = None\<rparr>"

definition refresh_judge :: "('c) auth_libs_scheme \<Rightarrow> refresh_token \<Rightarrow> int \<Rightarrow> api \<Rightarrow> verdict" where
  "refresh_judge L stored now a =
     (if \<not> now < rt_ExpiresAt stored then Revoke
      else if (case rt_ReplacedAt stored of None \<Rightarrow> False | Some r \<Rightarrow> now - r > refreshReuseGrace) then Revoke
      else if \<not> ValidateSession (refresh_claims L stored) a then Revoke
      else if rt_ReplacedAt stored = None then Renew (refresh_claims L stored)
      else Reissue (refresh_claims L stored))"

definition revoke_family :: "string \<Rightarrow> api \<Rightarrow> api" where
  "revoke_family family a = a\<lparr>ap_store := map_option (RevokeRefreshTokenFamily family) (ap_store a)\<rparr>"

text \<open>The new access token of a reply, at a later reading \<open>t\<close> of the clock.\<close>

definition with_access :: "('c) auth_libs_scheme \<Rightarrow> claims \<Rightarrow> int \<Rightarrow> api \<Rightarrow> token_reply \<Rightarrow> token_reply option" where
  "with_access L c t a resp =
     map_option (\<lambda>access. resp\<lparr>tr_access := Some access\<rparr>) (NewToken L (cl_Email c) (cl_AppRole c) (cf_JWTSecret (ap_cfg a)) t)"

definition refresh_finish :: "('c) auth_libs_scheme \<Rightarrow> refresh_token \<Rightarrow> int \<Rightarrow> verdict \<Rightarrow> bool \<Rightarrow> fresh \<Rightarrow> int \<Rightarrow> api
    \<Rightarrow> token_reply option \<times> api" where
  "refresh_finish L stored now v viaHeader f t a =
     (case v of
        Revoke \<Rightarrow> (None, revoke_family (rt_FamilyID stored) a)
      | Reissue c \<Rightarrow> (with_access L c t a (just 200), a)
      | Renew c \<Rightarrow>
          (case (ap_store a, newRefreshToken f) of
             (None, _) \<Rightarrow> (None, a)
           | (_, None) \<Rightarrow> (None, a)
           | (Some st, Some token) \<Rightarrow>
               (case RotateRefreshToken stored (fr_id f) (hashRefreshToken L token) now (now + refreshTokenTTL) st of
                  Inr st' \<Rightarrow> (with_access L c t a (deliverRefreshToken token viaHeader (just 200)), a\<lparr>ap_store := Some st'\<rparr>)
                | Inl AccNotFound \<Rightarrow> (with_access L c t a (just 200), a)
                | Inl _ \<Rightarrow> (None, a))))"

text \<open>The reply to an error clears the cookie the token came in; an empty cookie is deleted.\<close>

definition refresh_reply :: "bool \<Rightarrow> token_reply option \<Rightarrow> token_reply" where
  "refresh_reply viaHeader r =
     (case r of Some resp \<Rightarrow> resp | None \<Rightarrow> if viaHeader then just 401 else (just 401)\<lparr>tr_cookie := Some ''''\<rparr>)"

definition RefreshAccessToken :: "('c) auth_libs_scheme \<Rightarrow> string \<Rightarrow> string option \<Rightarrow> fresh \<Rightarrow> int \<Rightarrow> api \<Rightarrow> token_reply \<times> api" where
  "RefreshAccessToken L header cookie f now a =
     (let (token, viaHeader) = refreshTokenFromRequest header cookie in
      case refresh_lookup L token a of
        None \<Rightarrow> (refresh_reply viaHeader None, a)
      | Some stored \<Rightarrow>
          (let (r, a') = refresh_finish L stored now (refresh_judge L stored now a) viaHeader f now a in
           (refresh_reply viaHeader r, a')))"

definition Logout :: "('c) auth_libs_scheme \<Rightarrow> string \<Rightarrow> string option \<Rightarrow> api \<Rightarrow> token_reply \<times> api" where
  "Logout L header cookie a =
     ((just 204)\<lparr>tr_cookie := Some ''''\<rparr>,
      case refresh_lookup L (fst (refreshTokenFromRequest header cookie)) a of
        None \<Rightarrow> a
      | Some stored \<Rightarrow> revoke_family (rt_FamilyID stored) a)"

definition revokeAdminRefreshTokens :: "api \<Rightarrow> api" where
  "revokeAdminRefreshTokens a =
     (if cf_AdminEmail (ap_cfg a) = '''' then a
      else a\<lparr>ap_store := map_option (RevokeRefreshTokensForEmail (cf_AdminEmail (ap_cfg a))) (ap_store a)\<rparr>)"

subsection \<open>Administration of users\<close>

text \<open>The claims of a request are those the middleware attached.\<close>

definition requireAdmin :: "claims option \<Rightarrow> bool" where
  "requireAdmin c \<longleftrightarrow> (case c of None \<Rightarrow> False | Some c \<Rightarrow> cl_AppRole c = ADMIN)"

definition emailAvailable :: "('c) auth_libs_scheme \<Rightarrow> string \<Rightarrow> string \<Rightarrow> api \<Rightarrow> accounts \<Rightarrow> bool" where
  "emailAvailable L email exceptID a st \<longleftrightarrow> \<not> isAdminEmail L a email \<and> \<not> UserEmailTaken email exceptID st"

definition InitializeSetup :: "('c) auth_libs_scheme \<Rightarrow> (string \<times> string) option \<Rightarrow> bool \<Rightarrow> api \<Rightarrow> nat \<times> api" where
  "InitializeSetup L body saved a =
     (if cf_AdminPassword (ap_cfg a) \<noteq> '''' then (409, a)
      else case body of
             None \<Rightarrow> (400, a)
           | Some (email, password) \<Rightarrow>
               if email = '''' \<or> password = '''' then (400, a)
               else if \<not> checkPasswordPolicy password then (400, a)
               else (case bcrypt_hash L password of
                       None \<Rightarrow> (500, a)
                     | Some hash \<Rightarrow>
                         (if saved then 201 else 500,
                          a\<lparr>ap_cfg := (ap_cfg a)\<lparr>cf_AdminEmail := email, cf_AdminPassword := hash\<rparr>\<rparr>)))"

definition ListAppUsers :: "claims option \<Rightarrow> api \<Rightarrow> nat \<times> user list" where
  "ListAppUsers c a =
     (if \<not> requireAdmin c then (403, [])
      else case ap_store a of None \<Rightarrow> (503, []) | Some st \<Rightarrow> (200, ListUsers st))"

definition CreateAppUser :: "('c) auth_libs_scheme \<Rightarrow> claims option \<Rightarrow> (string \<times> string \<times> string) option \<Rightarrow> string \<Rightarrow> int \<Rightarrow> api \<Rightarrow> nat \<times> api" where
  "CreateAppUser L c body newID now a =
     (if \<not> requireAdmin c then (403, a)
      else case ap_store a of
             None \<Rightarrow> (503, a)
           | Some st \<Rightarrow>
               (case body of
                  None \<Rightarrow> (400, a)
                | Some (email, password, appRole) \<Rightarrow>
                    if email = '''' \<or> password = '''' then (400, a)
                    else if \<not> List.member AppRoles appRole then (400, a)
                    else if \<not> checkPasswordPolicy password then (400, a)
                    else if \<not> emailAvailable L email '''' a st then (409, a)
                    else (case bcrypt_hash L password of
                            None \<Rightarrow> (500, a)
                          | Some hash \<Rightarrow>
                              (case CreateUser newID now email hash appRole st of
                                 Inl e \<Rightarrow> (store_status e, a)
                               | Inr (_, st') \<Rightarrow> (201, a\<lparr>ap_store := Some st'\<rparr>)))))"

definition UpdateAppUser :: "('c) auth_libs_scheme \<Rightarrow> claims option \<Rightarrow> string \<Rightarrow> (string option \<times> string option) option \<Rightarrow> int \<Rightarrow> api \<Rightarrow> nat \<times> api" where
  "UpdateAppUser L c i body now a =
     (if \<not> requireAdmin c then (403, a)
      else case ap_store a of
             None \<Rightarrow> (503, a)
           | Some st \<Rightarrow>
               (case body of
                  None \<Rightarrow> (400, a)
                | Some (email, appRole) \<Rightarrow>
                    if (case appRole of None \<Rightarrow> False | Some r \<Rightarrow> \<not> List.member AppRoles r) then (400, a)
                    else if email = Some '''' then (400, a)
                    else if (case email of None \<Rightarrow> False | Some e \<Rightarrow> \<not> emailAvailable L e i a st) then (409, a)
                    else (case UpdateUser i email appRole now st of
                            Inl e \<Rightarrow> (store_status e, a)
                          | Inr (_, st') \<Rightarrow> (200, a\<lparr>ap_store := Some st'\<rparr>))))"

definition DeleteAppUser :: "claims option \<Rightarrow> string \<Rightarrow> int \<Rightarrow> api \<Rightarrow> nat \<times> api" where
  "DeleteAppUser c i now a =
     (if \<not> requireAdmin c then (403, a)
      else case ap_store a of
             None \<Rightarrow> (503, a)
           | Some st \<Rightarrow> (case DeleteUser i now st of Inl e \<Rightarrow> (store_status e, a) | Inr st' \<Rightarrow> (204, a\<lparr>ap_store := Some st'\<rparr>)))"

text \<open>A new password of the administrator: tokens issued before this second are no longer accepted.\<close>

definition set_admin_password :: "string \<Rightarrow> int \<Rightarrow> api \<Rightarrow> api" where
  "set_admin_password hash now a =
     a\<lparr>ap_cfg := (ap_cfg a)\<lparr>cf_AdminPassword := hash, cf_AdminTokensValidAfter := now div second_ns\<rparr>\<rparr>"

definition save_admin_password :: "string \<Rightarrow> int \<Rightarrow> bool \<Rightarrow> api \<Rightarrow> nat \<times> api" where
  "save_admin_password hash now saved a =
     (let a' = set_admin_password hash now a in if saved then (200, revokeAdminRefreshTokens a') else (500, a'))"

definition ChangePassword :: "('c) auth_libs_scheme \<Rightarrow> claims option \<Rightarrow> (string option \<times> string) option \<Rightarrow> int \<Rightarrow> bool \<Rightarrow> api \<Rightarrow> nat \<times> api" where
  "ChangePassword L c body now saved a =
     (case c of
        None \<Rightarrow> (401, a)
      | Some cl \<Rightarrow>
          (case ap_store a of
             None \<Rightarrow> (503, a)
           | Some st \<Rightarrow>
               (case body of
                  None \<Rightarrow> (400, a)
                | Some (currentPassword, newPassword) \<Rightarrow>
                    if newPassword = '''' then (400, a)
                    else if \<not> checkPasswordPolicy newPassword then (400, a)
                    else if cl_Email cl = cf_AdminEmail (ap_cfg a) then
                      (if cl_AppRole cl \<noteq> ADMIN \<and> currentPassword = None then (400, a)
                       else if cl_AppRole cl \<noteq> ADMIN \<and> \<not> bcrypt_ok L (cf_AdminPassword (ap_cfg a)) (the currentPassword) then (403, a)
                       else case bcrypt_hash L newPassword of
                              None \<Rightarrow> (500, a)
                            | Some hash \<Rightarrow> save_admin_password hash now saved a)
                    else (case GetUserByEmail (cl_Email cl) st of
                            Inl _ \<Rightarrow> (404, a)
                          | Inr u \<Rightarrow>
                              if cl_AppRole cl \<noteq> ADMIN \<and> (currentPassword = None \<or> currentPassword = Some '''') then (400, a)
                              else if cl_AppRole cl \<noteq> ADMIN \<and> \<not> bcrypt_ok L (u_PasswordHash u) (the currentPassword) then (403, a)
                              else (case bcrypt_hash L newPassword of
                                      None \<Rightarrow> (500, a)
                                    | Some hash \<Rightarrow>
                                        (case SetUserPassword (cl_Email cl) hash now st of
                                           Inl e \<Rightarrow> (store_status e, a)
                                         | Inr st' \<Rightarrow> (200, a\<lparr>ap_store := Some st'\<rparr>)))))))"

subsection \<open>Password resets\<close>

definition resetTokenTTL :: int where "resetTokenTTL = 60 * 60 * second_ns"

definition AdminUserID :: string where "AdminUserID = ''00000000-0000-0000-0000-000000000000''"

text \<open>\<open>generateToken\<close> and \<open>ForgotPassword\<close>: the status, the mail that is sent and the state.\<close>

definition generateToken :: "fresh \<Rightarrow> string option" where
  "generateToken f = map_option hex_encode (fr_token f)"

definition ForgotPassword :: "('c) auth_libs_scheme \<Rightarrow> string option \<Rightarrow> fresh \<Rightarrow> int \<Rightarrow> api \<Rightarrow> nat \<times> (string \<times> string) option \<times> api" where
  "ForgotPassword L body f now a =
     (case (body, ap_store a) of
        (Some email, Some st) \<Rightarrow>
          (if email = '''' then (200, None, a)
           else case (if isAdminEmail L a email then Inr (AdminUserID, cf_AdminEmail (ap_cfg a))
                      else map_sum id (\<lambda>u. (u_ID u, u_Email u)) (GetUserByEmail email st)) of
                  Inl _ \<Rightarrow> (200, None, a)
                | Inr (userID, to) \<Rightarrow>
                    (case generateToken f of
                       None \<Rightarrow> (500, None, a)
                     | Some token \<Rightarrow>
                         (case CreatePasswordResetToken L (fr_id f) now userID token (now + resetTokenTTL) st of
                            Inl _ \<Rightarrow> (500, None, a)
                          | Inr st' \<Rightarrow> (200, Some (to, token), a\<lparr>ap_store := Some st'\<rparr>))))
      | _ \<Rightarrow> (200, None, a))"

definition ResetPassword :: "('c) auth_libs_scheme \<Rightarrow> (string \<times> string) option \<Rightarrow> int \<Rightarrow> bool \<Rightarrow> api \<Rightarrow> nat \<times> api" where
  "ResetPassword L body now saved a =
     (case body of
        None \<Rightarrow> (400, a)
      | Some (token, newPassword) \<Rightarrow>
          if token = '''' \<or> newPassword = '''' then (400, a)
          else if \<not> checkPasswordPolicy newPassword then (400, a)
          else case ap_store a of
                 None \<Rightarrow> (503, a)
               | Some st \<Rightarrow>
                   (let (res, st1) = ConsumePasswordResetToken L now token st; a1 = a\<lparr>ap_store := Some st1\<rparr> in
                    case res of
                      Inl _ \<Rightarrow> (400, a1)
                    | Inr userID \<Rightarrow>
                        (case bcrypt_hash L newPassword of
                           None \<Rightarrow> (500, a1)
                         | Some hash \<Rightarrow>
                             if userID \<noteq> AdminUserID then
                               (case (case GetUser userID st1 of Inl e \<Rightarrow> Inl e | Inr u \<Rightarrow> SetUserPassword (u_Email u) hash now st1) of
                                  Inl AccNotFound \<Rightarrow> (400, a1)
                                | Inl e \<Rightarrow> (store_status e, a1)
                                | Inr st2 \<Rightarrow> (200, a\<lparr>ap_store := Some st2\<rparr>))
                             else if cf_AdminEmail (ap_cfg a) = '''' then (400, a1)
                             else save_admin_password hash now saved a1)))"

end
