(* ===== verification/Logins.thy ===== *)
theory Logins
  imports Session
begin

text \<open>
  Histories of logins: requests in any order, refreshes that other requests interleave with, and what stays
  true through all of them. The effects of each operation of the store and of each handler on the accounts and on
  the refresh tokens are stated once; the properties follow by induction over the histories.
\<close>

subsection \<open>Worlds\<close>

text \<open>
  The state of the API with the families given out so far and the time of the last request. A refresh that was looked
  up and judged earlier may finish at any time, whatever happened in between, so \<open>finish\<close>
  allows every stored token and verdict. Ids of families are new, as UUIDs are; the database stays the same one.
\<close>

record world =
  wo_api :: api
  wo_families :: "string list"
  wo_time :: int

definition set_api :: "api \<Rightarrow> int \<Rightarrow> world \<Rightarrow> world" where
  "set_api a now w = w\<lparr>wo_api := a, wo_time := now\<rparr>"

inductive world_step :: "('c) auth_libs_scheme \<Rightarrow> world \<Rightarrow> world \<Rightarrow> bool" for L where
  login: "wo_time w \<le> now \<Longrightarrow> fr_family f \<notin> set (wo_families w) \<Longrightarrow>
    world_step L w ((set_api (snd (Login L remote body f now (wo_api w))) now w)\<lparr>wo_families := fr_family f # wo_families w\<rparr>)"
| finish: "wo_time w \<le> now \<Longrightarrow> world_step L w (set_api (snd (refresh_finish L stored n v inHeader f now (wo_api w))) now w)"
| logout: "wo_time w \<le> now \<Longrightarrow> world_step L w (set_api (snd (Logout L header cookie (wo_api w))) now w)"
| initialize: "wo_time w \<le> now \<Longrightarrow> world_step L w (set_api (snd (InitializeSetup L body saved (wo_api w))) now w)"
| create: "wo_time w \<le> now \<Longrightarrow> world_step L w (set_api (snd (CreateAppUser L c body i now (wo_api w))) now w)"
| update: "wo_time w \<le> now \<Longrightarrow> world_step L w (set_api (snd (UpdateAppUser L c i body now (wo_api w))) now w)"
| delete: "wo_time w \<le> now \<Longrightarrow> world_step L w (set_api (snd (DeleteAppUser c i now (wo_api w))) now w)"
| change: "wo_time w \<le> now \<Longrightarrow> world_step L w (set_api (snd (ChangePassword L c body now saved (wo_api w))) now w)"
| forgot: "wo_time w \<le> now \<Longrightarrow> world_step L w (set_api (snd (snd (ForgotPassword L body f now (wo_api w)))) now w)"
| reset: "wo_time w \<le> now \<Longrightarrow> world_step L w (set_api (snd (ResetPassword L body now saved (wo_api w))) now w)"

text \<open>What a request at time \<open>now\<close> may do to the accounts of an API, and to its refresh tokens with new logins in \<open>fams\<close>.\<close>

definition users_effect :: "int \<Rightarrow> accounts \<Rightarrow> accounts \<Rightarrow> bool" where
  "users_effect now st st' \<longleftrightarrow> (\<forall>u \<in> set (ac_users st'). live u \<longrightarrow> u \<in> set (ac_users st) \<or> u_UpdatedAt u = FormatTime now)"

definition tokens_ok :: "refresh_row list \<Rightarrow> bool" where
  "tokens_ok rows \<longleftrightarrow> distinct (map rt_ID rows) \<and> distinct (map rt_hash rows)
     \<and> distinct (map rt_FamilyID (filter (\<lambda>r. rt_ReplacedAt r = None) rows))"

definition tokens_effect :: "string set \<Rightarrow> accounts \<Rightarrow> accounts \<Rightarrow> bool" where
  "tokens_effect fams st st' \<longleftrightarrow>
     rt_FamilyID ` set (ac_refresh st') \<subseteq> rt_FamilyID ` set (ac_refresh st) \<union> fams
     \<and> (tokens_ok (ac_refresh st) \<longrightarrow> rt_FamilyID ` set (ac_refresh st) \<inter> fams = {} \<longrightarrow> tokens_ok (ac_refresh st'))"

definition store_effect :: "int \<Rightarrow> string set \<Rightarrow> accounts \<Rightarrow> accounts \<Rightarrow> bool" where
  "store_effect now fams st st' \<longleftrightarrow> users_effect now st st' \<and> tokens_effect fams st st'"

lemma store_effect_refl: "store_effect now fams st st"
  by (auto simp: store_effect_def users_effect_def tokens_effect_def)

lemma tokens_effect_filter: "ac_refresh st' = filter P (ac_refresh st) \<Longrightarrow> tokens_effect fams st st'"
proof -
  assume r: "ac_refresh st' = filter P (ac_refresh st)"
  have d: "distinct (map f (filter P xs))" if "distinct (map f xs)" for f :: "refresh_row \<Rightarrow> string" and P xs
    using that by (auto simp: distinct_map inj_on_def)
  have "filter (\<lambda>r. rt_ReplacedAt r = None) (filter P xs) = filter P (filter (\<lambda>r. rt_ReplacedAt r = None) xs)" for xs :: "refresh_row list"
    by (simp add: conj_commute)
  then show ?thesis using r d by (auto simp: tokens_effect_def tokens_ok_def simp del: filter_filter)
qed

lemma tokens_effect_same: "ac_refresh st' = ac_refresh st \<Longrightarrow> tokens_effect fams st st'"
  using tokens_effect_filter [of st' "\<lambda>_. True" st] by simp

lemma users_effect_same: "ac_users st' = ac_users st \<Longrightarrow> users_effect now st st'"
  by (simp add: users_effect_def)

lemma store_effect_trans:
  assumes "store_effect now fams a b" "store_effect now {} b c" shows "store_effect now fams a c"
  using assms unfolding store_effect_def users_effect_def tokens_effect_def by blast

subsection \<open>The effects of the operations of the store\<close>

lemma CreateUser_effect: "CreateUser i now e h r st = Inr (u, st') \<Longrightarrow> store_effect now fams st st'"
  by (auto simp: CreateUser_def Let_def store_effect_def users_effect_def intro!: tokens_effect_same
      split: if_splits sum.splits)

lemma UpdateUser_effect: "UpdateUser i e r now st = Inr (u, st') \<Longrightarrow> store_effect now fams st st'"
  unfolding store_effect_def UpdateUser_def Let_def
  by (auto split: if_splits sum.splits option.splits intro!: tokens_effect_filter simp: users_effect_def)

lemma SetUserPassword_effect: "SetUserPassword e h now st = Inr st' \<Longrightarrow> store_effect now fams st st'"
  unfolding store_effect_def SetUserPassword_def
  by (auto split: if_splits intro!: tokens_effect_filter simp: users_effect_def)

lemma DeleteUser_effect: "DeleteUser i now st = Inr st' \<Longrightarrow> store_effect now fams st st'"
  unfolding store_effect_def DeleteUser_def
  by (auto split: if_splits intro!: tokens_effect_filter simp: users_effect_def)

lemma ConsumePasswordResetToken_effect: "store_effect now fams st (snd (ConsumePasswordResetToken L now' tok st))"
  unfolding store_effect_def
  by (auto simp: ConsumePasswordResetToken_def deleteExpiredResetTokens_def Let_def
      intro!: tokens_effect_same users_effect_same split: option.splits)

lemma CreatePasswordResetToken_effect: "CreatePasswordResetToken L i now' u tok e st = Inr st' \<Longrightarrow> store_effect now fams st st'"
  unfolding store_effect_def
  by (auto simp: CreatePasswordResetToken_def deleteExpiredResetTokens_def Let_def
      intro!: tokens_effect_same users_effect_same split: if_splits)

lemma Revoke_effect:
  "store_effect now fams st (RevokeRefreshTokenFamily F st)" "store_effect now fams st (RevokeRefreshTokensForEmail e st)"
  unfolding store_effect_def RevokeRefreshTokenFamily_def RevokeRefreshTokensForEmail_def
  by (auto intro!: tokens_effect_filter users_effect_same)

lemma insert_refresh_Inr:
  assumes "insert_refresh row st = Inr st'"
  shows "ac_refresh st' = ac_refresh st @ [row]" "ac_users st' = ac_users st"
    "rt_ID row \<notin> rt_ID ` set (ac_refresh st)" "rt_hash row \<notin> rt_hash ` set (ac_refresh st)"
  using assms by (auto simp: insert_refresh_def list_ex_iff split: if_splits)

lemma CreateRefreshToken_effect:
  assumes "CreateRefreshToken i h F e r u t t' st = Inr st'" shows "store_effect now {F} st st'"
proof -
  let ?st = "st\<lparr>ac_refresh := filter (\<lambda>r. \<not> rt_ExpiresAt r < FormatTime t) (ac_refresh st)\<rparr>"
  have f: "tokens_effect {F} st ?st" by (rule tokens_effect_filter) simp
  obtain row where row: "insert_refresh row ?st = Inr st'" "rt_FamilyID row = F"
    using assms unfolding CreateRefreshToken_def by fastforce
  have "tokens_effect {F} st st'"
    using f insert_refresh_Inr [OF row(1)] row(2)
    unfolding tokens_effect_def tokens_ok_def by auto
  then show ?thesis using insert_refresh_Inr(2) [OF row(1)] by (simp add: store_effect_def users_effect_same)
qed

lemma RotateRefreshToken_effect:
  assumes "RotateRefreshToken old i h t t' st = Inr st'" shows "store_effect now {} st st'"
proof -
  let ?old = "\<lambda>r. rt_ID r = rt_ID old \<and> rt_ReplacedAt r = None"
  define marked where "marked = map (\<lambda>r. if ?old r then r\<lparr>rt_ReplacedAt := Some (FormatTime t)\<rparr> else r) (ac_refresh st)"
  let ?rest = "filter (\<lambda>r. rt_ReplacedAt r = None \<and> rt_ID r \<noteq> rt_ID old) (ac_refresh st)"
  obtain row where row: "find ?old (ac_refresh st) = Some row"
    using assms by (auto simp: RotateRefreshToken_def split: option.splits)
  note row' = find_Some_unique [OF row]
  define new where "new = row\<lparr>rt_ID := i, rt_hash := h, rt_CreatedAt := FormatTime t, rt_ExpiresAt := FormatTime t'\<rparr>"
  have new: "rt_ReplacedAt new = None" "rt_FamilyID new = rt_FamilyID row" using row'(2) by (simp_all add: new_def)
  have "insert_refresh new (st\<lparr>ac_refresh := marked\<rparr>) = Inr st'"
    using assms by (simp add: RotateRefreshToken_def row new_def marked_def)
  note ins = insert_refresh_Inr [OF this, simplified]
  have same: "map rt_ID marked = map rt_ID (ac_refresh st)" "map rt_hash marked = map rt_hash (ac_refresh st)"
    "map rt_FamilyID marked = map rt_FamilyID (ac_refresh st)" by (simp_all add: marked_def)
  have img: "rt_ID ` set marked = rt_ID ` set (ac_refresh st)" "rt_hash ` set marked = rt_hash ` set (ac_refresh st)"
    using same by (metis set_map)+
  have unrep: "filter (\<lambda>r. rt_ReplacedAt r = None) marked = ?rest"
  proof -
    have "filter (\<lambda>r. rt_ReplacedAt r = None) (map (\<lambda>r. if ?old r then r\<lparr>rt_ReplacedAt := Some (FormatTime t)\<rparr> else r) rows)
        = filter (\<lambda>r. rt_ReplacedAt r = None \<and> rt_ID r \<noteq> rt_ID old) rows" for rows by (induction rows) auto
    then show ?thesis by (simp add: marked_def)
  qed
  have "tokens_ok (ac_refresh st')" if ok: "tokens_ok (ac_refresh st)"
  proof -
    have "r = row" if "r \<in> set (ac_refresh st)" "rt_ReplacedAt r = None" "rt_FamilyID r = rt_FamilyID row" for r
      using ok that row' unfolding tokens_ok_def by (auto simp: distinct_map inj_on_def)
    then have "rt_FamilyID row \<notin> rt_FamilyID ` set ?rest" using row'(2) by force
    moreover have "distinct (map rt_FamilyID ?rest)"
      using ok by (auto simp: tokens_ok_def distinct_map inj_on_def)
    ultimately show ?thesis using ok ins(3,4) [unfolded img] same(1,2) new
      unfolding tokens_ok_def ins(1) by (simp add: unrep)
  qed
  moreover have "rt_FamilyID ` set (ac_refresh st') \<subseteq> rt_FamilyID ` set (ac_refresh st)"
    using ins(1) row'(1) new arg_cong [OF same(3), of set] by auto
  ultimately show ?thesis using ins(2) by (simp add: store_effect_def tokens_effect_def users_effect_same)
qed

subsection \<open>The effects of the handlers\<close>

definition bcrypt_sane :: "('c) auth_libs_scheme \<Rightarrow> bool" where
  "bcrypt_sane L \<longleftrightarrow> (\<forall>p h. bcrypt_hash L p = Some h \<longrightarrow> h \<noteq> '''')"

definition api_effect :: "int \<Rightarrow> string set \<Rightarrow> api \<Rightarrow> api \<Rightarrow> bool" where
  "api_effect now fams a a' \<longleftrightarrow>
     (cf_AdminPassword (ap_cfg a) \<noteq> '''' \<longrightarrow>
        cf_AdminEmail (ap_cfg a') = cf_AdminEmail (ap_cfg a) \<and> cf_AdminPassword (ap_cfg a') \<noteq> '''')
     \<and> (cf_AdminTokensValidAfter (ap_cfg a') = cf_AdminTokensValidAfter (ap_cfg a)
        \<or> cf_AdminTokensValidAfter (ap_cfg a') = now div second_ns)
     \<and> rel_option (store_effect now fams) (ap_store a) (ap_store a')"

lemma rel_store_refl [simp]: "rel_option (store_effect now fams) x x"
  by (cases x) (simp_all add: store_effect_refl)

lemma api_effect_refl [simp]: "api_effect now fams a a"
  by (simp add: api_effect_def)

lemma api_effect_store:
  assumes "ap_cfg a' = ap_cfg a" "rel_option (store_effect now fams) (ap_store a) (ap_store a')"
  shows "api_effect now fams a a'"
  using assms by (simp add: api_effect_def)

lemma store_effect_more: "store_effect now {} st st' \<Longrightarrow> store_effect now fams st st'"
  unfolding store_effect_def tokens_effect_def by blast

lemma issueRefreshToken_effect:
  assumes "issueRefreshToken L e r f t a = Some (tok, a')" shows "api_effect now {fr_family f} a a'"
  using assms CreateRefreshToken_effect [where now = now and F = "fr_family f"]
  by (auto simp: issueRefreshToken_def intro!: api_effect_store split: option.splits sum.splits)

lemma api_effect_logins: "api_effect now fams (a\<lparr>ap_logins := l\<rparr>) a' \<Longrightarrow> api_effect now fams a a'"
  by (simp add: api_effect_def)

lemma Login_effect: "api_effect now {fr_family f} a (snd (Login L remote body f now a))"
  unfolding Login_def Let_def
  by (auto split: option.split prod.split intro: api_effect_store api_effect_logins dest!: issueRefreshToken_effect [where now = now])

lemma revoke_family_effect: "api_effect now fams a (revoke_family F a)"
  by (intro api_effect_store) (simp_all add: revoke_family_def option.rel_map Revoke_effect option.rel_refl)

lemma refresh_finish_effect: "api_effect now fams a (snd (refresh_finish L stored n v h f t a))"
  using RotateRefreshToken_effect [THEN store_effect_more, where now = now and fams = fams]
  by (auto simp: refresh_finish_def revoke_family_effect intro!: api_effect_store
      split: verdict.split option.split sum.split acc_error.split)

lemma Logout_effect: "api_effect now fams a (snd (Logout L h c a))"
  by (simp add: Logout_def revoke_family_effect split: option.split)

lemma InitializeSetup_effect: "api_effect now fams a (snd (InitializeSetup L body saved a))"
  by (auto simp: InitializeSetup_def api_effect_def split: option.split)

lemma CreateAppUser_effect: "api_effect now fams a (snd (CreateAppUser L c body i now a))"
  using CreateUser_effect [where now = now and fams = fams]
  by (auto simp: CreateAppUser_def intro!: api_effect_store split: option.split sum.split)

lemma UpdateAppUser_effect: "api_effect now fams a (snd (UpdateAppUser L c i body now a))"
  using UpdateUser_effect [where now = now and fams = fams]
  by (auto simp: UpdateAppUser_def intro!: api_effect_store split: option.split sum.split)

lemma DeleteAppUser_effect: "api_effect now fams a (snd (DeleteAppUser c i now a))"
  using DeleteUser_effect [where now = now and fams = fams]
  by (auto simp: DeleteAppUser_def intro!: api_effect_store split: option.split sum.split)

lemma save_admin_password_effect: "hash \<noteq> '''' \<Longrightarrow> api_effect now fams a (snd (save_admin_password hash now saved a))"
  by (auto simp: save_admin_password_def set_admin_password_def revokeAdminRefreshTokens_def api_effect_def Let_def
      option.rel_map Revoke_effect intro: option.rel_refl)

lemma ChangePassword_effect: "bcrypt_sane L \<Longrightarrow> api_effect now fams a (snd (ChangePassword L c body now saved a))"
  using SetUserPassword_effect [where now = now and fams = fams]
  by (auto simp: ChangePassword_def bcrypt_sane_def intro!: api_effect_store save_admin_password_effect
      split: option.split sum.split)

lemma ForgotPassword_effect: "api_effect now fams a (snd (snd (ForgotPassword L body f now a)))"
  using CreatePasswordResetToken_effect [where now = now and fams = fams]
  by (auto simp: ForgotPassword_def Let_def intro!: api_effect_store split: option.split sum.split prod.split)

lemma ResetPassword_effect:
  assumes "bcrypt_sane L" shows "api_effect now fams a (snd (ResetPassword L body now saved a))"
proof (cases body)
  case (Some b)
  show ?thesis
  proof (cases "ap_store a")
    case st: (Some st)
    obtain token pw where b: "b = (token, pw)" by fastforce
    obtain res st1 where c: "ConsumePasswordResetToken L now token st = (res, st1)" by fastforce
    define a1 where "a1 = a\<lparr>ap_store := Some st1\<rparr>"
    have e: "store_effect now fams st st1" using ConsumePasswordResetToken_effect [of now fams st L now token] c by simp
    then have a1: "api_effect now fams a a1" by (intro api_effect_store) (simp_all add: a1_def st)
    have saved: "api_effect now fams a (snd (save_admin_password h now saved a1))" if "h \<noteq> ''''" for h
      using save_admin_password_effect [OF that, where now = now and fams = "{}" and saved = saved and a = a1] a1 st
        store_effect_trans [of now fams st st1] unfolding api_effect_def
      by (auto simp: a1_def option_rel_Some1)
    have set: "api_effect now fams a (a\<lparr>ap_store := Some st2\<rparr>)" if "SetUserPassword m h now st1 = Inr st2" for m h st2
      using store_effect_trans [OF e SetUserPassword_effect [OF that]] by (intro api_effect_store) (simp_all add: st)
    have "api_effect now fams a (snd (case res of Inl _ \<Rightarrow> (400, a1)
                  | Inr userID \<Rightarrow>
                        (case bcrypt_hash L pw of
                           None \<Rightarrow> (500, a1)
                         | Some hash \<Rightarrow>
                             if userID \<noteq> AdminUserID then
                               (case (case GetUser userID st1 of Inl e \<Rightarrow> Inl e | Inr u \<Rightarrow> SetUserPassword (u_Email u) hash now st1) of
                                  Inl AccNotFound \<Rightarrow> (400, a1)
                                | Inl e \<Rightarrow> (store_status e, a1)
                                | Inr st2 \<Rightarrow> (200, a\<lparr>ap_store := Some st2\<rparr>))
                             else if cf_AdminEmail (ap_cfg a) = '''' then (400, a1)
                             else save_admin_password hash now saved a1)))"
      using a1 saved set assms by (auto simp: bcrypt_sane_def split: sum.split option.split acc_error.split)
    then show ?thesis using a1 by (auto simp: ResetPassword_def Some b st c a1_def [symmetric] simp del: split_paired_All)
  qed (simp add: ResetPassword_def Some split: prod.split)
qed (simp add: ResetPassword_def)

subsection \<open>Histories\<close>

lemma world_step_effect:
  assumes "bcrypt_sane L" "world_step L w w'"
  obtains fams where "wo_time w \<le> wo_time w'" "api_effect (wo_time w') fams (wo_api w) (wo_api w')"
    "fams \<inter> set (wo_families w) = {}" "set (wo_families w') = set (wo_families w) \<union> fams"
  using assms(2)
proof cases
  case (login now f remote body)
  then show ?thesis using that [of "{fr_family f}"] Login_effect [of now f "wo_api w" L remote body] by (auto simp: set_api_def)
next
  case (change now c body saved)
  then show ?thesis using that [of "{}"] ChangePassword_effect [OF assms(1)] by (simp add: set_api_def)
next
  case (reset now body saved)
  then show ?thesis using that [of "{}"] ResetPassword_effect [OF assms(1)] by (simp add: set_api_def)
qed (use that [of "{}"] in \<open>simp add: set_api_def refresh_finish_effect Logout_effect InitializeSetup_effect CreateAppUser_effect
    UpdateAppUser_effect DeleteAppUser_effect ForgotPassword_effect\<close>)+

abbreviation world_steps :: "('c) auth_libs_scheme \<Rightarrow> world \<Rightarrow> world \<Rightarrow> bool" where
  "world_steps L \<equiv> (world_step L)\<^sup>*\<^sup>*"

text \<open>A fresh installation or a database whose tokens are in order.\<close>

definition world_ok :: "world \<Rightarrow> bool" where
  "world_ok w \<longleftrightarrow> (case ap_store (wo_api w) of None \<Rightarrow> True
     | Some st \<Rightarrow> tokens_ok (ac_refresh st) \<and> rt_FamilyID ` set (ac_refresh st) \<subseteq> set (wo_families w))"

lemma world_ok_step:
  assumes "bcrypt_sane L" "world_step L w w'" "world_ok w" shows "world_ok w'"
proof -
  obtain fams where e: "api_effect (wo_time w') fams (wo_api w) (wo_api w')"
      "fams \<inter> set (wo_families w) = {}" "set (wo_families w') = set (wo_families w) \<union> fams"
    using world_step_effect [OF assms(1,2)] by metis
  show ?thesis
  proof (cases "ap_store (wo_api w')")
    case (Some st')
    then obtain st where st: "ap_store (wo_api w) = Some st" "tokens_effect fams st st'"
      using e(1) by (auto simp: api_effect_def store_effect_def option_rel_Some2)
    have old: "tokens_ok (ac_refresh st)" "rt_FamilyID ` set (ac_refresh st) \<subseteq> set (wo_families w)"
      using assms(3) st(1) by (simp_all add: world_ok_def)
    then have "rt_FamilyID ` set (ac_refresh st) \<inter> fams = {}" using e(2) by blast
    then have "tokens_ok (ac_refresh st')" using st(2) old(1) unfolding tokens_effect_def by blast
    moreover have "rt_FamilyID ` set (ac_refresh st') \<subseteq> set (wo_families w')"
      using st(2) old(2) e(3) unfolding tokens_effect_def by blast
    ultimately show ?thesis using Some by (simp add: world_ok_def)
  qed (simp add: world_ok_def)
qed

lemma world_ok_steps: "world_steps L w w' \<Longrightarrow> bcrypt_sane L \<Longrightarrow> world_ok w \<Longrightarrow> world_ok w'"
  by (induction rule: rtranclp_induct) (auto intro: world_ok_step)

text \<open>A family without rows has ended.\<close>

definition ended :: "string \<Rightarrow> api \<Rightarrow> bool" where
  "ended F a \<longleftrightarrow> (case ap_store a of None \<Rightarrow> True | Some st \<Rightarrow> F \<notin> rt_FamilyID ` set (ac_refresh st))"

lemma ended_steps:
  assumes "world_steps L w w'" "bcrypt_sane L" "F \<in> set (wo_families w)" "ended F (wo_api w)"
  shows "ended F (wo_api w') \<and> F \<in> set (wo_families w')"
  using assms
proof (induction rule: rtranclp_induct)
  case (step w' w'')
  then obtain fams where e: "api_effect (wo_time w'') fams (wo_api w') (wo_api w'')"
      "fams \<inter> set (wo_families w') = {}" "set (wo_families w'') = set (wo_families w') \<union> fams"
    using world_step_effect [OF step.prems(1) step.hyps(2)] by metis
  have F: "F \<in> set (wo_families w')" "ended F (wo_api w')" using step.IH step.prems by simp_all
  then have "F \<notin> fams" using e(2) by blast
  have "ended F (wo_api w'')"
  proof (cases "ap_store (wo_api w'')")
    case (Some st')
    then obtain st where st: "ap_store (wo_api w') = Some st"
        "rt_FamilyID ` set (ac_refresh st') \<subseteq> rt_FamilyID ` set (ac_refresh st) \<union> fams"
      using e(1) by (auto simp: api_effect_def store_effect_def tokens_effect_def option_rel_Some2)
    then have "F \<notin> rt_FamilyID ` set (ac_refresh st')" using F(2) \<open>F \<notin> fams\<close> unfolding ended_def st(1) by auto
    then show ?thesis unfolding ended_def Some by simp
  qed (simp add: ended_def)
  then show ?case using F(1) e(3) by simp
qed simp

lemma refresh_lookup_row:
  assumes "refresh_lookup L token a = Some stored"
  obtains st row where "ap_store a = Some st" "row \<in> set (ac_refresh st)" "stored = refresh_token.truncate row"
    "rt_hash row = hashRefreshToken L token"
proof -
  obtain st row where st: "ap_store a = Some st" "stored = refresh_token.truncate row"
      and f: "find (\<lambda>r. rt_hash r = hashRefreshToken L token) (ac_refresh st) = Some row"
    using assms by (auto simp: refresh_lookup_def GetRefreshToken_def split: option.splits if_splits)
  show thesis using that [OF st(1) _ st(2)] find_Some_unique [OF f] by blast
qed

lemma truncate_sel [simp]:
  "rt_FamilyID (refresh_token.truncate r) = rt_FamilyID r" "rt_Email (refresh_token.truncate r) = rt_Email r"
  "rt_ID (refresh_token.truncate r) = rt_ID r" "rt_ReplacedAt (refresh_token.truncate r) = rt_ReplacedAt r"
  "rt_ExpiresAt (refresh_token.truncate r) = rt_ExpiresAt r" "rt_CreatedAt (refresh_token.truncate r) = rt_CreatedAt r"
  "rt_AppRole (refresh_token.truncate r) = rt_AppRole r"
  by (simp_all add: refresh_token.truncate_def)

lemma ended_lookup: "ended F a \<Longrightarrow> refresh_lookup L token a = Some stored \<Longrightarrow> rt_FamilyID stored \<noteq> F"
  by (elim refresh_lookup_row) (auto simp: ended_def)

lemma revoked_ended: "ended (rt_FamilyID stored) (revoke_family (rt_FamilyID stored) a)"
  by (auto simp: ended_def revoke_family_def RevokeRefreshTokenFamily_def split: option.split)


text \<open>
  C17. At any time each login has at most one token that can still be exchanged, and no two tokens share an id or a
  hash, whatever requests were handled and however refreshes of the same token raced.
\<close>

theorem one_token_per_login:
  assumes "bcrypt_sane L" "world_ok w" "world_steps L w w'" "ap_store (wo_api w') = Some st"
  shows "distinct (map rt_FamilyID (filter (\<lambda>r. rt_ReplacedAt r = None) (ac_refresh st)))
    \<and> distinct (map rt_ID (ac_refresh st)) \<and> distinct (map rt_hash (ac_refresh st))"
  using world_ok_steps [OF assms(3,1,2)] assms(4) by (simp add: world_ok_def tokens_ok_def)

text \<open>The account of an e-mail address has changed at \<open>T\<close> or later.\<close>

definition changed_since :: "string \<Rightarrow> int \<Rightarrow> api \<Rightarrow> bool" where
  "changed_since e T a \<longleftrightarrow>
     (if cf_AdminEmail (ap_cfg a) \<noteq> '''' \<and> e = cf_AdminEmail (ap_cfg a) then T div second_ns \<le> cf_AdminTokensValidAfter (ap_cfg a)
      else \<forall>st u. ap_store a = Some st \<longrightarrow> u \<in> set (ac_users st) \<longrightarrow> live u \<longrightarrow> u_Email u = e \<longrightarrow> FormatTime T \<le> u_UpdatedAt u)"

lemma div_mono_second: "s \<le> t \<Longrightarrow> s div second_ns \<le> t div second_ns"
  by (rule zdiv_mono1) (simp_all add: second_ns_def)

lemma changed_since_effect:
  assumes "api_effect now fams a a'" "T \<le> now" "cf_AdminPassword (ap_cfg a) \<noteq> ''''" "changed_since e T a"
  shows "changed_since e T a' \<and> cf_AdminPassword (ap_cfg a') \<noteq> ''''"
proof
  have cfg: "cf_AdminEmail (ap_cfg a') = cf_AdminEmail (ap_cfg a)" "cf_AdminPassword (ap_cfg a') \<noteq> ''''"
    using assms(1,3) by (simp_all add: api_effect_def)
  then show "cf_AdminPassword (ap_cfg a') \<noteq> ''''" by simp
  show "changed_since e T a'"
  proof (cases "cf_AdminEmail (ap_cfg a) \<noteq> '''' \<and> e = cf_AdminEmail (ap_cfg a)")
    case True
    then show ?thesis using assms div_mono_second [of T now] cfg by (auto simp: changed_since_def api_effect_def)
  next
    case False
    have "FormatTime T \<le> u_UpdatedAt u"
      if u: "ap_store a' = Some st'" "u \<in> set (ac_users st')" "live u" "u_Email u = e" for st' u
    proof -
      obtain st where "ap_store a = Some st" "users_effect now st st'"
        using assms(1) u(1) by (auto simp: api_effect_def store_effect_def option_rel_Some2)
      then show ?thesis using u assms(4) False FormatTime_mono [OF assms(2)] by (auto simp: users_effect_def changed_since_def)
    qed
    then show ?thesis using False cfg by (auto simp: changed_since_def)
  qed
qed

lemma changed_since_steps:
  assumes "world_steps L w w'" "bcrypt_sane L" "T \<le> wo_time w" "cf_AdminPassword (ap_cfg (wo_api w)) \<noteq> ''''" "changed_since e T (wo_api w)"
  shows "changed_since e T (wo_api w') \<and> cf_AdminPassword (ap_cfg (wo_api w')) \<noteq> '''' \<and> T \<le> wo_time w'"
  using assms
proof (induction rule: rtranclp_induct)
  case (step w' w'')
  then obtain fams where e: "wo_time w' \<le> wo_time w''" "api_effect (wo_time w'') fams (wo_api w') (wo_api w'')"
    using world_step_effect [OF step.prems(1) step.hyps(2)] by metis
  then show ?case using changed_since_effect [OF e(2), of T e] step by auto
qed simp

lemma FormatTime_second: "FormatTime t div second_ns = t div second_ns"
proof -
  have "FormatTime t = 1000000 * (t div 1000000)" by (simp add: FormatTime_def minus_mod_eq_mult_div)
  moreover have "(1000000 * x) div (1000000 * 1000) = x div (1000 :: int)" for x by (rule div_mult_mult1) simp
  moreover have "t div (1000000 * 1000) = t div 1000000 div 1000" by (rule zdiv_zmult2_eq) simp
  ultimately show ?thesis by (simp add: second_ns_def)
qed

lemma changed_since_rejects:
  assumes "changed_since (cl_Email c) T a" "cl_IssuedAt c = Some i" "i < T div second_ns * second_ns"
  shows "\<not> ValidateSession c a"
proof (cases "cl_Email c = cf_AdminEmail (ap_cfg a) \<and> cf_AdminEmail (ap_cfg a) \<noteq> ''''")
  case True
  have "i div second_ns < T div second_ns"
    using assms(3) by (simp add: second_ns_def)
  then show ?thesis using True assms by (auto simp: ValidateSession_def changed_since_def)
next
  case False
  show ?thesis
  proof
    assume v: "ValidateSession c a"
    then obtain st u where st: "ap_store a = Some st" "GetUserByEmail (cl_Email c) st = Inr u"
        "\<not> i < u_UpdatedAt u div second_ns * second_ns"
      using False assms(2) by (auto simp: ValidateSession_def split: option.splits sum.splits)
    then obtain r where f: "find (\<lambda>u. live u \<and> u_Email u = cl_Email c) (ac_users st) = Some r" and u: "u = user.truncate r"
      by (auto simp: GetUserByEmail_def scanUser_def split: option.splits)
    have "r \<in> set (ac_users st)" "live r" "u_Email r = cl_Email c" "u_UpdatedAt u = u_UpdatedAt r"
      using find_Some_unique [OF f] u by (simp_all add: user.truncate_def)
    then have "FormatTime T \<le> u_UpdatedAt u" using assms(1) st(1) False by (auto simp: changed_since_def)
    then have "T div second_ns \<le> u_UpdatedAt u div second_ns" using div_mono_second FormatTime_second by metis
    then show False using st(3) assms(3) by (simp add: second_ns_def)
  qed
qed

lemma store_status_error: "store_status e \<noteq> 200"
  by (simp add: store_status_def split: acc_error.split)

text \<open>The two ways a password change can succeed.\<close>

lemma ChangePassword_ok:
  assumes "ChangePassword L (Some c) body now saved a = (200, a')"
  obtains (admin) hash p where "cl_Email c = cf_AdminEmail (ap_cfg a)" "bcrypt_hash L p = Some hash"
      "a' = revokeAdminRefreshTokens (set_admin_password hash now a)"
    | (user) st hash p st' where "ap_store a = Some st" "cl_Email c \<noteq> cf_AdminEmail (ap_cfg a)" "bcrypt_hash L p = Some hash"
      "SetUserPassword (cl_Email c) hash now st = Inr st'" "a' = a\<lparr>ap_store := Some st'\<rparr>"
proof (cases "cl_Email c = cf_AdminEmail (ap_cfg a)")
  case True
  then show ?thesis using assms admin
    by (auto simp: ChangePassword_def save_admin_password_def Let_def split: option.splits if_splits)
next
  case False
  then show ?thesis using assms user store_status_error
    by (auto simp: ChangePassword_def split: option.splits if_splits sum.splits)
qed

text \<open>
  C16. A changed password ends every session of the account: no refresh token of it is left, and an access token
  issued in an earlier second is refused from then on, whatever requests follow.
\<close>

theorem password_change_revokes:
  assumes "bcrypt_sane L" "cf_AdminPassword (ap_cfg a) \<noteq> ''''" "cf_AdminEmail (ap_cfg a) \<noteq> ''''"
    and "ChangePassword L (Some c) body now saved a = (200, a')"
    and "wo_api w = a'" "wo_time w = now" "world_steps L w w'"
    and "cl_Email c' = cl_Email c" "cl_IssuedAt c' = Some i" "i < now div second_ns * second_ns"
  shows "\<not> ValidateSession c' (wo_api w')
    \<and> (case refresh_lookup L token a' of None \<Rightarrow> True | Some stored \<Rightarrow> rt_Email stored \<noteq> cl_Email c)"
proof -
  from assms(4) have change: "changed_since (cl_Email c) now a' \<and> cf_AdminPassword (ap_cfg a') \<noteq> ''''
      \<and> (\<forall>st. ap_store a' = Some st \<longrightarrow> (\<forall>r \<in> set (ac_refresh st). rt_Email r \<noteq> cl_Email c))"
  proof (cases rule: ChangePassword_ok)
    case (admin hash p)
    then have "hash \<noteq> ''''" using assms(1) by (simp add: bcrypt_sane_def)
    then show ?thesis using admin assms(3)
      by (auto simp: set_admin_password_def revokeAdminRefreshTokens_def RevokeRefreshTokensForEmail_def changed_since_def)
  next
    case (user st hash p st')
    then show ?thesis using assms(2)
      by (auto simp: SetUserPassword_def changed_since_def split: if_splits)
  qed
  have "changed_since (cl_Email c') now (wo_api w')"
    using changed_since_steps [OF assms(7,1), of now "cl_Email c"] change assms(5,6,8) by simp
  then have "\<not> ValidateSession c' (wo_api w')" using changed_since_rejects assms(9,10) by blast
  moreover have "rt_Email stored \<noteq> cl_Email c" if "refresh_lookup L token a' = Some stored" for stored
    using refresh_lookup_row [OF that] change by (metis truncate_sel(2))
  ultimately show ?thesis by (simp split: option.split)
qed

text \<open>
  The race of a refresh with the end of its login: once the row is gone, \<open>RotateRefreshToken\<close> reports the same
  error as for a token that another refresh replaced, and the request still gets an access token.
\<close>

lemma ended_login_gets_access_token:
  assumes "ap_store a = Some st" "rt_ID stored \<notin> rt_ID ` set (ac_refresh st)" "newRefreshToken f = Some token"
  shows "refresh_finish L stored now (Renew c) inHeader f t a = (with_access L c t a (just 200), a)"
proof -
  have "find (\<lambda>r. rt_ID r = rt_ID stored \<and> rt_ReplacedAt r = None) (ac_refresh st) = None"
    using assms(2) by (force simp: find_None_iff)
  then show ?thesis using assms by (simp add: refresh_finish_def RotateRefreshToken_def)
qed

subsection \<open>A login is usable\<close>

text \<open>What the code relies on in the JWT library: times are cut to the second, signing works and what was signed is read back.\<close>

definition jwt_ok :: "('c) auth_libs_scheme \<Rightarrow> bool" where
  "jwt_ok L \<longleftrightarrow> (\<forall>t. NewNumericDate L t = t div second_ns * second_ns) \<and> (\<forall>s c. \<exists>tok. jwt_sign L s c = Some tok)
     \<and> (\<forall>s c tok now. jwt_sign L s c = Some tok \<longrightarrow> (\<forall>e. cl_ExpiresAt c = Some e \<longrightarrow> now < e) \<longrightarrow> jwt_parse L s now tok = Some c)"

lemma second_floor_mono: "s \<le> t \<Longrightarrow> s div second_ns * second_ns \<le> t div second_ns * second_ns"
  using div_mono_second [of s t] by (simp add: second_ns_def)

lemma find_map_id:
  "find (\<lambda>r. rt_hash r = h) (rows @ [x]) = Some x" if "h \<notin> rt_hash ` set rows" "rt_hash x = h"
  using that by (induction rows) auto

text \<open>The account was last changed before \<open>now\<close>.\<close>

definition settled :: "int \<Rightarrow> api \<Rightarrow> bool" where
  "settled now a \<longleftrightarrow> cf_AdminTokensValidAfter (ap_cfg a) \<le> now div second_ns
     \<and> (case ap_store a of None \<Rightarrow> True | Some st \<Rightarrow> list_all (\<lambda>u. u_UpdatedAt u \<le> now) (ac_users st))"

lemma same_users:
  "ac_users st' = ac_users st \<Longrightarrow> GetUserByEmail e st' = GetUserByEmail e st"
  by (simp add: GetUserByEmail_def)

lemma checkLogin_valid:
  assumes "checkLogin L email pw a = Some role" "settled now a" "now \<le> t" "cf_AdminEmail (ap_cfg a) \<noteq> ''''"
    and "ap_cfg a' = ap_cfg a" "ap_store a = Some st" "ap_store a' = Some st'" "ac_users st' = ac_users st"
    and "cl_Email c = email" "cl_AppRole c = role" "cl_IssuedAt c = Some (t div second_ns * second_ns)"
  shows "ValidateSession c a'"
proof (cases "email = cf_AdminEmail (ap_cfg a)")
  case True
  have "cf_AdminTokensValidAfter (ap_cfg a) \<le> t div second_ns"
    using assms(2) div_mono_second [OF assms(3)] by (simp add: settled_def)
  then show ?thesis using True assms by (auto simp: ValidateSession_def checkLogin_def second_ns_def split: if_splits)
next
  case False
  then obtain u where u: "GetUserByEmail email st = Inr u" "role = u_AppRole u"
    using assms(1,6) by (auto simp: checkLogin_def split: sum.splits if_splits)
  then obtain r where f: "find (\<lambda>u. live u \<and> u_Email u = email) (ac_users st) = Some r" and r: "u = user.truncate r"
    by (auto simp: GetUserByEmail_def scanUser_def split: option.splits)
  have "u_UpdatedAt u \<le> now"
    using find_Some_unique(1) [OF f] r assms(2,6) by (auto simp: settled_def list_all_iff user.truncate_def)
  then have "u_UpdatedAt u div second_ns * second_ns \<le> t div second_ns * second_ns"
    using assms(3) by (intro second_floor_mono) linarith
  then show ?thesis using False assms u same_users [OF assms(8), of email] by (simp add: ValidateSession_def)
qed

lemma Login_token:
  assumes "Login L remote (Some (email, pw, True)) f now a = (r, a')" "tr_refresh r = Some token"
  obtains role st st' row where "ap_store a = Some st" "ap_store a' = Some st'" "ap_cfg a' = ap_cfg a" "ac_users st' = ac_users st"
    "checkLogin L email pw a = Some role" "cf_AdminEmail (ap_cfg a) \<noteq> ''''" "token \<noteq> ''''"
    "find (\<lambda>r. rt_hash r = hashRefreshToken L token) (ac_refresh st') = Some row"
    "rt_Email row = email" "rt_AppRole row = role" "rt_CreatedAt row = FormatTime now"
    "rt_ExpiresAt row = FormatTime (now + refreshTokenTTL)" "rt_ReplacedAt row = None"
proof -
  define a1 where "a1 = a\<lparr>ap_logins := success (accountKey (ToLower L) email) (ap_logins a)\<rparr>"
  obtain role where role: "checkLogin L email pw a = Some role" "cf_AdminEmail (ap_cfg a) \<noteq> ''''"
      and issue: "issueRefreshToken L email role f now a1 = Some (token, a')" and tok: "token \<noteq> ''''"
    using assms
    by (auto simp: Login_def Let_def just_def deliverRefreshToken_def a1_def split: option.splits if_splits prod.splits)
  obtain st userID st' where st: "ap_store a = Some st" "a' = a1\<lparr>ap_store := Some st'\<rparr>"
      and create: "CreateRefreshToken (fr_id f) (hashRefreshToken L token) (fr_family f) email role userID now (now + refreshTokenTTL) st = Inr st'"
    using issue tok by (auto simp: issueRefreshToken_def a1_def split: option.splits sum.splits)
  let ?st = "st\<lparr>ac_refresh := filter (\<lambda>r. \<not> rt_ExpiresAt r < FormatTime now) (ac_refresh st)\<rparr>"
  note ins = insert_refresh_Inr [OF create [unfolded CreateRefreshToken_def]]
  have f: "find (\<lambda>r. rt_hash r = hashRefreshToken L token) (ac_refresh st') = Some (List.last (ac_refresh st'))"
    unfolding ins(1) using ins(4) by (subst find_map_id) auto
  show thesis
    by (rule that [OF st(1) _ _ _ role tok f]) (use st ins in \<open>simp_all add: a1_def\<close>)
qed

lemma RotateRefreshToken_works:
  assumes "find (\<lambda>r. rt_ID r = rt_ID old \<and> rt_ReplacedAt r = None) (ac_refresh st) = Some q"
    and "list_all (\<lambda>r. rt_ID r \<noteq> i \<and> rt_hash r \<noteq> h) (ac_refresh st)"
    and "case rt_user_id q of None \<Rightarrow> True | Some i \<Rightarrow> list_ex (\<lambda>u. u_ID u = i) (ac_users st)"
  shows "\<exists>st'. RotateRefreshToken old i h t t' st = Inr st' \<and> ac_users st' = ac_users st"
proof -
  define marked where "marked = map (\<lambda>r. if rt_ID r = rt_ID old \<and> rt_ReplacedAt r = None
      then r\<lparr>rt_ReplacedAt := Some (FormatTime t)\<rparr> else r) (ac_refresh st)"
  have "\<not> list_ex (\<lambda>r. rt_ID r = i \<or> rt_hash r = h) marked"
    using assms(2) by (auto simp: marked_def list_ex_iff list_all_iff)
  then show ?thesis using assms(1,3) by (cases "rt_user_id q") (simp_all add: RotateRefreshToken_def insert_refresh_def marked_def [symmetric])
qed


end
