(* ===== verification/LoginSample.thy ===== *)
theory LoginSample
  imports Logins
begin

text \<open>
  A concrete instance of the parameters of the login handlers and a small database, on which the properties
  of \<open>Logins\<close> are applied.
\<close>

subsection \<open>Parameters\<close>

definition text_str :: "string \<Rightarrow> string" where
  "text_str s = replicate (length s) (CHR ''1'') @ CHR ''0'' # s"

definition take_str :: "string \<Rightarrow> string \<times> string" where
  "take_str s = (let n = length (takeWhile (\<lambda>c. c = CHR ''1'') s); r = drop (Suc n) s in (take n r, drop n r))"

definition text_int :: "int \<Rightarrow> string" where
  "text_int i = (if i < 0 then CHR ''-'' else CHR ''+'') # text_str (replicate (nat \<bar>i\<bar>) (CHR ''1''))"

definition take_int :: "string \<Rightarrow> int \<times> string" where
  "take_int s = (let (d, r) = take_str (tl s) in (if hd s = CHR ''-'' then - int (length d) else int (length d), r))"

definition text_time :: "int option \<Rightarrow> string" where
  "text_time t = (case t of None \<Rightarrow> ''n'' | Some i \<Rightarrow> CHR ''s'' # text_int i)"

definition take_time :: "string \<Rightarrow> int option \<times> string" where
  "take_time s = (if hd s = CHR ''n'' then (None, tl s) else map_prod Some id (take_int (tl s)))"

lemma take_str_text [simp]: "take_str (text_str s @ r) = (s, r)"
proof -
  have "takeWhile (\<lambda>c. c = CHR ''1'') (replicate n (CHR ''1'') @ CHR ''0'' # s) = replicate n (CHR ''1'')" for n s
    by (induction n) simp_all
  then show ?thesis by (simp add: take_str_def text_str_def Let_def)
qed

lemma take_int_text [simp]: "take_int (text_int i @ r) = (i, r)"
  by (simp add: take_int_def text_int_def)

lemma take_time_text [simp]: "take_time (text_time t @ r) = (t, r)"
  by (cases t) (simp_all add: take_time_def text_time_def)

definition sample_sign :: "string \<Rightarrow> claims \<Rightarrow> string" where
  "sample_sign s c = text_str s @ text_str (cl_Email c) @ text_str (cl_AppRole c) @ text_time (cl_IssuedAt c) @ text_time (cl_ExpiresAt c)"

definition sample_parse :: "string \<Rightarrow> int \<Rightarrow> string \<Rightarrow> claims option" where
  "sample_parse s now tok =
     (let (k, r) = take_str tok; (e, r) = take_str r; (a, r) = take_str r; (i, r) = take_time r; (x, r) = take_time r in
      if k \<noteq> s \<or> (case x of None \<Rightarrow> False | Some t \<Rightarrow> \<not> now < t) then None
      else Some \<lparr>cl_Email = e, cl_AppRole = a, cl_IssuedAt = i, cl_ExpiresAt = x\<rparr>)"

lemma sample_parse_sign: "sample_parse s now (sample_sign s c)
    = (if (case cl_ExpiresAt c of None \<Rightarrow> False | Some t \<Rightarrow> \<not> now < t) then None else Some c)"
proof -
  have "take_time (text_time t) = (t, [])" for t using take_time_text [of t "[]"] by simp
  then show ?thesis by (simp add: sample_parse_def sample_sign_def)
qed

definition sample_libs :: auth_libs where
  "sample_libs = \<lparr>sha256 = pad_to 32, ed_public = pad_to 32, ed_sign = (\<lambda>k m. m), ed_verify = (\<lambda>p m s. False),
     bcrypt_hash = (\<lambda>p. Some (CHR ''$'' # p)), bcrypt_ok = (\<lambda>h p. h = CHR ''$'' # p),
     jwt_sign = (\<lambda>s c. Some (sample_sign s c)), jwt_parse = sample_parse,
     NewNumericDate = (\<lambda>t. t div second_ns * second_ns), ToLower = id, EqualFold = (=)\<rparr>"

lemma sample_sane: "bcrypt_sane sample_libs"
  by (simp add: bcrypt_sane_def sample_libs_def)

lemma sample_jwt: "jwt_ok sample_libs"
  by (auto simp: jwt_ok_def sample_libs_def sample_parse_sign split: option.splits)

lemma sample_hash: "take 2 (hashRefreshToken sample_libs (c # r)) = fix_digits 16 2 (byte_of c)"
  by (simp add: hashRefreshToken_def hex_encode_def sample_libs_def pad_to_def take_Cons')

lemma sample_hash_differ:
  "fix_digits 16 2 (byte_of c) \<noteq> fix_digits 16 2 (byte_of d) \<Longrightarrow> hashRefreshToken sample_libs (c # r) \<noteq> hashRefreshToken sample_libs (d # s)"
  using sample_hash [of c r] sample_hash [of d s] by metis

lemma sample_tokens: "EncodeB64 ''abc'' = ''YWJj''" "EncodeB64 ''xyz'' = ''eHl6''"
  by code_simp+

lemma sample_bytes: "fix_digits 16 2 (byte_of (CHR ''Y'')) \<noteq> fix_digits 16 2 (byte_of (CHR ''e''))"
  "fix_digits 16 2 (byte_of (CHR ''a'')) \<noteq> fix_digits 16 2 (byte_of (CHR ''b''))"
  by code_simp+

subsection \<open>A login and its refresh\<close>

definition sample_config :: config where
  "sample_config = \<lparr>cf_AdminEmail = ''admin'', cf_AdminPassword = ''$password'', cf_AdminTokensValidAfter = 0, cf_JWTSecret = ''s''\<rparr>"

definition sample_api :: "accounts \<Rightarrow> api" where
  "sample_api st = \<lparr>ap_cfg = sample_config, ap_store = Some st, ap_logins = []\<rparr>"

definition first_fresh :: fresh where
  "first_fresh = \<lparr>fr_token = Some ''abc'', fr_family = ''f'', fr_id = ''1''\<rparr>"

definition next_fresh :: fresh where
  "next_fresh = \<lparr>fr_token = Some ''xyz'', fr_family = '''', fr_id = ''2''\<rparr>"


subsection \<open>Two logins, one of them stolen\<close>

definition sample_row :: "string \<Rightarrow> string \<Rightarrow> string \<Rightarrow> string \<Rightarrow> int option \<Rightarrow> refresh_row" where
  "sample_row i fam email token replaced = \<lparr>rt_ID = i, rt_FamilyID = fam, rt_Email = email, rt_AppRole = ''TREASURER'', rt_CreatedAt = 0,
     rt_ExpiresAt = 1000 * second_ns, rt_ReplacedAt = replaced, rt_hash = hashRefreshToken sample_libs token, rt_user_id = Some ''u''\<rparr>"

definition sample_user :: user_row where
  "sample_user = \<lparr>u_ID = ''u'', u_Email = ''eve'', u_PasswordHash = ''$old-secret'', u_AppRole = ''TREASURER'', u_CreatedAt = 0,
     u_UpdatedAt = 0, u_deleted_at = None\<rparr>"

definition two_logins :: accounts where
  "two_logins = \<lparr>ac_users = [sample_user], ac_refresh = [sample_row ''1'' ''f'' ''eve'' ''a'' (Some 0), sample_row ''2'' ''g'' ''eve'' ''b'' None],
     ac_resets = []\<rparr>"

definition sample_world :: world where
  "sample_world = \<lparr>wo_api = sample_api two_logins, wo_families = [''f'', ''g''], wo_time = 0\<rparr>"

lemma tokens_differ: "hashRefreshToken sample_libs ''a'' \<noteq> hashRefreshToken sample_libs ''b''"
  by (rule sample_hash_differ) (rule sample_bytes)

lemma sample_row_sel [simp]:
  "rt_ID (sample_row i fam email token rep) = i" "rt_FamilyID (sample_row i fam email token rep) = fam"
  "rt_Email (sample_row i fam email token rep) = email" "rt_ReplacedAt (sample_row i fam email token rep) = rep"
  "rt_hash (sample_row i fam email token rep) = hashRefreshToken sample_libs token"
  "rt_user_id (sample_row i fam email token rep) = Some ''u''"
  by (simp_all add: sample_row_def)

lemma sample_world_ok: "world_ok sample_world"
  using tokens_differ by (simp add: world_ok_def sample_world_def sample_api_def tokens_ok_def two_logins_def)

lemma sample_lookup:
  "refresh_lookup sample_libs ''a'' (sample_api two_logins) = Some (refresh_token.truncate (sample_row ''1'' ''f'' ''eve'' ''a'' (Some 0)))"
  by (simp add: refresh_lookup_def sample_api_def GetRefreshToken_def two_logins_def)


text \<open>The other login is refreshed, and its old token marked.\<close>

theorem one_token_per_login_witness:
  "let a = snd (refresh_finish sample_libs (refresh_token.truncate (sample_row ''2'' ''g'' ''eve'' ''b'' None)) second_ns
             (Renew \<lparr>cl_Email = ''eve'', cl_AppRole = ''TREASURER'', cl_IssuedAt = Some 0, cl_ExpiresAt = None\<rparr>) True
             \<lparr>fr_token = Some ''xyz'', fr_family = '''', fr_id = ''3''\<rparr> second_ns (sample_api two_logins)) in
   case ap_store a of None \<Rightarrow> False
   | Some st \<Rightarrow> length (ac_refresh st) = 3 \<and> distinct (map rt_FamilyID (filter (\<lambda>r. rt_ReplacedAt r = None) (ac_refresh st)))"
proof -
  let ?stored = "refresh_token.truncate (sample_row ''2'' ''g'' ''eve'' ''b'' None)"
  let ?v = "Renew \<lparr>cl_Email = ''eve'', cl_AppRole = ''TREASURER'', cl_IssuedAt = Some 0, cl_ExpiresAt = None\<rparr>"
  let ?f = "\<lparr>fr_token = Some ''xyz'', fr_family = '''', fr_id = ''3''\<rparr>"
  let ?a = "snd (refresh_finish sample_libs ?stored second_ns ?v True ?f second_ns (sample_api two_logins))"
  have "world_step sample_libs sample_world (set_api (snd (refresh_finish sample_libs ?stored second_ns ?v True ?f second_ns (wo_api sample_world))) second_ns sample_world)"
    by (rule world_step.finish) (simp add: sample_world_def second_ns_def)
  then have step: "world_steps sample_libs sample_world (set_api ?a second_ns sample_world)"
    by (simp add: sample_world_def r_into_rtranclp)
  have "hashRefreshToken sample_libs ''eHl6'' \<noteq> hashRefreshToken sample_libs ''a''" "hashRefreshToken sample_libs ''eHl6'' \<noteq> hashRefreshToken sample_libs ''b''"
    by (rule sample_hash_differ, code_simp)+
  then obtain st where st: "ap_store ?a = Some st" "length (ac_refresh st) = 3"
    by (auto simp: refresh_finish_def sample_api_def newRefreshToken_def sample_tokens two_logins_def RotateRefreshToken_def
        insert_refresh_def sample_user_def)
  show ?thesis
    using one_token_per_login [OF sample_sane sample_world_ok step, of st] st by (simp add: set_api_def Let_def)
qed

theorem password_change_revokes_witness:
  "case ChangePassword sample_libs (Some \<lparr>cl_Email = ''eve'', cl_AppRole = ''TREASURER'', cl_IssuedAt = Some 0, cl_ExpiresAt = None\<rparr>)
       (Some (Some ''old-secret'', ''new-secret'')) (5 * second_ns) True (sample_api two_logins) of (status, a') \<Rightarrow>
     status = 200
     \<and> \<not> ValidateSession \<lparr>cl_Email = ''eve'', cl_AppRole = ''TREASURER'', cl_IssuedAt = Some 0, cl_ExpiresAt = None\<rparr> a'"
proof -
  let ?c = "\<lparr>cl_Email = ''eve'', cl_AppRole = ''TREASURER'', cl_IssuedAt = Some 0, cl_ExpiresAt = None\<rparr>"
  obtain status a' where change: "ChangePassword sample_libs (Some ?c) (Some (Some ''old-secret'', ''new-secret'')) (5 * second_ns) True
      (sample_api two_logins) = (status, a')" by fastforce
  have "RuneCount ''new-secret'' = 10" by code_simp
  then have "status = 200"
    using change
    by (auto simp: ChangePassword_def sample_api_def sample_config_def two_logins_def checkPasswordPolicy_def minPasswordLength_def
        GetUserByEmail_def scanUser_def live_def sample_user_def ADMIN_def sample_libs_def SetUserPassword_def user.truncate_def)
  then show ?thesis
    using password_change_revokes [OF sample_sane _ _ _ _ _ rtranclp.rtrancl_refl, of "sample_api two_logins" ?c "Some (Some ''old-secret'', ''new-secret'')"
        "5 * second_ns" True a' "\<lparr>wo_api = a', wo_families = [], wo_time = 5 * second_ns\<rparr>" ?c 0 "''b''"] change
    by (simp add: sample_api_def sample_config_def second_ns_def)
qed

end
