(* ===== verification/GoText.thy ===== *)
theory GoText
  imports Wire
begin

text \<open>
  Words and patterns of Go's standard library: \<open>strings.Fields\<close> and \<open>FieldsFunc\<close> on UTF-8 texts, and \<open>regexp\<close>: the
  matches of a pattern at a position in the order of preference of its backtracking semantics, of which the first counts.
\<close>

subsection \<open>Words\<close>

fun words_by :: "(char \<Rightarrow> bool) \<Rightarrow> string \<Rightarrow> string \<Rightarrow> string list" where
  "words_by sep cur [] = (if cur = [] then [] else [cur])"
| "words_by sep cur (c # s) =
     (if sep c then (if cur = [] then words_by sep [] s else cur # words_by sep [] s) else words_by sep (cur @ [c]) s)"

text \<open>\<open>FieldsFunc\<close> with a predicate on ASCII characters: every other rune separates, so each of its bytes may.\<close>

definition FieldsFunc :: "(char \<Rightarrow> bool) \<Rightarrow> string \<Rightarrow> string list" where
  "FieldsFunc sep s = words_by sep [] s"

function fields :: "string \<Rightarrow> string \<Rightarrow> string list" where
  "fields cur s =
     (case s of
        [] \<Rightarrow> if cur = [] then [] else [cur]
      | c # r \<Rightarrow>
          (case find (\<lambda>w. w \<noteq> [] \<and> take (length w) s = w) space_runes of
             None \<Rightarrow> fields (cur @ [c]) r
           | Some w \<Rightarrow> if w = [] then [] else if cur = [] then fields [] (drop (length w) s) else cur # fields [] (drop (length w) s)))"
  by pat_completeness auto
termination
  by (relation "measure (\<lambda>(cur, s). length s)") auto

declare fields.simps [simp del]

definition Fields :: "string \<Rightarrow> string list" where
  "Fields s = fields [] s"

definition join_words :: "string \<Rightarrow> string list \<Rightarrow> string" where
  "join_words sep ws = (case ws of [] \<Rightarrow> [] | w # r \<Rightarrow> w @ concat (map (\<lambda>x. sep @ x) r))"

lemma words_by_chars:
  assumes "w \<in> set (words_by sep cur s)" "list_all (\<lambda>c. \<not> sep c) cur"
  shows "w \<noteq> [] \<and> list_all (\<lambda>c. \<not> sep c) w"
  using assms by (induction sep cur s rule: words_by.induct) (auto split: if_splits)

subsection \<open>Regular expressions\<close>

datatype re =
  RChar "char \<Rightarrow> bool" | RText string | REmpty | RBoundary | RGroup re | RSeq re re | RAlt re re | RStar re

definition word_char :: "char \<Rightarrow> bool" where
  "word_char c \<longleftrightarrow> is_dec c \<or> in_range CHR ''a'' CHR ''z'' c \<or> in_range CHR ''A'' CHR ''Z'' c \<or> c = CHR ''_''"

definition word_at :: "string \<Rightarrow> nat \<Rightarrow> bool" where
  "word_at s i \<longleftrightarrow> i < length s \<and> word_char (s ! i)"

definition boundary :: "string \<Rightarrow> nat \<Rightarrow> bool" where
  "boundary s i \<longleftrightarrow> (0 < i \<and> word_at s (i - 1)) \<noteq> word_at s i"

text \<open>The ends of the matches from a position, with the last group matched.\<close>

function rmatch :: "string \<Rightarrow> re \<Rightarrow> nat \<Rightarrow> (nat \<times> nat) option \<Rightarrow> (nat \<times> (nat \<times> nat) option) list" where
  "rmatch s (RChar P) i g = (if i < length s \<and> P (s ! i) then [(Suc i, g)] else [])"
| "rmatch s (RText t) i g = (if take (length t) (drop i s) = t then [(i + length t, g)] else [])"
| "rmatch s REmpty i g = [(i, g)]"
| "rmatch s RBoundary i g = (if boundary s i then [(i, g)] else [])"
| "rmatch s (RGroup r) i g = map (\<lambda>(j, _). (j, Some (i, j))) (rmatch s r i g)"
| "rmatch s (RSeq a b) i g = concat (map (\<lambda>(j, h). rmatch s b j h) (rmatch s a i g))"
| "rmatch s (RAlt a b) i g = rmatch s a i g @ rmatch s b i g"
| "rmatch s (RStar r) i g =
     concat (map (\<lambda>(j, h). if i < j \<and> i < length s then rmatch s (RStar r) j h else []) (rmatch s r i g)) @ [(i, g)]"
  by pat_completeness auto
termination
  by (relation "measures [\<lambda>(s, r, i, g). size r, \<lambda>(s, r, i, g). length s - i]") auto

definition ROpt :: "re \<Rightarrow> re" where "ROpt r = RAlt r REmpty"

text \<open>Between one and \<open>Suc n\<close> times, as often as possible.\<close>

fun RMany :: "nat \<Rightarrow> re \<Rightarrow> re" where
  "RMany 0 r = r"
| "RMany (Suc n) r = RSeq r (ROpt (RMany n r))"

fun RWord :: "re list \<Rightarrow> re" where
  "RWord [] = REmpty"
| "RWord [r] = r"
| "RWord (r # rs) = RSeq r (RWord rs)"

text \<open>A letter whatever its case; the long s of U+017F is an s.\<close>

definition RLetter :: "char \<Rightarrow> re" where
  "RLetter c = (if c = CHR ''s'' then RAlt (RChar (\<lambda>x. (if in_range CHR ''A'' CHR ''Z'' x then char_of (byte_of x + 32 :: nat) else x) = c)) (RText [CHR 0xC5, CHR 0xBF]) else RChar (\<lambda>x. (if in_range CHR ''A'' CHR ''Z'' x then char_of (byte_of x + 32 :: nat) else x) = c))"

text \<open>The group of every match, from left to right and without overlaps.\<close>

function find_groups :: "string \<Rightarrow> re \<Rightarrow> nat \<Rightarrow> string list" where
  "find_groups s r i =
     (if length s < i then []
      else case rmatch s r i None of
             [] \<Rightarrow> find_groups s r (Suc i)
           | (j, g) # _ \<Rightarrow>
               (case g of None \<Rightarrow> [] | Some (a, b) \<Rightarrow> [take (b - a) (drop a s)]) @ find_groups s r (max (Suc i) j))"
  by pat_completeness auto
termination
  by (relation "measure (\<lambda>(s, r, i). Suc (length s) - i)") auto

declare find_groups.simps [simp del]

end
