(* ===== verification/Reconcile.thy ===== *)
theory Reconcile
  imports GoText GoTime
begin

text \<open>
  Suggestions which fees a bank statement entry pays (\<open>server/internal/reconcile/match.go\<close>). Amounts are cents on
  64 bits, due dates day numbers; \<open>strings.ToLower\<close> and \<open>ToUpper\<close> are parameters.
\<close>

datatype confidence = Certain | Probable | Unclear

definition ReasonEndToEnd :: string where "ReasonEndToEnd = ''END_TO_END_ID''"
definition ReasonMemberNumber :: string where "ReasonMemberNumber = ''MEMBER_NUMBER''"
definition ReasonIBAN :: string where "ReasonIBAN = ''IBAN''"
definition ReasonName :: string where "ReasonName = ''NAME''"
definition ReasonAmount :: string where "ReasonAmount = ''AMOUNT''"
definition ReasonHousehold :: string where "ReasonHousehold = ''HOUSEHOLD''"
definition ReasonPartial :: string where "ReasonPartial = ''PARTIAL''"
definition ReasonOverpaid :: string where "ReasonOverpaid = ''OVERPAID''"

record bank_entry =
  be_AmountCents :: int
  be_Text :: string
  be_Name :: string
  be_IBAN :: string
  be_EndToEndID :: string
  be_Return :: bool

record payer =
  py_ID :: string
  py_Number :: int
  py_FirstName :: string
  py_LastName :: string
  py_AccountHolder :: string
  py_IBAN :: string
  py_HouseholdID :: string

record due_fee =
  df_ID :: string
  df_MemberID :: string
  df_AmountCents :: int
  df_DueDate :: date

record allocation =
  al_FeeID :: string
  al_AmountCents :: int

record suggestion =
  sg_Confidence :: confidence
  sg_Reasons :: "string list"
  sg_Allocations :: "allocation list"
  sg_UnallocatedCents :: int

record case_tables =
  ct_ToLower :: "string \<Rightarrow> string"
  ct_ToUpper :: "string \<Rightarrow> string"

subsection \<open>Text matching\<close>

text \<open>The letters of Latin-1 that are written otherwise; their UTF-8 form is C3 and the byte given here.\<close>

definition transliteration :: "(nat \<times> string) list" where
  "transliteration =
     [(0xA4, ''ae''), (0xB6, ''oe''), (0xBC, ''ue''), (0x9F, ''ss''),
      (0xA1, ''a''), (0xA0, ''a''), (0xA2, ''a''), (0xA5, ''a''), (0xA6, ''ae''), (0xA7, ''c''),
      (0xA9, ''e''), (0xA8, ''e''), (0xAA, ''e''), (0xAB, ''e''), (0xAD, ''i''), (0xAC, ''i''), (0xAE, ''i''), (0xAF, ''i''),
      (0xB1, ''n''), (0xB3, ''o''), (0xB2, ''o''), (0xB4, ''o''), (0xB8, ''oe''), (0xBA, ''u''), (0xB9, ''u''), (0xBB, ''u''), (0xBD, ''y'')]"

fun transliterate :: "string \<Rightarrow> string" where
  "transliterate (c # d # s) =
     (case (if c = CHR 0xC3 then map_of transliteration (byte_of d) else None) of
        None \<Rightarrow> c # transliterate (d # s)
      | Some t \<Rightarrow> t @ transliterate s)"
| "transliterate s = s"

definition word_letter :: "char \<Rightarrow> bool" where
  "word_letter c \<longleftrightarrow> in_range CHR ''a'' CHR ''z'' c \<or> in_range CHR ''0'' CHR ''9'' c"

definition normalize :: "case_tables \<Rightarrow> string \<Rightarrow> string" where
  "normalize T s = join_words '' '' (FieldsFunc (\<lambda>c. \<not> word_letter c) (transliterate (ct_ToLower T s)))"

definition normalizeIBAN :: "case_tables \<Rightarrow> string \<Rightarrow> string" where
  "normalizeIBAN T s = ct_ToUpper T (join_words '''' (Fields s))"

definition compactID :: "case_tables \<Rightarrow> string \<Rightarrow> string" where
  "compactID T s = ct_ToLower T (filter (\<lambda>c. c \<noteq> CHR ''-'') (TrimSpace s))"

text \<open>The loop of \<open>withinOneEdit\<close> on what is left of the two words; \<open>same\<close>: they had equal lengths at the start.\<close>

fun edit_loop :: "bool \<Rightarrow> string \<Rightarrow> string \<Rightarrow> nat \<Rightarrow> bool" where
  "edit_loop same (a # as) (b # bs) edits =
     (if a = b then edit_loop same as bs edits
      else if edits + 1 > 1 then False
      else if same then edit_loop same as bs (edits + 1)
      else edit_loop same as (b # bs) (edits + 1))"
| "edit_loop same as bs edits \<longleftrightarrow> edits + length as \<le> 1"

definition withinOneEdit :: "string \<Rightarrow> string \<Rightarrow> bool" where
  "withinOneEdit a b =
     (let (x, y) = (if length a < length b then (b, a) else (a, b)) in
      if length x - length y > 1 then False else edit_loop (length x = length y) x y 0)"

definition similar :: "string \<Rightarrow> string \<Rightarrow> bool" where
  "similar a b = (if a = b then True else if length a < 5 \<or> length b < 5 then False else withinOneEdit a b)"

definition containsAny :: "string list \<Rightarrow> string list \<Rightarrow> bool" where
  "containsAny ws want \<longleftrightarrow> list_ex (\<lambda>w. list_ex (\<lambda>x. similar x w) ws) want"

definition containsAll :: "string list \<Rightarrow> string list \<Rightarrow> bool" where
  "containsAll ws want \<longleftrightarrow> list_all (\<lambda>w. containsAny ws [w]) want"

datatype name_hit = NoName | LastName | FullName

definition nameMatch :: "case_tables \<Rightarrow> payer \<Rightarrow> string \<Rightarrow> name_hit" where
  "nameMatch T m text =
     (let ws = Fields text; holder = normalize T (py_AccountHolder m) in
      if holder \<noteq> '''' \<and> containsAll ws (Fields holder) then FullName
      else (let family = Fields (normalize T (py_LastName m)) in
            if family = [] \<or> \<not> containsAll ws family then NoName
            else (let given = Fields (normalize T (py_FirstName m)) in
                  if given \<noteq> [] \<and> containsAny ws (take 1 given) then FullName else LastName)))"

text \<open>The two patterns of \<open>memberNumbers\<close>.\<close>

definition RSpaces :: re where
  "RSpaces = RStar (RChar (\<lambda>c. c \<in> set [CHR 0x09, CHR 0x0A, CHR 0x0C, CHR 0x0D, CHR '' '']))"

definition RNumber :: re where
  "RNumber = RWord [RStar (RChar (\<lambda>c. c = CHR ''0'')), RGroup (RMany 8 (RChar is_dec)), RBoundary]"

definition RKeyword :: "string \<Rightarrow> re" where
  "RKeyword s = RWord (map RLetter s)"

definition numberAfterKeyword :: re where
  "numberAfterKeyword =
     RWord [RAlt
       (RSeq RBoundary
          (RAlt (RWord [RKeyword ''mitglied'', ROpt (RLetter CHR ''s''), ROpt (RAlt (RKeyword ''nummer'') (RKeyword ''nr''))])
          (RAlt (RKeyword ''mitgl'') (RAlt (RKeyword ''member'') (RAlt (RKeyword ''mnr'') (RAlt (RKeyword ''nr'') (RKeyword ''no'')))))))
       (RChar (\<lambda>c. c = CHR ''#'')),
       RSpaces, RStar (RChar (\<lambda>c. c \<in> set ''.:-'')), RSpaces,
       ROpt (RWord [RKeyword ''nr'', ROpt (RChar (\<lambda>c. c = CHR ''.'')), RSpaces]), RNumber]"

definition anyNumber :: re where
  "anyNumber = RSeq RBoundary RNumber"

definition number_of :: "string \<Rightarrow> int" where
  "number_of ds = foldl (\<lambda>n c. 10 * n + int (byte_of c) - 48) 0 ds"

definition memberNumbers :: "string \<Rightarrow> int list" where
  "memberNumbers text =
     map number_of (find_groups text numberAfterKeyword 0)
     @ filter (\<lambda>n. n < 1900 \<or> n > 2100) (map number_of (filter (\<lambda>d. \<not> length d < 4) (find_groups text anyNumber 0)))"

subsection \<open>Matching\<close>

definition cents_sum :: "due_fee list \<Rightarrow> int" where
  "cents_sum fs = foldl (\<lambda>t f. i64 (t + df_AmountCents f)) 0 fs"

text \<open>Stable, by due date, for returns the newest first.\<close>

definition sortFees :: "bool \<Rightarrow> due_fee list \<Rightarrow> due_fee list" where
  "sortFees newestFirst fs = sort_key (\<lambda>f. if newestFirst then - df_DueDate f else df_DueDate f) fs"

definition feesOf :: "bank_entry \<Rightarrow> due_fee list \<Rightarrow> string \<Rightarrow> due_fee list" where
  "feesOf e fs i = sortFees (be_Return e) (filter (\<lambda>f. df_AmountCents f > 0 \<and> df_MemberID f = i) fs)"

definition feesFor :: "payer list \<Rightarrow> (string \<Rightarrow> due_fee list) \<Rightarrow> due_fee list" where
  "feesFor ms fees_of = concat (map (\<lambda>m. fees_of (py_ID m)) ms)"

fun allocate_loop :: "int \<Rightarrow> due_fee list \<Rightarrow> allocation list \<times> int" where
  "allocate_loop left [] = ([], left)"
| "allocate_loop left (f # fs) =
     (if left = 0 then ([], left)
      else (let amount = min left (df_AmountCents f);
                (as, rest) = allocate_loop (i64 (left - amount)) fs
            in (\<lparr>al_FeeID = df_ID f, al_AmountCents = amount\<rparr> # as, rest)))"

definition allocate :: "bank_entry \<Rightarrow> due_fee list \<Rightarrow> confidence \<Rightarrow> string list \<Rightarrow> suggestion option" where
  "allocate e fs c reasons =
     (let (as, left) = allocate_loop (be_AmountCents e) fs in
      if as = [] then None
      else Some \<lparr>sg_Confidence = c,
             sg_Reasons = reasons @ (if left > 0 then [ReasonOverpaid]
               else if \<not> be_Return e \<and> cents_sum fs > be_AmountCents e then [ReasonPartial] else []),
             sg_Allocations = as, sg_UnallocatedCents = left\<rparr>)"

definition exactAmount :: "bank_entry \<Rightarrow> payer list \<Rightarrow> payer list \<Rightarrow> (string \<Rightarrow> due_fee list) \<Rightarrow> confidence \<Rightarrow> string list
    \<Rightarrow> suggestion option" where
  "exactAmount e grp all fees_of c reasons =
     (let withAmount = reasons @ [ReasonAmount];
          single = filter (\<lambda>f. df_AmountCents f = be_AmountCents e) (feesFor grp fees_of) in
      if single \<noteq> [] then allocate e (take 1 (sortFees (be_Return e) single)) c withAmount
      else (let own = feesFor grp fees_of in
            if cents_sum own = be_AmountCents e then allocate e own c withAmount
            else (let households = filter (\<lambda>h. h \<noteq> '''') (map py_HouseholdID grp) in
                  if households = [] then None
                  else (let family = filter (\<lambda>m. py_HouseholdID m \<in> set households) all; fam = feesFor family fees_of in
                        if length family > length grp \<and> cents_sum fam = be_AmountCents e
                        then allocate e fam c (withAmount @ [ReasonHousehold]) else None))))"

definition sameHousehold :: "payer list \<Rightarrow> (string \<Rightarrow> payer) \<Rightarrow> bool" where
  "sameHousehold grp byID =
     (if length grp = 1 then True
      else (let h = py_HouseholdID (byID (py_ID (hd grp))) in list_all (\<lambda>m. \<not> (h = '''' \<or> py_HouseholdID m \<noteq> h)) grp))"

definition zero_payer :: payer where
  "zero_payer = \<lparr>py_ID = '''', py_Number = 0, py_FirstName = '''', py_LastName = '''', py_AccountHolder = '''', py_IBAN = '''', py_HouseholdID = ''''\<rparr>"

text \<open>The strong hits of a member: its number in the text, its account.\<close>

definition strong_reasons :: "case_tables \<Rightarrow> bank_entry \<Rightarrow> payer \<Rightarrow> string list" where
  "strong_reasons T e m =
     (let iban = normalizeIBAN T (be_IBAN e) in
      (if iban \<noteq> '''' \<and> normalizeIBAN T (py_IBAN m) = iban then [ReasonIBAN] else [])
      @ (if py_Number m \<in> set (memberNumbers (be_Text e)) then [ReasonMemberNumber] else []))"

text \<open>The first group of names that has fees of exactly this amount, in one household.\<close>

fun try_groups :: "bank_entry \<Rightarrow> payer list \<Rightarrow> (string \<Rightarrow> due_fee list) \<Rightarrow> (string \<Rightarrow> payer) \<Rightarrow> payer list list \<Rightarrow> suggestion option" where
  "try_groups e all fees_of byID [] = None"
| "try_groups e all fees_of byID (grp # grps) =
     (if grp = [] then try_groups e all fees_of byID grps
      else case exactAmount e grp all fees_of Probable [ReasonName] of
             None \<Rightarrow> try_groups e all fees_of byID grps
           | Some s \<Rightarrow> if sameHousehold grp byID then Some s else try_groups e all fees_of byID grps)"

definition Match :: "case_tables \<Rightarrow> bank_entry \<Rightarrow> payer list \<Rightarrow> due_fee list \<Rightarrow> suggestion option" where
  "Match T e members fs =
     (if be_AmountCents e \<le> 0 then None
      else (let fees_of = feesOf e fs;
                candidates = filter (\<lambda>m. length (fees_of (py_ID m)) > 0) members;
                byID = (\<lambda>i. case find (\<lambda>m. py_ID m = i) (rev candidates) of None \<Rightarrow> zero_payer | Some m \<Rightarrow> m);
                returned = (if be_Return e \<and> be_EndToEndID e \<noteq> ''''
                            then find (\<lambda>f. compactID T (df_ID f) = compactID T (be_EndToEndID e)) fs else None) in
            case returned of
              Some f \<Rightarrow> allocate e [f] Certain [ReasonEndToEnd]
            | None \<Rightarrow>
                (let text = normalize T (be_Text e); name = normalize T (be_Name e);
                     strong = filter (\<lambda>m. strong_reasons T e m \<noteq> []) candidates;
                     rest = filter (\<lambda>m. strong_reasons T e m = []) candidates;
                     named = filter (\<lambda>m. nameMatch T m (text @ '' '' @ name) = FullName) rest;
                     surnamed = filter (\<lambda>m. nameMatch T m (text @ '' '' @ name) = LastName) rest in
                 if strong \<noteq> [] then
                   (let reasons = sort (remdups (concat (map (strong_reasons T e) strong))) in
                    case exactAmount e strong candidates fees_of Certain reasons of
                      Some s \<Rightarrow> Some s
                    | None \<Rightarrow> allocate e (feesFor strong fees_of) Probable reasons)
                 else case try_groups e candidates fees_of byID [named, surnamed] of
                        Some s \<Rightarrow> Some s
                      | None \<Rightarrow> if named \<noteq> [] then allocate e (feesFor named fees_of) Unclear [ReasonName] else None)))"

subsection \<open>One edit\<close>

text \<open>The reference: two words are at most one letter apart.\<close>

inductive one_edit :: "string \<Rightarrow> string \<Rightarrow> bool" where
  equal: "one_edit s s"
| replaced: "one_edit (p @ c # s) (p @ d # s)"
| added: "one_edit (p @ s) (p @ d # s)"
| removed: "one_edit (p @ c # s) (p @ s)"

definition dropped :: "string \<Rightarrow> string \<Rightarrow> bool" where
  "dropped a b \<longleftrightarrow> (\<exists>p c s. a = p @ c # s \<and> b = p @ s)"

definition swapped :: "string \<Rightarrow> string \<Rightarrow> bool" where
  "swapped a b \<longleftrightarrow> (\<exists>p c d s. a = p @ c # s \<and> b = p @ d # s)"

lemma droppedI: "dropped (p @ c # s) (p @ s)" and swappedI: "swapped (p @ c # s) (p @ d # s)"
  unfolding dropped_def swapped_def by blast+

lemma dropped_Cons: "dropped (a # as) (b # bs) \<longleftrightarrow> a = b \<and> dropped as bs \<or> as = b # bs"
proof
  assume "dropped (a # as) (b # bs)"
  then obtain p c s where p: "a # as = p @ c # s" "b # bs = p @ s" unfolding dropped_def by blast
  then show "a = b \<and> dropped as bs \<or> as = b # bs" by (cases p) (auto simp: dropped_def)
next
  assume "a = b \<and> dropped as bs \<or> as = b # bs"
  then show "dropped (a # as) (b # bs)"
  proof
    assume "a = b \<and> dropped as bs"
    then obtain p c s where "a = b" "as = p @ c # s" "bs = p @ s" unfolding dropped_def by blast
    then show ?thesis using droppedI [of "a # p" c s] by simp
  next
    assume "as = b # bs"
    then show ?thesis using droppedI [of "[]" a "b # bs"] by simp
  qed
qed

lemma swapped_Cons: "swapped (a # as) (b # bs) \<longleftrightarrow> a = b \<and> swapped as bs \<or> as = bs"
proof
  assume "swapped (a # as) (b # bs)"
  then obtain p c d s where p: "a # as = p @ c # s" "b # bs = p @ d # s" unfolding swapped_def by blast
  then show "a = b \<and> swapped as bs \<or> as = bs" by (cases p) (auto simp: swapped_def)
next
  assume "a = b \<and> swapped as bs \<or> as = bs"
  then show "swapped (a # as) (b # bs)"
  proof
    assume "a = b \<and> swapped as bs"
    then obtain p c d s where "a = b" "as = p @ c # s" "bs = p @ d # s" unfolding swapped_def by blast
    then show ?thesis using swappedI [of "a # p" c s d] by simp
  next
    assume "as = bs"
    then show ?thesis using swappedI [of "[]" a bs b] by simp
  qed
qed

lemma edit_loop_used: "length as = length bs \<Longrightarrow> edit_loop same as bs 1 \<longleftrightarrow> as = bs"
  by (induction as bs rule: list_induct2) simp_all

lemma edit_loop_same: "length as = length bs \<Longrightarrow> edit_loop True as bs 0 \<longleftrightarrow> as = bs \<or> swapped as bs"
proof (induction as bs rule: list_induct2)
  case (Cons a as b bs)
  then show ?case using edit_loop_used [of as bs True] by (auto simp: swapped_Cons)
qed (simp add: swapped_def)

lemma edit_loop_dropped: "length as = Suc (length bs) \<Longrightarrow> edit_loop False as bs 0 \<longleftrightarrow> dropped as bs"
proof (induction bs arbitrary: as)
  case Nil
  then obtain a where "as = [a]" by (auto simp: length_Suc_conv)
  then show ?case by (auto simp: dropped_def intro!: exI [of _ "[]"])
next
  case (Cons b bs)
  then obtain a as' where as: "as = a # as'" "length as' = Suc (length bs)" by (auto simp: length_Suc_conv)
  have first: "dropped (x # s) s" for x s using droppedI [of "[]" x s] by simp
  show ?case
  proof (cases "a = b")
    case True
    then show ?thesis using as Cons.IH [of as'] dropped_Cons [of a as' b bs] first by auto
  next
    case False
    then show ?thesis using as edit_loop_used [of as' "b # bs" False] dropped_Cons [of a as' b bs] by simp
  qed
qed

lemma one_edit_iff: "one_edit a b \<longleftrightarrow> a = b \<or> swapped a b \<or> dropped a b \<or> dropped b a"
proof
  assume "one_edit a b"
  then show "a = b \<or> swapped a b \<or> dropped a b \<or> dropped b a"
    by cases (auto intro: swappedI droppedI)
qed (auto simp: swapped_def dropped_def intro: one_edit.intros)

lemma one_edit_length: "one_edit a b \<Longrightarrow> length a \<le> Suc (length b) \<and> length b \<le> Suc (length a)"
  by (induction rule: one_edit.induct) simp_all

lemma dropped_length: "dropped a b \<Longrightarrow> length a = Suc (length b)" "swapped a b \<Longrightarrow> length a = length b"
  by (auto simp: dropped_def swapped_def)

text \<open>
  C21. The single pass of \<open>withinOneEdit\<close> decides exactly whether two words are at most one letter apart: equal, or one
  letter replaced, added or left out.
\<close>

theorem withinOneEdit_exact: "withinOneEdit a b \<longleftrightarrow> one_edit a b"
proof (cases "length a = length b")
  case True
  then show ?thesis
    using edit_loop_same [of a b] dropped_length [of a b] dropped_length [of b a] by (auto simp: withinOneEdit_def one_edit_iff)
next
  case False
  have main: "(if length x - length y > 1 then False else edit_loop (length x = length y) x y 0) \<longleftrightarrow> dropped x y"
    if "length y < length x" for x y
    using edit_loop_dropped [of x y] dropped_length [of x y] that by auto
  show ?thesis
  proof (cases "length a < length b")
    case True
    then show ?thesis using main [of a b] dropped_length [of a b] dropped_length(2) [of a b] by (auto simp: withinOneEdit_def one_edit_iff)
  next
    case False
    then have "length b < length a" using \<open>length a \<noteq> length b\<close> by simp
    then show ?thesis using main [of b a] dropped_length [of b a] dropped_length(2) [of a b] by (auto simp: withinOneEdit_def one_edit_iff)
  qed
qed

subsection \<open>Allocations\<close>

text \<open>The fees of a database: ids are unique, amounts positive, and their total fits into 64 bits.\<close>

definition fees_ok :: "due_fee list \<Rightarrow> bool" where
  "fees_ok fs \<longleftrightarrow> distinct (map df_ID fs) \<and> list_all (\<lambda>f. df_AmountCents f > 0) fs
     \<and> sum_list (map df_AmountCents fs) < 2 ^ 63"

definition picked :: "due_fee list \<Rightarrow> due_fee list \<Rightarrow> bool" where
  "picked fs gs \<longleftrightarrow> set gs \<subseteq> set fs \<and> distinct (map df_ID gs)"

lemma picked_sum:
  assumes "fees_ok fs" "picked fs gs"
  shows "sum_list (map df_AmountCents gs) \<le> sum_list (map df_AmountCents fs)"
proof -
  have d: "distinct gs" "distinct fs" using assms by (auto simp: fees_ok_def picked_def distinct_map)
  have "sum df_AmountCents (set gs) \<le> sum df_AmountCents (set fs)"
    using assms by (intro sum_mono2) (auto simp: fees_ok_def picked_def list_all_iff intro: order.strict_implies_order)
  then show ?thesis using d by (simp add: sum_list_distinct_conv_sum_set)
qed

lemma cents_sum_picked:
  assumes "fees_ok fs" "picked fs gs"
  shows "cents_sum gs = sum_list (map df_AmountCents gs)"
proof -
  have "foldl (\<lambda>t f. i64 (t + df_AmountCents f)) x gs = x + sum_list (map df_AmountCents gs)"
    if "0 \<le> x" "x + sum_list (map df_AmountCents gs) < 2 ^ 63" "list_all (\<lambda>f. df_AmountCents f > 0) gs" for x gs
    using that
  proof (induction gs arbitrary: x)
    case (Cons f gs)
    have "0 \<le> sum_list (map df_AmountCents gs)" using Cons.prems(3) by (intro sum_list_nonneg) (auto simp: list_all_iff)
    then have "i64 (x + df_AmountCents f) = x + df_AmountCents f" using Cons.prems by (intro i64_id) auto
    then show ?case using Cons.IH [of "x + df_AmountCents f"] Cons.prems by (simp add: add.assoc)
  qed simp
  from this [of 0 gs] show ?thesis
    using assms picked_sum [OF assms] by (auto simp: cents_sum_def fees_ok_def picked_def list_all_iff)
qed

lemma allocate_loop_all:
  "allocate_loop left fs = (as, rest) \<Longrightarrow> 0 \<le> left \<Longrightarrow> left < 2 ^ 63 \<Longrightarrow> list_all (\<lambda>f. df_AmountCents f > 0) fs \<Longrightarrow>
     (sum_list (map al_AmountCents as) + rest = left \<and> 0 \<le> rest)
     \<and> list_all2 (\<lambda>a f. al_FeeID a = df_ID f \<and> 0 < al_AmountCents a \<and> al_AmountCents a \<le> df_AmountCents f) as (take (length as) fs)
     \<and> (sum_list (map df_AmountCents fs) = left \<longrightarrow>
         rest = 0 \<and> list_all2 (\<lambda>a f. al_FeeID a = df_ID f \<and> al_AmountCents a = df_AmountCents f) as fs)"
proof (induction left fs arbitrary: as rest rule: allocate_loop.induct)
  case (2 left f fs)
  define amount where "amount = min left (df_AmountCents f)"
  have pos: "0 < df_AmountCents f" "list_all (\<lambda>f. df_AmountCents f > 0) fs" using 2(5) by simp_all
  then have nonneg: "0 \<le> sum_list (map df_AmountCents fs)" by (intro sum_list_nonneg) (auto simp: list_all_iff)
  show ?case
  proof (cases "left = 0")
    case True
    then show ?thesis using 2(2) pos(1) nonneg by auto
  next
    case False
    have amount: "0 < amount" "amount \<le> df_AmountCents f" "0 \<le> left - amount" "left - amount < 2 ^ 63"
      using 2(3,4) False pos(1) by (auto simp: amount_def)
    have wrap: "i64 (left - amount) = left - amount" using amount by (intro i64_id) auto
    obtain bs where bs: "allocate_loop (i64 (left - amount)) fs = (bs, rest)"
        and as: "as = \<lparr>al_FeeID = df_ID f, al_AmountCents = amount\<rparr> # bs"
      using 2(2) False unfolding amount_def by (auto simp: Let_def split: prod.splits)
    note IH = 2(1) [OF False refl, folded amount_def, OF bs, unfolded wrap, OF amount(3,4) pos(2)]
    have "amount = df_AmountCents f" if "df_AmountCents f + sum_list (map df_AmountCents fs) = left"
      using that nonneg by (auto simp: amount_def)
    then show ?thesis using IH amount unfolding as by auto
  qed
qed simp_all

lemmas allocate_loop_spec = allocate_loop_all [THEN conjunct1] allocate_loop_all [THEN conjunct2, THEN conjunct1]
  allocate_loop_all [THEN conjunct2, THEN conjunct2, rule_format]

text \<open>What an allocation of an entry to some fees promises.\<close>

definition covers :: "bank_entry \<Rightarrow> due_fee list \<Rightarrow> suggestion \<Rightarrow> bool" where
  "covers e fs s \<longleftrightarrow>
     sum_list (map al_AmountCents (sg_Allocations s)) + sg_UnallocatedCents s = be_AmountCents e \<and> 0 \<le> sg_UnallocatedCents s
     \<and> distinct (map al_FeeID (sg_Allocations s))
     \<and> list_all (\<lambda>a. list_ex (\<lambda>f. df_ID f = al_FeeID a \<and> 0 < al_AmountCents a \<and> al_AmountCents a \<le> df_AmountCents f) fs) (sg_Allocations s)"

definition pays_exactly :: "due_fee list \<Rightarrow> suggestion \<Rightarrow> bool" where
  "pays_exactly gs s \<longleftrightarrow> sg_UnallocatedCents s = 0 \<and> map al_FeeID (sg_Allocations s) = map df_ID gs
     \<and> map al_AmountCents (sg_Allocations s) = map df_AmountCents gs"

lemma list_all2_pick: "list_all2 P xs ys \<Longrightarrow> x \<in> set xs \<Longrightarrow> \<exists>y \<in> set ys. P x y"
  by (induction rule: list_all2_induct) auto

lemma allocate_covers:
  assumes "allocate e gs c rs = Some s" "0 < be_AmountCents e" "fees_ok fs" "picked fs gs" "be_AmountCents e < 2 ^ 63"
  shows "covers e fs s" "sg_Confidence s = c" "cents_sum gs = be_AmountCents e \<Longrightarrow> pays_exactly gs s"
proof -
  obtain as left where loop: "allocate_loop (be_AmountCents e) gs = (as, left)"
      and s: "sg_Allocations s = as" "sg_UnallocatedCents s = left" "sg_Confidence s = c"
    using assms(1) by (auto simp: allocate_def split: prod.splits if_splits)
  have pos: "list_all (\<lambda>f. df_AmountCents f > 0) gs" using assms(3,4) by (auto simp: fees_ok_def picked_def list_all_iff)
  note spec = allocate_loop_spec [OF loop less_imp_le [OF assms(2)] assms(5) pos]
  let ?gs = "take (length as) gs"
  have ids: "map al_FeeID as = map df_ID ?gs" using spec(2) by (auto simp: list_all2_conv_all_nth intro: nth_equalityI)
  then have "distinct (map al_FeeID as)" using assms(4) by (simp add: picked_def distinct_take flip: take_map)
  moreover have "\<exists>f \<in> set fs. df_ID f = al_FeeID a \<and> 0 < al_AmountCents a \<and> al_AmountCents a \<le> df_AmountCents f"
    if a: "a \<in> set as" for a
  proof -
    have "\<exists>f \<in> set ?gs. al_FeeID a = df_ID f \<and> 0 < al_AmountCents a \<and> al_AmountCents a \<le> df_AmountCents f"
      by (rule list_all2_pick [OF spec(2) a])
    then obtain f where f: "f \<in> set ?gs" "al_FeeID a = df_ID f" "0 < al_AmountCents a" "al_AmountCents a \<le> df_AmountCents f"
      by blast
    have "f \<in> set fs" using in_set_takeD [OF f(1)] assms(4) by (auto simp: picked_def)
    then show ?thesis using f by auto
  qed
  ultimately show "covers e fs s" using spec(1) s by (simp add: covers_def list_all_iff list_ex_iff)
  show "sg_Confidence s = c" by (rule s(3))
  assume "cents_sum gs = be_AmountCents e"
  then have "left = 0 \<and> list_all2 (\<lambda>a f. al_FeeID a = df_ID f \<and> al_AmountCents a = df_AmountCents f) as gs"
    using spec(3) cents_sum_picked [OF assms(3,4)] by simp
  then show "pays_exactly gs s" using s by (auto simp: pays_exactly_def list_all2_conv_all_nth intro: nth_equalityI)
qed

lemma feesOf_set: "set (feesOf e fs i) = {f \<in> set fs. df_AmountCents f > 0 \<and> df_MemberID f = i}"
  by (auto simp: feesOf_def sortFees_def)

lemma feesFor_set: "set (feesFor ms (feesOf e fs)) = {f \<in> set fs. df_AmountCents f > 0 \<and> df_MemberID f \<in> py_ID ` set ms}"
  by (auto simp: feesFor_def feesOf_set)

lemma distinct_sort_map: "distinct (map g (sort_key f xs)) \<longleftrightarrow> distinct (map g xs)"
  by (simp add: distinct_map)

lemma feesFor_picked:
  assumes "fees_ok fs" "distinct (map py_ID ms)"
  shows "picked fs (feesFor ms (feesOf e fs))"
proof -
  have own: "distinct (map df_ID (feesOf e fs i))" for i
    using assms(1) by (simp add: feesOf_def sortFees_def distinct_sort_map fees_ok_def distinct_map_filter)
  have "distinct (map df_ID (feesFor ms (feesOf e fs)))"
    using assms(2)
  proof (induction ms)
    case (Cons m ms)
    have "df_ID f \<noteq> df_ID g" if "f \<in> set (feesOf e fs (py_ID m))" "g \<in> set (feesFor ms (feesOf e fs))" for f g
    proof -
      have "f \<in> set fs" "g \<in> set fs" "df_MemberID f \<noteq> df_MemberID g"
        using that Cons.prems by (auto simp: feesOf_set feesFor_set)
      then show ?thesis using assms(1) unfolding fees_ok_def distinct_map inj_on_def by blast
    qed
    then show ?case using Cons own by (auto simp: feesFor_def)
  qed (simp add: feesFor_def)
  then show ?thesis by (auto simp: picked_def feesFor_set)
qed

lemma picked_single: "f \<in> set fs \<Longrightarrow> picked fs [f]"
  by (simp add: picked_def)

text \<open>What \<open>exactAmount\<close> finds are fees of the group or of its households that together make the amount.\<close>

lemma exactAmount_picks:
  assumes "exactAmount e grp all (feesOf e fs) c rs = Some s" "0 < be_AmountCents e" "be_AmountCents e < 2 ^ 63"
    and "fees_ok fs" "distinct (map py_ID grp)" "distinct (map py_ID all)"
  obtains gs rs' where "allocate e gs c rs' = Some s" "picked fs gs" "cents_sum gs = be_AmountCents e"
    "list_all (\<lambda>f. df_MemberID f \<in> py_ID ` set grp
       \<or> (\<exists>m \<in> set grp. \<exists>m' \<in> set all. py_HouseholdID m \<noteq> '''' \<and> py_HouseholdID m' = py_HouseholdID m \<and> df_MemberID f = py_ID m')) gs"
proof -
  define own where "own = feesFor grp (feesOf e fs)"
  define single where "single = filter (\<lambda>f. df_AmountCents f = be_AmountCents e) own"
  have own: "picked fs own" "list_all (\<lambda>f. df_MemberID f \<in> py_ID ` set grp) own"
    using feesFor_picked [OF assms(4,5)] by (auto simp: own_def feesFor_set list_all_iff)
  show thesis
  proof (cases "single = []")
    case False
    then obtain f r where f: "sortFees (be_Return e) single = f # r" 
      by (metis list.exhaust set_empty set_sort sortFees_def)
    have "f \<in> set single" using f by (metis list.set_intros(1) set_sort sortFees_def)
    then have "f \<in> set own" "df_AmountCents f = be_AmountCents e" by (auto simp: single_def)
    moreover have "allocate e [f] c (rs @ [ReasonAmount]) = Some s"
      using assms(1) False f by (simp add: exactAmount_def own_def [symmetric] single_def [symmetric])
    ultimately show thesis
      using that [of "[f]" "rs @ [ReasonAmount]"] own assms(2,3)
      by (auto simp: picked_def cents_sum_def list_all_iff i64_id)
  next
    case True
    show thesis
    proof (cases "cents_sum own = be_AmountCents e")
      case sum: True
      then have "allocate e own c (rs @ [ReasonAmount]) = Some s"
        using assms(1) True by (simp add: exactAmount_def own_def [symmetric] single_def [symmetric])
      then show thesis using that own sum by (auto simp: list_all_iff)
    next
      case False
      define hs where "hs = filter (\<lambda>h. h \<noteq> '''') (map py_HouseholdID grp)"
      define family where "family = filter (\<lambda>m. py_HouseholdID m \<in> set hs) all"
      have fam: "cents_sum (feesFor family (feesOf e fs)) = be_AmountCents e"
          "allocate e (feesFor family (feesOf e fs)) c (rs @ [ReasonAmount] @ [ReasonHousehold]) = Some s"
        using assms(1) True False
        by (auto simp: exactAmount_def own_def [symmetric] single_def [symmetric] hs_def [symmetric] family_def [symmetric] Let_def split: if_splits)
      have "picked fs (feesFor family (feesOf e fs))"
        using assms(6) by (intro feesFor_picked [OF assms(4)]) (simp add: family_def distinct_map_filter)
      moreover have "list_all (\<lambda>f. \<exists>m \<in> set grp. \<exists>m' \<in> set all. py_HouseholdID m \<noteq> '''' \<and> py_HouseholdID m' = py_HouseholdID m
          \<and> df_MemberID f = py_ID m') (feesFor family (feesOf e fs))"
        by (fastforce simp: list_all_iff feesFor_set family_def hs_def)
      ultimately show thesis using that [OF fam(2) _ fam(1)] by (auto simp: list_all_iff)
    qed
  qed
qed

lemma try_groups_Some:
  assumes "try_groups e all fees_of byID grps = Some s"
  obtains grp where "grp \<in> set grps" "exactAmount e grp all fees_of Probable [ReasonName] = Some s" "sameHousehold grp byID"
proof -
  have "\<exists>grp \<in> set grps. exactAmount e grp all fees_of Probable [ReasonName] = Some s \<and> sameHousehold grp byID"
    using assms by (induction grps) (auto split: if_splits option.splits)
  then show thesis using that by blast
qed

text \<open>The five ways a suggestion comes about; \<open>cands\<close> are the members with fees.\<close>

lemma find_SomeD: "find P xs = Some x \<Longrightarrow> x \<in> set xs \<and> P x"
  by (auto simp: find_Some_iff)

lemma Match_cases:
  assumes "Match T e members fs = Some s"
  obtains (end_to_end) f where "be_Return e" "f \<in> set fs" "compactID T (df_ID f) = compactID T (be_EndToEndID e)"
      "allocate e [f] Certain [ReasonEndToEnd] = Some s" "0 < be_AmountCents e"
    | (exact) strong cands reasons where "0 < be_AmountCents e" "cands = filter (\<lambda>m. length (feesOf e fs (py_ID m)) > 0) members"
      "strong = filter (\<lambda>m. strong_reasons T e m \<noteq> []) cands" "exactAmount e strong cands (feesOf e fs) Certain reasons = Some s"
    | (inexact) P c reasons where "0 < be_AmountCents e" "c \<noteq> Certain" "allocate e (feesFor (filter P members) (feesOf e fs)) c reasons = Some s"
    | (names) P cands where "0 < be_AmountCents e" "cands = filter (\<lambda>m. length (feesOf e fs (py_ID m)) > 0) members"
      "exactAmount e (filter P members) cands (feesOf e fs) Probable [ReasonName] = Some s"
proof -
  define cands where "cands = filter (\<lambda>m. length (feesOf e fs (py_ID m)) > 0) members"
  define returned where "returned = (if be_Return e \<and> be_EndToEndID e \<noteq> ''''
    then find (\<lambda>f. compactID T (df_ID f) = compactID T (be_EndToEndID e)) fs else None)"
  define remittance where "remittance = normalize T (be_Text e) @ '' '' @ normalize T (be_Name e)"
  define strong where "strong = filter (\<lambda>m. strong_reasons T e m \<noteq> []) cands"
  define rest where "rest = filter (\<lambda>m. strong_reasons T e m = []) cands"
  define named where "named = filter (\<lambda>m. nameMatch T m remittance = FullName) rest"
  define surnamed where "surnamed = filter (\<lambda>m. nameMatch T m remittance = LastName) rest"
  define byID where "byID = (\<lambda>i. case find (\<lambda>m. py_ID m = i) (rev cands) of None \<Rightarrow> zero_payer | Some m \<Rightarrow> m)"
  have pos: "0 < be_AmountCents e" using assms by (auto simp: Match_def split: if_splits)
  have m: "(case returned of
      Some f \<Rightarrow> allocate e [f] Certain [ReasonEndToEnd]
    | None \<Rightarrow>
        (if strong \<noteq> [] then
           (let reasons = sort (remdups (concat (map (strong_reasons T e) strong))) in
            case exactAmount e strong cands (feesOf e fs) Certain reasons of
              Some s \<Rightarrow> Some s
            | None \<Rightarrow> allocate e (feesFor strong (feesOf e fs)) Probable reasons)
         else case try_groups e cands (feesOf e fs) byID [named, surnamed] of
                Some s \<Rightarrow> Some s
              | None \<Rightarrow> if named \<noteq> [] then allocate e (feesFor named (feesOf e fs)) Unclear [ReasonName] else None)) = Some s"
    using assms pos unfolding surnamed_def named_def rest_def strong_def byID_def returned_def remittance_def cands_def Match_def Let_def
    by simp
  have subs: "\<exists>P. strong = filter P members" "\<exists>P. named = filter P members" "\<exists>P. surnamed = filter P members"
    by (auto simp: strong_def named_def surnamed_def rest_def cands_def)
  show thesis
  proof (cases returned)
    case (Some f)
    then have f: "be_Return e" "find (\<lambda>f. compactID T (df_ID f) = compactID T (be_EndToEndID e)) fs = Some f"
      by (auto simp: returned_def split: if_splits)
    show thesis by (rule end_to_end [OF f(1)]) (use m Some pos find_SomeD [OF f(2)] in auto)
  next
    case None
    show thesis
    proof (cases "strong = []")
      case False
      define reasons where "reasons = sort (remdups (concat (map (strong_reasons T e) strong)))"
      have m': "(case exactAmount e strong cands (feesOf e fs) Certain reasons of
              Some s \<Rightarrow> Some s
            | None \<Rightarrow> allocate e (feesFor strong (feesOf e fs)) Probable reasons) = Some s"
        using m None False unfolding reasons_def Let_def by simp
      show thesis
      proof (cases "exactAmount e strong cands (feesOf e fs) Certain reasons")
        case None
        then show thesis using m' subs(1) inexact [OF pos, of Probable _ reasons] by auto
      qed (use m' exact [OF pos cands_def strong_def, of reasons] in simp)
    next
      case True
      show thesis
      proof (cases "try_groups e cands (feesOf e fs) byID [named, surnamed]")
        case None
        then show thesis using m \<open>returned = None\<close> True subs(2) inexact [OF pos, of Unclear _ "[ReasonName]"]
          by (auto split: if_splits)
      next
        case (Some s')
        then have "s' = s" using m \<open>returned = None\<close> True by simp
        then obtain grp where "grp \<in> set [named, surnamed]" "exactAmount e grp cands (feesOf e fs) Probable [ReasonName] = Some s"
          using try_groups_Some Some by metis
        then show thesis using subs names [OF pos cands_def] by auto
      qed
    qed
  qed
qed

lemma Match_allocates:
  assumes "fees_ok fs" "distinct (map py_ID members)" "be_AmountCents e < 2 ^ 63" "Match T e members fs = Some s"
  obtains gs c rs' where "allocate e gs c rs' = Some s" "picked fs gs" "0 < be_AmountCents e"
  using assms(4)
proof (cases rule: Match_cases)
  case (end_to_end f)
  show thesis by (rule that [OF end_to_end(4) picked_single [OF end_to_end(2)] end_to_end(5)])
next
  case (exact strong cands reasons)
  have d: "distinct (map py_ID strong)" "distinct (map py_ID cands)"
    using assms(2) exact by (simp_all add: distinct_map_filter)
  obtain gs rs' where gs: "allocate e gs Certain rs' = Some s" "picked fs gs"
    by (rule exactAmount_picks [OF exact(4,1) assms(3,1) d])
  show thesis by (rule that [OF gs exact(1)])
next
  case (inexact P c reasons)
  have "picked fs (feesFor (filter P members) (feesOf e fs))"
    using assms(2) by (intro feesFor_picked [OF assms(1)]) (simp add: distinct_map_filter)
  from that [OF inexact(3) this inexact(1)] show thesis .
next
  case (names P cands)
  have d: "distinct (map py_ID (filter P members))" "distinct (map py_ID cands)"
    using assms(2) names by (simp_all add: distinct_map_filter)
  obtain gs rs' where gs: "allocate e gs Probable rs' = Some s" "picked fs gs"
    by (rule exactAmount_picks [OF names(3,1) assms(3,1) d])
  show thesis by (rule that [OF gs names(1)])
qed

lemma Match_covers:
  assumes "fees_ok fs" "distinct (map py_ID members)" "be_AmountCents e < 2 ^ 63" "Match T e members fs = Some s"
  shows "covers e fs s" "sg_Allocations s \<noteq> []"
proof -
  obtain gs c rs' where gs: "allocate e gs c rs' = Some s" "picked fs gs" "0 < be_AmountCents e"
    by (rule Match_allocates [OF assms])
  show "covers e fs s" by (rule allocate_covers(1) [OF gs(1,3) assms(1) gs(2) assms(3)])
  show "sg_Allocations s \<noteq> []" using gs(1) by (auto simp: allocate_def split: prod.splits if_splits)
qed


subsection \<open>An example\<close>

definition plain_text :: case_tables where
  "plain_text = \<lparr>ct_ToLower = id, ct_ToUpper = id\<rparr>"

definition fee_payment :: bank_entry where
  "fee_payment = \<lparr>be_AmountCents = 5000, be_Text = ''nr 0042'', be_Name = '''', be_IBAN = '''', be_EndToEndID = '''', be_Return = False\<rparr>"

definition payer_42 :: payer where
  "payer_42 = \<lparr>py_ID = ''m'', py_Number = 42, py_FirstName = ''Ann'', py_LastName = ''Lee'', py_AccountHolder = '''', py_IBAN = '''', py_HouseholdID = ''''\<rparr>"

definition open_fee :: due_fee where
  "open_fee = \<lparr>df_ID = ''f'', df_MemberID = ''m'', df_AmountCents = 5000, df_DueDate = 0\<rparr>"

lemma numbers_42: "memberNumbers ''nr 0042'' = [42]"
  by code_simp

lemma fee_payment_matches: "\<exists>s. Match plain_text fee_payment [payer_42] [open_fee] = Some s \<and> sg_Confidence s = Certain"
proof -
  have strong: "strong_reasons plain_text fee_payment payer_42 = [ReasonMemberNumber]"
    by (simp add: strong_reasons_def fee_payment_def payer_42_def numbers_42 normalizeIBAN_def plain_text_def Fields_def fields.simps join_words_def)
  have fee: "feesOf fee_payment [open_fee] ''m'' = [open_fee]"
    by (simp add: feesOf_def sortFees_def open_fee_def)
  have sel: "be_AmountCents fee_payment = 5000" "be_Return fee_payment = False" "py_ID payer_42 = ''m''" "df_AmountCents open_fee = 5000"
    by (simp_all add: fee_payment_def payer_42_def open_fee_def)
  show ?thesis
    using strong fee sel
    by (simp add: Match_def Let_def exactAmount_def feesFor_def sortFees_def allocate_def)
qed


end
