(* ===== verification/Dues.thy ===== *)
theory Dues
  imports Reconcile "HOL-Library.Product_Lexorder" "HOL-Library.Multiset"
begin

text \<open>
  What members owe and what has been paid (\<open>server/internal/store/reconciliation.go\<close>, parts of \<open>store/finance.go\<close>,
  and the suggestions of \<open>handlers/reconciliation.go\<close>): fees, bank transactions, and the payments that assign
  transactions to fees. A table is a list of rows with their \<open>deleted_at\<close> as a flag, a query a comprehension over
  the tables, a transaction of the database a function that returns an error or the new tables; stamping and
  recording the writes is what \<open>SyncWrite\<close> models. A stored time is its number of milliseconds since 1 January
  of the year 1. Amounts are integers; the code has 64 bits for them.
\<close>

type_synonym stamp = int

definition dateOnly :: "stamp \<Rightarrow> stamp" where
  "dateOnly t = t - t mod 86400000"

subsection \<open>Tables\<close>

record member_ref =
  mr_ID :: string
  mr_Number :: int
  mr_FirstName :: string
  mr_LastName :: string

record member_row =
  m_ref :: member_ref
  m_deleted :: bool

record bank_row =
  bd_member :: string
  bd_holder :: "string option"
  bd_iban :: "string option"
  bd_bic :: "string option"
  bd_mandate_date :: "stamp option"
  bd_deleted :: bool

record mandate_row =
  md_member :: string
  md_reference :: string
  md_deleted :: bool

record household_row =
  hh_id :: string
  hh_deleted :: bool

record household_member_row =
  hm_member :: string
  hm_household :: string
  hm_deleted :: bool

record fee_row =
  f_id :: string
  f_member :: string
  f_amount :: int
  f_due :: stamp
  f_paid :: "stamp option"
  f_description :: "string option"
  f_year :: int
  f_deleted :: bool

record sepa_creditor =
  sc_Name :: string
  sc_CreditorID :: string
  sc_IBAN :: string
  sc_BIC :: "string option"
  sc_RemittanceTemplate :: "string option"

record run_row =
  ru_id :: string
  ru_collection :: stamp
  ru_creditor :: sepa_creditor
  ru_paid :: "stamp option"
  ru_created :: stamp
  ru_deleted :: bool

record item_row =
  it_id :: string
  it_run :: string
  it_fee :: string
  it_member :: string
  it_amount :: int
  it_sequence :: string
  it_mandate_ref :: string
  it_mandate_date :: stamp
  it_debtor :: string
  it_iban :: string
  it_bic :: "string option"
  it_remittance :: string
  it_deleted :: bool

record txn_row =
  t_id :: string
  t_date :: stamp
  t_description :: string
  t_amount :: int
  t_type :: string
  t_category :: "string option"
  t_notes :: "string option"
  t_deleted :: bool

record bank_data =
  bk_CounterpartyName :: "string option"
  bk_CounterpartyIBAN :: "string option"
  bk_EndToEndID :: "string option"
  bk_MandateRef :: "string option"
  bk_IsReturn :: bool
  bk_ReturnReason :: "string option"

record entry_row =
  tb_txn :: string
  tb_bank :: bank_data
  tb_dismissed :: "stamp option"
  tb_deleted :: bool

record pay_row =
  pay_id :: string
  pay_fee :: string
  pay_txn :: string
  pay_amount :: int
  pay_prior :: "stamp option"
  pay_deleted :: bool

record charge_row =
  ch_fee :: string
  ch_deleted :: bool

record dues =
  du_members :: "member_row list"
  du_bank :: "bank_row list"
  du_mandates :: "mandate_row list"
  du_households :: "household_row list"
  du_household_members :: "household_member_row list"
  du_creditor :: "sepa_creditor option"
  du_fees :: "fee_row list"
  du_charges :: "charge_row list"
  du_runs :: "run_row list"
  du_items :: "item_row list"
  du_txns :: "txn_row list"
  du_entries :: "entry_row list"
  du_payments :: "pay_row list"

datatype dues_error =
    DNotFound | DConflict | DInvalidReference | DCheckFailed
  | NotReconcilable | AlreadyReconciled | NoAllocations | AllocationExceeds | AllocationInvalid "string list"
  | SEPANotConfigured | SEPARunPaid | SEPANoFees | SEPAInvalid "string list" | DPanic

text \<open>The rows a join or a lookup by primary key finds.\<close>

definition member_any :: "dues \<Rightarrow> string \<Rightarrow> member_ref option" where
  "member_any d i = map_option m_ref (find (\<lambda>m. mr_ID (m_ref m) = i) (du_members d))"

definition member_live :: "dues \<Rightarrow> string \<Rightarrow> member_ref option" where
  "member_live d i = map_option m_ref (find (\<lambda>m. mr_ID (m_ref m) = i \<and> \<not> m_deleted m) (du_members d))"

definition bank_live :: "dues \<Rightarrow> string \<Rightarrow> bank_row option" where
  "bank_live d i = find (\<lambda>b. bd_member b = i \<and> \<not> bd_deleted b) (du_bank d)"

definition fee_live :: "dues \<Rightarrow> string \<Rightarrow> fee_row option" where
  "fee_live d i = find (\<lambda>f. f_id f = i \<and> \<not> f_deleted f) (du_fees d)"

definition txn_live :: "dues \<Rightarrow> string \<Rightarrow> txn_row option" where
  "txn_live d i = find (\<lambda>t. t_id t = i \<and> \<not> t_deleted t) (du_txns d)"

definition requireLiveMember :: "dues \<Rightarrow> string \<Rightarrow> dues_error + unit" where
  "requireLiveMember d i = (if member_live d i = None then Inl DInvalidReference else Inr ())"

text \<open>\<open>ORDER BY m.last_name, m.first_name, m.number, f.due_date\<close> and an id.\<close>

definition due_key :: "member_ref \<Rightarrow> stamp \<Rightarrow> string \<Rightarrow> string \<times> string \<times> int \<times> stamp \<times> string" where
  "due_key m due i = (mr_LastName m, mr_FirstName m, mr_Number m, due, i)"

subsection \<open>Entries and their payments\<close>

record fee_payment =
  fp_ID :: string
  fp_FeeID :: string
  fp_TransactionID :: string
  fp_Member :: member_ref
  fp_FeeYear :: int
  fp_FeeDesc :: "string option"
  fp_AmountCents :: int

record recon_entry =
  re_TransactionID :: string
  re_Date :: stamp
  re_Description :: string
  re_AmountCents :: int
  re_Type :: string
  re_Bank :: bank_data
  re_DismissedAt :: "stamp option"
  re_Payments :: "fee_payment list"

definition re_Open :: "recon_entry \<Rightarrow> bool" where
  "re_Open e \<longleftrightarrow> re_Payments e = [] \<and> re_DismissedAt e = None \<and> (re_Type e = ''income'' \<or> bk_IsReturn (re_Bank e))"

definition payment_of :: "dues \<Rightarrow> (pay_row \<Rightarrow> member_ref \<Rightarrow> bool) \<Rightarrow> pay_row \<Rightarrow> ((string \<times> string \<times> int \<times> stamp \<times> string) \<times> fee_payment) list" where
  "payment_of d sel p =
     (case fee_live d (pay_fee p) of None \<Rightarrow> []
      | Some f \<Rightarrow> (case member_any d (f_member f) of None \<Rightarrow> []
          | Some m \<Rightarrow>
              if \<not> pay_deleted p \<and> txn_live d (pay_txn p) \<noteq> None \<and> sel p m
              then [(due_key m (f_due f) (pay_id p),
                     \<lparr>fp_ID = pay_id p, fp_FeeID = pay_fee p, fp_TransactionID = pay_txn p, fp_Member = m,
                      fp_FeeYear = f_year f, fp_FeeDesc = f_description f, fp_AmountCents = pay_amount p\<rparr>)]
              else []))"

definition feePayments :: "dues \<Rightarrow> (pay_row \<Rightarrow> member_ref \<Rightarrow> bool) \<Rightarrow> fee_payment list" where
  "feePayments d sel = map snd (sort_key fst (concat (map (payment_of d sel) (du_payments d))))"

definition MemberFeePayments :: "dues \<Rightarrow> string \<Rightarrow> fee_payment list" where
  "MemberFeePayments d i = feePayments d (\<lambda>p m. i = '''' \<or> mr_ID m = i)"

definition entry_of :: "dues \<Rightarrow> fee_payment list \<Rightarrow> txn_row \<Rightarrow> recon_entry list" where
  "entry_of d payments t =
     (case find (\<lambda>b. tb_txn b = t_id t \<and> \<not> tb_deleted b) (du_entries d) of
        None \<Rightarrow> []
      | Some b \<Rightarrow> [\<lparr>re_TransactionID = t_id t, re_Date = t_date t, re_Description = t_description t, re_AmountCents = t_amount t,
            re_Type = t_type t, re_Bank = tb_bank b, re_DismissedAt = tb_dismissed b,
            re_Payments = filter (\<lambda>p. fp_TransactionID p = t_id t) payments\<rparr>])"

definition reconciliationEntries :: "dues \<Rightarrow> string \<Rightarrow> recon_entry list" where
  "reconciliationEntries d i =
     concat (map (entry_of d (feePayments d (\<lambda>p m. i = '''' \<or> pay_txn p = i)))
       (rev (sort_key (\<lambda>t. (t_date t, t_id t)) (filter (\<lambda>t. \<not> t_deleted t \<and> (i = '''' \<or> t_id t = i)) (du_txns d)))))"

definition loadEntry :: "dues \<Rightarrow> string \<Rightarrow> dues_error + recon_entry" where
  "loadEntry d i = (case reconciliationEntries d i of [] \<Rightarrow> Inl DNotFound | e # es \<Rightarrow> Inr e)"

subsection \<open>What is paid\<close>

record recon_fee =
  rf_ID :: string
  rf_Member :: member_ref
  rf_Year :: int
  rf_Description :: "string option"
  rf_DueDate :: stamp
  rf_AmountCents :: int
  rf_PaidCents :: int
  rf_PaidDate :: "stamp option"
  rf_InCollection :: bool

definition rf_Open :: "recon_fee \<Rightarrow> bool" where
  "rf_Open f \<longleftrightarrow> rf_PaidDate f = None \<and> \<not> rf_InCollection f \<and> rf_AmountCents f - rf_PaidCents f > 0"

text \<open>The live assignments to a fee; \<open>paidSinceReturnSQL\<close>; being in a run that is not confirmed.\<close>

definition links :: "dues \<Rightarrow> string \<Rightarrow> pay_row list" where
  "links d fee = filter (\<lambda>p. pay_fee p = fee \<and> \<not> pay_deleted p \<and> txn_live d (pay_txn p) \<noteq> None) (du_payments d)"

definition lastReturn :: "pay_row list \<Rightarrow> string" where
  "lastReturn ps = foldl max '''' (map pay_id (filter (\<lambda>p. pay_amount p < 0) ps))"

definition paidSinceReturn :: "pay_row list \<Rightarrow> int" where
  "paidSinceReturn ps = sum_list (map pay_amount (filter (\<lambda>p. pay_amount p > 0 \<and> pay_id p > lastReturn ps) ps))"

definition inCollection :: "dues \<Rightarrow> string \<Rightarrow> bool" where
  "inCollection d fee \<longleftrightarrow>
     list_ex (\<lambda>i. \<not> it_deleted i \<and> it_fee i = fee
       \<and> list_ex (\<lambda>r. ru_id r = it_run i \<and> \<not> ru_deleted r \<and> ru_paid r = None) (du_runs d)) (du_items d)"

definition fee_view :: "dues \<Rightarrow> member_ref \<Rightarrow> fee_row \<Rightarrow> recon_fee" where
  "fee_view d m f =
     \<lparr>rf_ID = f_id f, rf_Member = m, rf_Year = f_year f, rf_Description = f_description f, rf_DueDate = f_due f,
      rf_AmountCents = f_amount f,
      rf_PaidCents = (if f_paid f \<noteq> None then f_amount f else paidSinceReturn (links d (f_id f))),
      rf_PaidDate = f_paid f, rf_InCollection = inCollection d (f_id f)\<rparr>"

definition recon_of :: "dues \<Rightarrow> string list option \<Rightarrow> fee_row \<Rightarrow> ((string \<times> string \<times> int \<times> stamp \<times> string) \<times> recon_fee) list" where
  "recon_of d ids f =
     (case member_live d (f_member f) of None \<Rightarrow> []
      | Some m \<Rightarrow>
          if \<not> f_deleted f \<and> (case ids of None \<Rightarrow> True | Some is \<Rightarrow> List.member is (f_id f))
          then [(due_key m (f_due f) (f_id f), fee_view d m f)]
          else [])"

definition reconcileFees :: "dues \<Rightarrow> string list option \<Rightarrow> recon_fee list" where
  "reconcileFees d ids = map snd (sort_key fst (concat (map (recon_of d ids) (du_fees d))))"

definition ReconcileFees :: "dues \<Rightarrow> recon_fee list" where
  "ReconcileFees d = reconcileFees d None"

definition ReconcileMembers :: "dues \<Rightarrow> payer list" where
  "ReconcileMembers d =
     map (\<lambda>m. let b = bank_live d (mr_ID m);
                  h = (case find (\<lambda>h. hm_member h = mr_ID m \<and> \<not> hm_deleted h) (du_household_members d) of
                         None \<Rightarrow> None
                       | Some h \<Rightarrow> find (\<lambda>r. hh_id r = hm_household h \<and> \<not> hh_deleted r) (du_households d)) in
            \<lparr>py_ID = mr_ID m, py_Number = mr_Number m, py_FirstName = mr_FirstName m, py_LastName = mr_LastName m,
             py_AccountHolder = (case Option.bind b bd_holder of None \<Rightarrow> '''' | Some s \<Rightarrow> s),
             py_IBAN = (case Option.bind b bd_iban of None \<Rightarrow> '''' | Some s \<Rightarrow> s),
             py_HouseholdID = (case h of None \<Rightarrow> '''' | Some r \<Rightarrow> hh_id r)\<rparr>)
       (sort_key (\<lambda>m. (mr_Number m, mr_ID m)) (map m_ref (filter (\<lambda>m. \<not> m_deleted m) (du_members d))))"

subsection \<open>Settling\<close>

definition set_paid :: "string \<Rightarrow> stamp option \<Rightarrow> dues \<Rightarrow> dues" where
  "set_paid fee v d = d\<lparr>du_fees := map (\<lambda>f. if f_id f = fee \<and> \<not> f_deleted f then f\<lparr>f_paid := v\<rparr> else f) (du_fees d)\<rparr>"

text \<open>\<open>MAX\<close> of the dates of the payments, none for no payment.\<close>

definition lastPayment :: "dues \<Rightarrow> pay_row list \<Rightarrow> stamp option" where
  "lastPayment d ps =
     foldl (\<lambda>r t. case r of None \<Rightarrow> Some t | Some s \<Rightarrow> Some (max s t)) None
       (concat (map (\<lambda>p. case txn_live d (pay_txn p) of None \<Rightarrow> [] | Some t \<Rightarrow> [t_date t]) (filter (\<lambda>p. pay_amount p > 0) ps)))"

definition settleFee :: "stamp \<Rightarrow> string \<Rightarrow> dues \<Rightarrow> dues" where
  "settleFee now fee d =
     (case fee_live d fee of
        None \<Rightarrow> d
      | Some f \<Rightarrow>
          (let ps = links d fee in
           case rev (sort_key pay_id ps) of
             [] \<Rightarrow> d
           | p # _ \<Rightarrow>
               if pay_amount p < 0 \<or> paidSinceReturn ps < f_amount f then set_paid fee None d
               else if f_paid f \<noteq> None then d
               else set_paid fee (Some (case lastPayment d ps of Some t \<Rightarrow> dateOnly t | None \<Rightarrow> now)) d))"

fun settle_all :: "stamp \<Rightarrow> string list \<Rightarrow> dues \<Rightarrow> dues" where
  "settle_all now [] d = d"
| "settle_all now (i # is) d = settle_all now is (settleFee now i d)"

text \<open>The first assignment removed from each fee.\<close>

fun first_per_fee :: "string list \<Rightarrow> pay_row list \<Rightarrow> pay_row list" where
  "first_per_fee seen [] = []"
| "first_per_fee seen (p # ps) =
     (if List.member seen (pay_fee p) then first_per_fee seen ps else p # first_per_fee (pay_fee p # seen) ps)"

fun resettle :: "stamp \<Rightarrow> pay_row list \<Rightarrow> dues \<Rightarrow> dues" where
  "resettle now [] d = d"
| "resettle now (p # ps) d =
     resettle now ps
       (if list_ex (\<lambda>q. pay_fee q = pay_fee p \<and> \<not> pay_deleted q \<and> pay_id q > pay_id p \<and> txn_live d (pay_txn q) \<noteq> None) (du_payments d)
        then settleFee now (pay_fee p) d else set_paid (pay_fee p) (pay_prior p) d)"

definition removePayments :: "stamp \<Rightarrow> string \<Rightarrow> dues \<Rightarrow> dues" where
  "removePayments now txn d =
     (let rows = sort_key pay_id (filter (\<lambda>p. \<not> pay_deleted p \<and> pay_txn p = txn) (du_payments d)) in
      resettle now (first_per_fee [] rows)
        (d\<lparr>du_payments := map (\<lambda>p. if \<not> pay_deleted p \<and> pay_txn p = txn then p\<lparr>pay_deleted := True\<rparr> else p) (du_payments d)\<rparr>))"

subsection \<open>Confirming, dismissing and reopening an entry\<close>

text \<open>The first checks of a confirmation: positive amounts, no fee twice. Their sum is one of 64 bits.\<close>

fun check_allocations :: "allocation list \<Rightarrow> string list \<Rightarrow> int \<Rightarrow> dues_error + int" where
  "check_allocations [] seen tot = Inr tot"
| "check_allocations (a # as) seen tot =
     (if al_AmountCents a \<le> 0 \<or> List.member seen (al_FeeID a) then Inl (AllocationInvalid [al_FeeID a])
      else check_allocations as (al_FeeID a # seen) (i64 (tot + al_AmountCents a)))"

definition takes :: "bool \<Rightarrow> recon_fee list \<Rightarrow> allocation \<Rightarrow> bool" where
  "takes isReturn fs a =
     (case find (\<lambda>f. rf_ID f = al_FeeID a) (rev fs) of
        None \<Rightarrow> False
      | Some f \<Rightarrow>
          if isReturn then \<not> (rf_PaidCents f \<le> 0 \<or> al_AmountCents a > rf_PaidCents f)
          else \<not> (\<not> rf_Open f \<or> al_AmountCents a > rf_AmountCents f - rf_PaidCents f))"

definition insert_payment :: "pay_row \<Rightarrow> dues \<Rightarrow> dues_error + dues" where
  "insert_payment p d =
     (if list_ex (\<lambda>q. pay_id q = pay_id p) (du_payments d) then Inl DConflict
      else Inr (d\<lparr>du_payments := du_payments d @ [p]\<rparr>))"

text \<open>The row of an assignment, with the paid date the fee has so far.\<close>

definition new_payment :: "string \<Rightarrow> string \<Rightarrow> bool \<Rightarrow> recon_fee list \<Rightarrow> allocation \<Rightarrow> pay_row" where
  "new_payment i txn isReturn fs a =
     \<lparr>pay_id = i, pay_fee = al_FeeID a, pay_txn = txn, pay_amount = (if isReturn then - al_AmountCents a else al_AmountCents a),
      pay_prior = (case find (\<lambda>f. rf_ID f = al_FeeID a) (rev fs) of None \<Rightarrow> None | Some f \<Rightarrow> rf_PaidDate f), pay_deleted = False\<rparr>"

text \<open>\<open>newID\<close> are the ids that \<open>db.NewID\<close> returns, from the \<open>k\<close>-th on.\<close>

fun insert_payments :: "(nat \<Rightarrow> string) \<Rightarrow> nat \<Rightarrow> string \<Rightarrow> bool \<Rightarrow> recon_fee list \<Rightarrow> allocation list \<Rightarrow> dues \<Rightarrow> dues_error + dues" where
  "insert_payments newID k txn isReturn fs [] d = Inr d"
| "insert_payments newID k txn isReturn fs (a # as) d =
     (case insert_payment (new_payment (newID k) txn isReturn fs a) d of
        Inl e \<Rightarrow> Inl e
      | Inr d' \<Rightarrow> insert_payments newID (Suc k) txn isReturn fs as d')"

definition set_dismissed :: "string \<Rightarrow> (entry_row \<Rightarrow> bool) \<Rightarrow> stamp option \<Rightarrow> dues \<Rightarrow> dues" where
  "set_dismissed txn sel v d = d\<lparr>du_entries := map (\<lambda>b. if tb_txn b = txn \<and> sel b then b\<lparr>tb_dismissed := v\<rparr> else b) (du_entries d)\<rparr>"

definition ConfirmReconciliation :: "(nat \<Rightarrow> string) \<Rightarrow> nat \<Rightarrow> stamp \<Rightarrow> string \<Rightarrow> allocation list \<Rightarrow> dues \<Rightarrow> dues_error + (recon_entry \<times> dues)" where
  "ConfirmReconciliation newID k now txn as d =
     (if as = [] then Inl NoAllocations
      else case loadEntry d txn of
        Inl e \<Rightarrow> Inl e
      | Inr entry \<Rightarrow>
          if re_Payments entry \<noteq> [] then Inl AlreadyReconciled
          else if re_Type entry \<noteq> ''income'' \<and> \<not> bk_IsReturn (re_Bank entry) then Inl NotReconcilable
          else (case check_allocations as [] 0 of
            Inl e \<Rightarrow> Inl e
          | Inr tot \<Rightarrow>
              if tot > re_AmountCents entry then Inl AllocationExceeds
              else (let isReturn = bk_IsReturn (re_Bank entry);
                        fs = reconcileFees d (Some (map al_FeeID as));
                        invalid = map al_FeeID (filter (\<lambda>a. \<not> takes isReturn fs a) as) in
                    if invalid \<noteq> [] then Inl (AllocationInvalid (sort invalid))
                    else (case insert_payments newID k txn isReturn fs as d of
                      Inl e \<Rightarrow> Inl e
                    | Inr d1 \<Rightarrow>
                        (let d2 = (if re_DismissedAt entry \<noteq> None then set_dismissed txn (\<lambda>b. True) None d1 else d1);
                             d3 = settle_all now (map al_FeeID as) d2 in
                         case loadEntry d3 txn of Inl e \<Rightarrow> Inl e | Inr entry' \<Rightarrow> Inr (entry', d3))))))"

definition DismissReconciliation :: "stamp \<Rightarrow> string \<Rightarrow> dues \<Rightarrow> dues_error + (recon_entry \<times> dues)" where
  "DismissReconciliation now txn d =
     (case loadEntry d txn of
        Inl e \<Rightarrow> Inl e
      | Inr entry \<Rightarrow>
          if re_Payments entry \<noteq> [] then Inl AlreadyReconciled
          else (let d' = set_dismissed txn (\<lambda>b. tb_dismissed b = None) (Some now) d in
                case loadEntry d' txn of Inl e \<Rightarrow> Inl e | Inr entry' \<Rightarrow> Inr (entry', d')))"

definition ReopenReconciliation :: "stamp \<Rightarrow> string \<Rightarrow> dues \<Rightarrow> dues_error + (recon_entry \<times> dues)" where
  "ReopenReconciliation now txn d =
     (case loadEntry d txn of
        Inl e \<Rightarrow> Inl e
      | Inr entry \<Rightarrow>
          (let d' = removePayments now txn (set_dismissed txn (\<lambda>b. tb_dismissed b \<noteq> None) None d) in
           case loadEntry d' txn of Inl e \<Rightarrow> Inl e | Inr entry' \<Rightarrow> Inr (entry', d')))"

subsection \<open>Transactions and fees\<close>

record txn_input =
  ti_Date :: stamp
  ti_Description :: string
  ti_AmountCents :: int
  ti_Type :: string
  ti_Category :: "string option"
  ti_Notes :: "string option"

definition transaction_row :: "string \<Rightarrow> txn_input \<Rightarrow> txn_row" where
  "transaction_row i t = \<lparr>t_id = i, t_date = ti_Date t, t_description = ti_Description t, t_amount = ti_AmountCents t,
     t_type = ti_Type t, t_category = ti_Category t, t_notes = ti_Notes t, t_deleted = False\<rparr>"

definition insert_txn :: "txn_row \<Rightarrow> dues \<Rightarrow> dues_error + dues" where
  "insert_txn t d =
     (if t_type t \<noteq> ''income'' \<and> t_type t \<noteq> ''expense'' then Inl DCheckFailed
      else if list_ex (\<lambda>u. t_id u = t_id t) (du_txns d) then Inl DConflict
      else Inr (d\<lparr>du_txns := du_txns d @ [t]\<rparr>))"

definition CreateTransaction :: "string \<Rightarrow> txn_input \<Rightarrow> dues \<Rightarrow> dues_error + dues" where
  "CreateTransaction newID t d = insert_txn (transaction_row newID t) d"

definition ImportTransaction :: "string \<Rightarrow> txn_input \<Rightarrow> bank_data option \<Rightarrow> dues \<Rightarrow> dues_error + dues" where
  "ImportTransaction newID t bank d =
     (case insert_txn (transaction_row newID t) d of
        Inl e \<Rightarrow> Inl e
      | Inr d' \<Rightarrow>
          (case bank of
             None \<Rightarrow> Inr d'
           | Some b \<Rightarrow>
               if list_ex (\<lambda>r. tb_txn r = newID) (du_entries d') then Inl DConflict
               else Inr (d'\<lparr>du_entries := du_entries d' @ [\<lparr>tb_txn = newID, tb_bank = b, tb_dismissed = None, tb_deleted = False\<rparr>]\<rparr>)))"

definition UpdateTransaction :: "string \<Rightarrow> txn_input \<Rightarrow> dues \<Rightarrow> dues_error + dues" where
  "UpdateTransaction i t d =
     (if txn_live d i = None then Inl DNotFound
      else if ti_Type t \<noteq> ''income'' \<and> ti_Type t \<noteq> ''expense'' then Inl DCheckFailed
      else Inr (d\<lparr>du_txns := map (\<lambda>r. if t_id r = i \<and> \<not> t_deleted r then transaction_row i t else r) (du_txns d)\<rparr>))"

definition DeleteTransaction :: "stamp \<Rightarrow> string \<Rightarrow> dues \<Rightarrow> dues_error + dues" where
  "DeleteTransaction now i d =
     (if txn_live d i = None then Inl DNotFound
      else Inr (removePayments now i
        (d\<lparr>du_txns := map (\<lambda>r. if t_id r = i \<and> \<not> t_deleted r then r\<lparr>t_deleted := True\<rparr> else r) (du_txns d)\<rparr>)))"

record fee_input =
  fi_MemberID :: string
  fi_AmountCents :: int
  fi_DueDate :: stamp
  fi_PaidDate :: "stamp option"
  fi_Description :: "string option"
  fi_Year :: int

definition fee_columns :: "string \<Rightarrow> fee_input \<Rightarrow> fee_row" where
  "fee_columns i f = \<lparr>f_id = i, f_member = fi_MemberID f, f_amount = fi_AmountCents f, f_due = fi_DueDate f, f_paid = fi_PaidDate f,
     f_description = fi_Description f, f_year = fi_Year f, f_deleted = False\<rparr>"

definition CreateFee :: "string \<Rightarrow> fee_input \<Rightarrow> dues \<Rightarrow> dues_error + dues" where
  "CreateFee newID f d =
     (case requireLiveMember d (fi_MemberID f) of
        Inl e \<Rightarrow> Inl e
      | Inr _ \<Rightarrow>
          if list_ex (\<lambda>g. f_id g = newID) (du_fees d) then Inl DConflict
          else Inr (d\<lparr>du_fees := du_fees d @ [fee_columns newID f]\<rparr>))"

definition UpdateFee :: "string \<Rightarrow> fee_input \<Rightarrow> dues \<Rightarrow> dues_error + dues" where
  "UpdateFee i f d =
     (case requireLiveMember d (fi_MemberID f) of
        Inl e \<Rightarrow> Inl e
      | Inr _ \<Rightarrow>
          if fee_live d i = None then Inl DNotFound
          else Inr (d\<lparr>du_fees := map (\<lambda>g. if f_id g = i \<and> \<not> f_deleted g then fee_columns i f else g) (du_fees d)\<rparr>))"

definition DeleteFee :: "string \<Rightarrow> dues \<Rightarrow> dues_error + dues" where
  "DeleteFee i d =
     (if fee_live d i = None then Inl DNotFound
      else Inr (d\<lparr>du_fees := map (\<lambda>g. if f_id g = i \<and> \<not> f_deleted g then g\<lparr>f_deleted := True\<rparr> else g) (du_fees d),
                  du_payments := map (\<lambda>p. if pay_fee p = i \<and> \<not> pay_deleted p then p\<lparr>pay_deleted := True\<rparr> else p) (du_payments d),
                  du_charges := map (\<lambda>c. if ch_fee c = i \<and> \<not> ch_deleted c then c\<lparr>ch_deleted := True\<rparr> else c) (du_charges d)\<rparr>))"

subsection \<open>Suggestions\<close>

text \<open>The open fees with what is due, for a returned debit the paid fees with what was paid.\<close>

definition fee_candidates :: "bool \<Rightarrow> recon_fee list \<Rightarrow> due_fee list" where
  "fee_candidates isReturn fs = concat (map (\<lambda>f.
     if \<not> isReturn \<and> \<not> rf_Open f then []
     else (let amount = (if isReturn then min (rf_PaidCents f) (rf_AmountCents f) else rf_AmountCents f - rf_PaidCents f) in
           if amount > 0
           then [\<lparr>df_ID = rf_ID f, df_MemberID = mr_ID (rf_Member f), df_AmountCents = amount, df_DueDate = rf_DueDate f\<rparr>]
           else [])) fs)"

definition match_entry :: "recon_entry \<Rightarrow> bank_entry" where
  "match_entry e =
     (let b = re_Bank e; str = (\<lambda>s. case s of None \<Rightarrow> '''' | Some t \<Rightarrow> t) in
      \<lparr>be_AmountCents = re_AmountCents e, be_Text = re_Description e, be_Name = str (bk_CounterpartyName b),
       be_IBAN = str (bk_CounterpartyIBAN b), be_EndToEndID = str (bk_EndToEndID b), be_Return = bk_IsReturn b\<rparr>)"

definition suggest :: "case_tables \<Rightarrow> recon_entry \<Rightarrow> recon_fee list \<Rightarrow> payer list \<Rightarrow> suggestion option" where
  "suggest T e fs members =
     (if \<not> re_Open e then None else Match T (match_entry e) members (fee_candidates (bk_IsReturn (re_Bank e)) fs))"

text \<open>The oldest entry that is not done and has a certain suggestion; entries are listed newest first.\<close>

definition is_certain :: "case_tables \<Rightarrow> dues \<Rightarrow> recon_entry \<Rightarrow> bool" where
  "is_certain T d e = (case suggest T e (ReconcileFees d) (ReconcileMembers d) of
     None \<Rightarrow> False | Some s \<Rightarrow> sg_Confidence s = Certain)"

definition next_certain :: "case_tables \<Rightarrow> string list \<Rightarrow> dues \<Rightarrow> (recon_entry \<times> allocation list) option" where
  "next_certain T done d =
     (case find (\<lambda>e. \<not> List.member done (re_TransactionID e) \<and> is_certain T d e) (rev (reconciliationEntries d '''')) of
        None \<Rightarrow> None
      | Some e \<Rightarrow> (case suggest T e (ReconcileFees d) (ReconcileMembers d) of
                     None \<Rightarrow> None | Some s \<Rightarrow> Some (e, sg_Allocations s)))"

subsection \<open>What the operations leave alone\<close>

lemma foldl_keeps: "(\<And>x d. g (f d x) = g d) \<Longrightarrow> g (foldl f d xs) = g d"
  by (induction xs arbitrary: d) simp_all

lemma set_paid_simps [simp]:
  "du_members (set_paid i v d) = du_members d" "du_bank (set_paid i v d) = du_bank d" "du_txns (set_paid i v d) = du_txns d"
  "du_entries (set_paid i v d) = du_entries d" "du_payments (set_paid i v d) = du_payments d" "du_items (set_paid i v d) = du_items d"
  "du_runs (set_paid i v d) = du_runs d" "du_households (set_paid i v d) = du_households d"
  "du_household_members (set_paid i v d) = du_household_members d"
  by (simp_all add: set_paid_def)

lemma settleFee_cases: "settleFee now i d = d \<or> (\<exists>v. settleFee now i d = set_paid i v d)"
  by (auto simp: settleFee_def Let_def split: option.splits list.splits)

lemma settleFee_simps [simp]:
  "du_members (settleFee now i d) = du_members d" "du_bank (settleFee now i d) = du_bank d" "du_txns (settleFee now i d) = du_txns d"
  "du_entries (settleFee now i d) = du_entries d" "du_payments (settleFee now i d) = du_payments d" "du_items (settleFee now i d) = du_items d"
  "du_runs (settleFee now i d) = du_runs d" "du_households (settleFee now i d) = du_households d"
  "du_household_members (settleFee now i d) = du_household_members d"
  using settleFee_cases [of now i d] by auto

lemma settle_all_simps [simp]:
  "du_members (settle_all now is d) = du_members d" "du_bank (settle_all now is d) = du_bank d" "du_txns (settle_all now is d) = du_txns d"
  "du_entries (settle_all now is d) = du_entries d" "du_payments (settle_all now is d) = du_payments d" "du_items (settle_all now is d) = du_items d"
  "du_runs (settle_all now is d) = du_runs d" "du_households (settle_all now is d) = du_households d"
  "du_household_members (settle_all now is d) = du_household_members d"
  by (induction now "is" d rule: settle_all.induct) simp_all

lemma set_dismissed_simps [simp]:
  "du_members (set_dismissed i s v d) = du_members d" "du_bank (set_dismissed i s v d) = du_bank d" "du_txns (set_dismissed i s v d) = du_txns d"
  "du_fees (set_dismissed i s v d) = du_fees d" "du_payments (set_dismissed i s v d) = du_payments d" "du_items (set_dismissed i s v d) = du_items d"
  "du_runs (set_dismissed i s v d) = du_runs d" "du_households (set_dismissed i s v d) = du_households d"
  "du_household_members (set_dismissed i s v d) = du_household_members d"
  by (simp_all add: set_dismissed_def)

text \<open>The rows a confirmation inserts.\<close>

fun new_payments :: "(nat \<Rightarrow> string) \<Rightarrow> nat \<Rightarrow> string \<Rightarrow> bool \<Rightarrow> recon_fee list \<Rightarrow> allocation list \<Rightarrow> pay_row list" where
  "new_payments newID k txn isReturn fs [] = []"
| "new_payments newID k txn isReturn fs (a # as) = new_payment (newID k) txn isReturn fs a # new_payments newID (Suc k) txn isReturn fs as"

lemma insert_payments_Inr:
  "insert_payments newID k txn r fs as d = Inr d' \<Longrightarrow> d' = d\<lparr>du_payments := du_payments d @ new_payments newID k txn r fs as\<rparr>"
proof (induction as arbitrary: k d)
  case (Cons a as)
  let ?d = "d\<lparr>du_payments := du_payments d @ [new_payment (newID k) txn r fs a]\<rparr>"
  have "insert_payments newID (Suc k) txn r fs as ?d = Inr d'"
    using Cons.prems by (auto simp: insert_payment_def split: if_splits)
  from Cons.IH [OF this] show ?case by simp
qed simp

lemma new_payments_map:
  "map pay_fee (new_payments newID k txn r fs as) = map al_FeeID as"
  "map pay_amount (new_payments newID k txn r fs as) = map (\<lambda>a. if r then - al_AmountCents a else al_AmountCents a) as"
  "map pay_id (new_payments newID k txn r fs as) = map newID [k..<k + length as]"
  "p \<in> set (new_payments newID k txn r fs as) \<Longrightarrow> pay_txn p = txn \<and> \<not> pay_deleted p
     \<and> pay_prior p = (case find (\<lambda>f. rf_ID f = pay_fee p) (rev fs) of None \<Rightarrow> None | Some f \<Rightarrow> rf_PaidDate f)"
  by (induction as arbitrary: k) (auto simp: new_payment_def upt_rec)

text \<open>The steps of a confirmation that goes through.\<close>

lemma ConfirmReconciliation_cases:
  assumes "ConfirmReconciliation newID k now txn as d = Inr (e', d')"
  obtains entry tot fs d1 d2 where "as \<noteq> []" "loadEntry d txn = Inr entry" "re_Payments entry = []"
    "re_Type entry = ''income'' \<or> bk_IsReturn (re_Bank entry)" "check_allocations as [] 0 = Inr tot" "tot \<le> re_AmountCents entry"
    "fs = reconcileFees d (Some (map al_FeeID as))" "list_all (takes (bk_IsReturn (re_Bank entry)) fs) as"
    "d1 = d\<lparr>du_payments := du_payments d @ new_payments newID k txn (bk_IsReturn (re_Bank entry)) fs as\<rparr>"
    "d2 = (if re_DismissedAt entry \<noteq> None then set_dismissed txn (\<lambda>b. True) None d1 else d1)"
    "d' = settle_all now (map al_FeeID as) d2" "loadEntry d' txn = Inr e'"
proof -
  from assms obtain entry where e: "as \<noteq> []" "loadEntry d txn = Inr entry" "re_Payments entry = []"
      "re_Type entry = ''income'' \<or> bk_IsReturn (re_Bank entry)"
    by (auto simp: ConfirmReconciliation_def split: sum.splits if_splits)
  from assms e obtain tot where t: "check_allocations as [] 0 = Inr tot" "tot \<le> re_AmountCents entry"
    by (auto simp: ConfirmReconciliation_def split: sum.splits if_splits)
  define fs where "fs = reconcileFees d (Some (map al_FeeID as))"
  have c: "(re_Type entry \<noteq> ''income'' \<and> \<not> bk_IsReturn (re_Bank entry)) = False" using e(4) by blast
  have rest: "(let invalid = map al_FeeID (filter (\<lambda>a. \<not> takes (bk_IsReturn (re_Bank entry)) fs a) as) in
      if invalid \<noteq> [] then Inl (AllocationInvalid (sort invalid))
      else (case insert_payments newID k txn (bk_IsReturn (re_Bank entry)) fs as d of
          Inl e \<Rightarrow> Inl e
        | Inr d1 \<Rightarrow>
            (let d2 = (if re_DismissedAt entry \<noteq> None then set_dismissed txn (\<lambda>b. True) None d1 else d1);
                 d3 = settle_all now (map al_FeeID as) d2 in
             case loadEntry d3 txn of Inl e \<Rightarrow> Inl e | Inr entry' \<Rightarrow> Inr (entry', d3)))) = Inr (e', d')"
    using assms t(2) unfolding ConfirmReconciliation_def fs_def Let_def
    by (simp only: e(1,2,3) t(1) c if_False sum.case not_less [symmetric] simp_thms Let_def)
  have ok: "map al_FeeID (filter (\<lambda>a. \<not> takes (bk_IsReturn (re_Bank entry)) fs a) as) = []"
    by (rule ccontr) (use rest in \<open>simp add: Let_def\<close>)
  have "list_all (takes (bk_IsReturn (re_Bank entry)) fs) as"
    using ok by (auto simp: list_all_iff filter_empty_conv)
  moreover obtain d1 where d1: "insert_payments newID k txn (bk_IsReturn (re_Bank entry)) fs as d = Inr d1"
    using rest ok by (cases "insert_payments newID k txn (bk_IsReturn (re_Bank entry)) fs as d") (simp_all add: Let_def)
  ultimately show thesis
    using rest ok d1 by (intro that [OF e t fs_def _ insert_payments_Inr [OF d1] refl]) (auto simp: Let_def split: sum.splits)
qed

definition entry_ids :: "dues \<Rightarrow> string set" where
  "entry_ids d = re_TransactionID ` set (reconciliationEntries d '''')"

lemma entry_ids_value:
  "entry_ids d = {t_id t | t. t \<in> set (du_txns d) \<and> \<not> t_deleted t \<and> (\<exists>b \<in> set (du_entries d). tb_txn b = t_id t \<and> \<not> tb_deleted b)}"
proof -
  have e: "re_TransactionID ` set (entry_of d ps t) = (if \<exists>b \<in> set (du_entries d). tb_txn b = t_id t \<and> \<not> tb_deleted b then {t_id t} else {})"
    for ps t
  proof (cases "find (\<lambda>b. tb_txn b = t_id t \<and> \<not> tb_deleted b) (du_entries d)")
    case None
    show ?thesis unfolding entry_of_def None using None [unfolded find_None_iff] by auto
  next
    case (Some b)
    then show ?thesis using find_SomeD [OF Some] by (auto simp: entry_of_def)
  qed
  have "entry_ids d = (\<Union>t \<in> {t \<in> set (du_txns d). \<not> t_deleted t}.
      re_TransactionID ` set (entry_of d (feePayments d (\<lambda>p m. True)) t))"
    by (simp add: entry_ids_def reconciliationEntries_def image_UN)
  then show ?thesis unfolding e by auto
qed

lemma entry_ids_set_dismissed [simp]: "entry_ids (set_dismissed i s v d) = entry_ids d"
proof -
  have "(\<exists>b \<in> set (du_entries (set_dismissed i s v d)). tb_txn b = j \<and> \<not> tb_deleted b)
      \<longleftrightarrow> (\<exists>b \<in> set (du_entries d). tb_txn b = j \<and> \<not> tb_deleted b)" for j
    by (simp add: set_dismissed_def if_distrib [of tb_txn] if_distrib [of tb_deleted] del: if_image_distrib) (rule bex_cong, auto)
  then show ?thesis unfolding entry_ids_value by simp
qed

lemma entry_ids_cong: "du_txns d = du_txns d' \<Longrightarrow> du_entries d = du_entries d' \<Longrightarrow> entry_ids d = entry_ids d'"
  by (simp add: entry_ids_value)

lemma Confirm_entry_ids: "ConfirmReconciliation newID k now txn as d = Inr (e', d') \<Longrightarrow> entry_ids d' = entry_ids d"
proof (erule ConfirmReconciliation_cases)
  fix entry fs d1 d2
  assume d: "d1 = d\<lparr>du_payments := du_payments d @ new_payments newID k txn (bk_IsReturn (re_Bank entry)) fs as\<rparr>"
    "d2 = (if re_DismissedAt entry \<noteq> None then set_dismissed txn (\<lambda>b. True) None d1 else d1)" "d' = settle_all now (map al_FeeID as) d2"
  have "entry_ids d' = entry_ids d2" unfolding d(3) by (rule entry_ids_cong) simp_all
  also have "\<dots> = entry_ids d1" using d(2) by simp
  also have "\<dots> = entry_ids d" unfolding d(1) by (rule entry_ids_cong) simp_all
  finally show ?thesis .
qed

lemma next_certain_Some:
  assumes "next_certain T done d = Some (e, as)"
  obtains s where "e \<in> set (reconciliationEntries d '''')" "re_TransactionID e \<notin> set done"
    "suggest T e (ReconcileFees d) (ReconcileMembers d) = Some s" "sg_Confidence s = Certain" "as = sg_Allocations s"
proof -
  obtain e' where f: "find (\<lambda>e. \<not> List.member done (re_TransactionID e) \<and> is_certain T d e) (rev (reconciliationEntries d '''')) = Some e'"
    using assms by (auto simp: next_certain_def split: option.splits)
  then have e: "e' \<in> set (reconciliationEntries d '''')" "re_TransactionID e' \<notin> set done" "is_certain T d e'"
    using find_SomeD [OF f] by (auto simp: List.member_iff)
  obtain s where s: "suggest T e' (ReconcileFees d) (ReconcileMembers d) = Some s" "sg_Confidence s = Certain"
    using e(3) by (auto simp: is_certain_def split: option.splits)
  have eq: "e' = e" "sg_Allocations s = as" using assms unfolding next_certain_def f by (simp_all add: s(1))
  show thesis using that [of s] e(1,2) s unfolding eq by simp
qed

text \<open>
  \<open>ConfirmCertainReconciliations\<close>: the number confirmed or the error that ended it, and the tables.
\<close>

function confirm_certain :: "case_tables \<Rightarrow> (nat \<Rightarrow> string) \<Rightarrow> nat \<Rightarrow> stamp \<Rightarrow> string list \<Rightarrow> int \<Rightarrow> dues \<Rightarrow> (dues_error + int) \<times> dues" where
  "confirm_certain T newID k now done confirmed d =
     (case next_certain T done d of
        None \<Rightarrow> (Inr confirmed, d)
      | Some (e, as) \<Rightarrow>
          (case ConfirmReconciliation newID k now (re_TransactionID e) as d of
             Inl err \<Rightarrow> (Inl err, d)
           | Inr (e', d') \<Rightarrow> confirm_certain T newID (k + length as) now (re_TransactionID e # done) (confirmed + 1) d'))"
  by pat_completeness auto
termination
proof (relation "measure (\<lambda>(T, newID, k, now, done, confirmed, d). card (entry_ids d - set done))", goal_cases)
  case (2 T newID k now "done" confirmed d x e as y e' d')
  then obtain s where e: "e \<in> set (reconciliationEntries d '''')" "re_TransactionID e \<notin> set done"
    using next_certain_Some by metis
  have "entry_ids d' = entry_ids d" using 2 Confirm_entry_ids by metis
  moreover have "finite (entry_ids d)" by (simp add: entry_ids_def)
  moreover have "re_TransactionID e \<in> entry_ids d" using e(1) by (simp add: entry_ids_def)
  ultimately have "entry_ids d' - set (re_TransactionID e # done) \<subset> entry_ids d - set done" "finite (entry_ids d - set done)"
    using e(2) by auto
  then show ?case using psubset_card_mono by auto
qed simp

declare confirm_certain.simps [simp del]

definition ConfirmCertainReconciliations :: "case_tables \<Rightarrow> (nat \<Rightarrow> string) \<Rightarrow> stamp \<Rightarrow> dues \<Rightarrow> (dues_error + int) \<times> dues" where
  "ConfirmCertainReconciliations T newID now d = confirm_certain T newID 0 now [] 0 d"

end
