(* ===== verification/Ledger.thy ===== *)
theory Ledger
  imports Dues
begin

text \<open>
  What confirming, reopening and the suggestions for bank entries do to the fees: the tables stay well-formed, a
  suggestion can always be confirmed, confirming and reopening undo each other, and no transaction ever pays more
  than its amount.
\<close>

subsection \<open>Well-formed tables\<close>

text \<open>
  Primary keys are unique, the members of fees exist (a foreign key), the amounts of the fees and of each transaction
  fit into 64 bits.
\<close>

definition dues_ok :: "dues \<Rightarrow> bool" where
  "dues_ok d \<longleftrightarrow> distinct (map (\<lambda>m. mr_ID (m_ref m)) (du_members d)) \<and> distinct (map f_id (du_fees d)) \<and> distinct (map t_id (du_txns d))
     \<and> distinct (map tb_txn (du_entries d)) \<and> distinct (map pay_id (du_payments d)) \<and> '''' \<notin> t_id ` set (du_txns d)
     \<and> list_all (\<lambda>f. member_any d (f_member f) \<noteq> None) (du_fees d)
     \<and> sum_list (map (\<lambda>f. max 0 (f_amount f)) (du_fees d)) < 2 ^ 63 \<and> list_all (\<lambda>t. t_amount t < 2 ^ 63) (du_txns d)"

text \<open>New ids are greater than all that are there: ids are ordered by creation.\<close>

definition fresh_ids :: "(nat \<Rightarrow> string) \<Rightarrow> nat \<Rightarrow> dues \<Rightarrow> bool" where
  "fresh_ids newID k d \<longleftrightarrow> (\<forall>j \<ge> k. \<forall>p \<in> set (du_payments d). pay_id p < newID j) \<and> (\<forall>i \<ge> k. \<forall>j > i. newID i < newID j)"

lemma find_key:
  assumes "distinct (map g xs)" "x \<in> set xs" "g x = i" "P x"
  shows "find (\<lambda>y. g y = i \<and> P y) xs = Some x"
  using assms by (induction xs) (auto simp: image_iff)

lemma find_key': "distinct (map g xs) \<Longrightarrow> x \<in> set xs \<Longrightarrow> g x = i \<Longrightarrow> find (\<lambda>y. g y = i) xs = Some x"
  using find_key [of g xs x i "\<lambda>_. True"] by simp

lemma find_key_rev: "distinct (map g xs) \<Longrightarrow> x \<in> set xs \<Longrightarrow> g x = i \<Longrightarrow> find (\<lambda>y. g y = i) (rev xs) = Some x"
  by (rule find_key') (simp_all flip: rev_map)

lemma filter_key: "distinct (map g xs) \<Longrightarrow> x \<in> set xs \<Longrightarrow> g x = i \<Longrightarrow> P x \<Longrightarrow> filter (\<lambda>y. P y \<and> g y = i) xs = [x]"
proof (induction xs)
  case (Cons a xs)
  show ?case
  proof (cases "a = x")
    case True
    then have "filter (\<lambda>y. P y \<and> g y = i) xs = []" using Cons.prems by (auto simp: filter_empty_conv image_iff)
    then show ?thesis using True Cons.prems by simp
  next
    case False
    then show ?thesis using Cons by (auto simp: image_iff)
  qed
qed simp

lemma fee_live_iff: "dues_ok d \<Longrightarrow> fee_live d i = Some f \<longleftrightarrow> f \<in> set (du_fees d) \<and> f_id f = i \<and> \<not> f_deleted f"
  using find_key [of f_id "du_fees d" f i "\<lambda>f. \<not> f_deleted f"] find_SomeD [of _ "du_fees d" f] by (auto simp: fee_live_def dues_ok_def)

lemma txn_live_iff: "dues_ok d \<Longrightarrow> txn_live d i = Some t \<longleftrightarrow> t \<in> set (du_txns d) \<and> t_id t = i \<and> \<not> t_deleted t"
  using find_key [of t_id "du_txns d" t i "\<lambda>t. \<not> t_deleted t"] find_SomeD [of _ "du_txns d" t] by (auto simp: txn_live_def dues_ok_def)

subsection \<open>The rows of the queries\<close>

lemma set_reconcileFees: "set (reconcileFees d ids) = snd ` (\<Union>f \<in> set (du_fees d). set (recon_of d ids f))"
  by (simp add: reconcileFees_def)

lemma fee_view_simps [simp]:
  "rf_ID (fee_view d m f) = f_id f" "rf_Member (fee_view d m f) = m" "rf_AmountCents (fee_view d m f) = f_amount f"
  "rf_DueDate (fee_view d m f) = f_due f" "rf_PaidDate (fee_view d m f) = f_paid f" "rf_InCollection (fee_view d m f) = inCollection d (f_id f)"
  "rf_PaidCents (fee_view d m f) = (if f_paid f \<noteq> None then f_amount f else paidSinceReturn (links d (f_id f)))"
  by (simp_all add: fee_view_def)

lemma recon_of_value:
  "recon_of d None f = (case member_live d (f_member f) of None \<Rightarrow> []
     | Some m \<Rightarrow> if f_deleted f then [] else [(due_key m (f_due f) (f_id f), fee_view d m f)])"
  "recon_of d (Some is) f = (if f_id f \<in> set is then recon_of d None f else [])"
  by (auto simp: recon_of_def List.member_iff split: option.splits)

lemma recon_of_set:
  "snd ` set (recon_of d None f) = {r. \<exists>m. \<not> f_deleted f \<and> member_live d (f_member f) = Some m \<and> r = fee_view d m f}"
  by (cases "member_live d (f_member f)") (auto simp: recon_of_value)

lemma ReconcileFees_iff:
  "r \<in> set (ReconcileFees d) \<longleftrightarrow> (\<exists>f \<in> set (du_fees d). \<exists>m. \<not> f_deleted f \<and> member_live d (f_member f) = Some m \<and> r = fee_view d m f)"
  by (auto simp: ReconcileFees_def set_reconcileFees image_UN recon_of_set)

lemma reconcileFees_ids: "r \<in> set (reconcileFees d (Some is)) \<longleftrightarrow> r \<in> set (ReconcileFees d) \<and> rf_ID r \<in> set is"
proof -
  have "snd ` set (recon_of d (Some is) f) = (if f_id f \<in> set is then snd ` set (recon_of d None f) else {})" for f
    by (simp add: recon_of_value(2))
  then show ?thesis unfolding ReconcileFees_iff by (auto simp: set_reconcileFees image_UN recon_of_set split: if_splits)
qed

lemma recon_of_keys:
  "map (\<lambda>q. rf_ID (snd q)) (concat (map (recon_of d ids) fs)) = map f_id (filter (\<lambda>f. recon_of d ids f \<noteq> []) fs)"
proof (induction fs)
  case (Cons f fs)
  then show ?case by (cases ids) (auto simp: recon_of_value split: option.splits)
qed simp

lemma reconcileFees_keys:
  "distinct (map f_id (du_fees d)) \<Longrightarrow> distinct (map rf_ID (reconcileFees d ids))"
  using distinct_sort_map [of "\<lambda>q. rf_ID (snd q)" fst "concat (map (recon_of d ids) (du_fees d))"]
  by (simp add: reconcileFees_def comp_def recon_of_keys distinct_map_filter)

lemma sum_list_sort: "sum_list (map g (sort_key k xs)) = sum_list (map g xs)" for g :: "'a \<Rightarrow> int"
  unfolding sum_mset_sum_list [symmetric] mset_map mset_sort ..

lemma paidSinceReturn_nonneg: "0 \<le> paidSinceReturn ps"
  unfolding paidSinceReturn_def by (intro sum_list_nonneg) auto

lemma ReconcileFees_sum:
  "sum_list (map (\<lambda>r. max 0 (rf_AmountCents r)) (ReconcileFees d)) \<le> sum_list (map (\<lambda>f. max 0 (f_amount f)) (du_fees d))"
proof -
  have "sum_list (map (\<lambda>q. max 0 (rf_AmountCents (snd q))) (concat (map (recon_of d None) fs))) \<le> sum_list (map (\<lambda>f. max 0 (f_amount f)) fs)" for fs
  proof (induction fs)
    case (Cons f fs)
    then show ?case by (auto simp: recon_of_value split: option.splits)
  qed simp
  then show ?thesis by (simp add: ReconcileFees_def reconcileFees_def comp_def sum_list_sort)
qed

lemma ReconcileMembers_keys: "dues_ok d \<Longrightarrow> distinct (map py_ID (ReconcileMembers d))"
  by (simp add: ReconcileMembers_def Let_def comp_def distinct_sort_map dues_ok_def distinct_map_filter)

subsection \<open>Entries\<close>

definition all_payments :: "dues \<Rightarrow> fee_payment list" where
  "all_payments d = feePayments d (\<lambda>p m. True)"

lemma feePayments_txn: "feePayments d (\<lambda>p m. pay_txn p = i) = filter (\<lambda>p. fp_TransactionID p = i) (all_payments d)"
proof -
  have "payment_of d (\<lambda>p m. pay_txn p = i) p = filter (\<lambda>q. fp_TransactionID (snd q) = i) (payment_of d (\<lambda>p m. True) p)" for p
    by (auto simp: payment_of_def split: option.splits)
  then have "concat (map (payment_of d (\<lambda>p m. pay_txn p = i)) ps)
      = filter (\<lambda>q. fp_TransactionID (snd q) = i) (concat (map (payment_of d (\<lambda>p m. True)) ps))" for ps
    by (induction ps) simp_all
  then show ?thesis by (simp add: all_payments_def feePayments_def filter_map comp_def filter_sort)
qed

definition entry_view :: "dues \<Rightarrow> txn_row \<Rightarrow> entry_row \<Rightarrow> recon_entry" where
  "entry_view d t b =
     \<lparr>re_TransactionID = t_id t, re_Date = t_date t, re_Description = t_description t, re_AmountCents = t_amount t,
      re_Type = t_type t, re_Bank = tb_bank b, re_DismissedAt = tb_dismissed b,
      re_Payments = filter (\<lambda>p. fp_TransactionID p = t_id t) (all_payments d)\<rparr>"

lemma entry_view_simps [simp]:
  "re_TransactionID (entry_view d t b) = t_id t" "re_AmountCents (entry_view d t b) = t_amount t" "re_Type (entry_view d t b) = t_type t"
  "re_Bank (entry_view d t b) = tb_bank b" "re_DismissedAt (entry_view d t b) = tb_dismissed b"
  "re_Payments (entry_view d t b) = filter (\<lambda>p. fp_TransactionID p = t_id t) (all_payments d)"
  by (simp_all add: entry_view_def)

definition bank_of :: "dues \<Rightarrow> string \<Rightarrow> entry_row option" where
  "bank_of d i = find (\<lambda>b. tb_txn b = i \<and> \<not> tb_deleted b) (du_entries d)"

lemma entry_of_value: "entry_of d (all_payments d) t = (case bank_of d (t_id t) of None \<Rightarrow> [] | Some b \<Rightarrow> [entry_view d t b])"
  by (simp add: entry_of_def bank_of_def entry_view_def split: option.split)

lemma entries_iff:
  "e \<in> set (reconciliationEntries d '''') \<longleftrightarrow> (\<exists>t \<in> set (du_txns d). \<exists>b. \<not> t_deleted t \<and> bank_of d (t_id t) = Some b \<and> e = entry_view d t b)"
  by (auto simp: reconciliationEntries_def all_payments_def [symmetric] entry_of_value split: option.splits) metis

lemma loadEntry_value:
  assumes "dues_ok d" "i \<noteq> ''''"
  shows "loadEntry d i = (case txn_live d i of None \<Rightarrow> Inl DNotFound
    | Some t \<Rightarrow> (case bank_of d i of None \<Rightarrow> Inl DNotFound | Some b \<Rightarrow> Inr (entry_view d t b)))"
proof -
  have e: "reconciliationEntries d i =
      concat (map (entry_of d (filter (\<lambda>p. fp_TransactionID p = i) (all_payments d)))
        (rev (sort_key (\<lambda>t. (t_date t, t_id t)) (filter (\<lambda>t. \<not> t_deleted t \<and> t_id t = i) (du_txns d)))))"
    using assms(2) by (simp add: reconciliationEntries_def feePayments_txn)
  have "entry_of d (filter (\<lambda>p. fp_TransactionID p = t_id t) (all_payments d)) t = entry_of d (all_payments d) t" for t
    by (simp add: entry_of_def split: option.split)
  then have eo: "entry_of d (filter (\<lambda>p. fp_TransactionID p = i) (all_payments d)) t = (case bank_of d i of None \<Rightarrow> [] | Some b \<Rightarrow> [entry_view d t b])"
    if "t_id t = i" for t using that entry_of_value by metis
  show ?thesis
  proof (cases "txn_live d i")
    case None
    then have "filter (\<lambda>t. \<not> t_deleted t \<and> t_id t = i) (du_txns d) = []"
      by (auto simp: txn_live_def find_None_iff filter_empty_conv)
    then show ?thesis using None e by (simp add: loadEntry_def)
  next
    case (Some t)
    then have t: "t \<in> set (du_txns d)" "t_id t = i" "\<not> t_deleted t" using txn_live_iff assms(1) by auto
    then have "filter (\<lambda>t. \<not> t_deleted t \<and> t_id t = i) (du_txns d) = [t]"
      using assms(1) by (intro filter_key) (auto simp: dues_ok_def)
    then show ?thesis using Some e eo [OF t(2)] by (simp add: loadEntry_def split: option.split)
  qed
qed

lemma loadEntry_entry:
  assumes "dues_ok d" "e \<in> set (reconciliationEntries d '''')"
  shows "loadEntry d (re_TransactionID e) = Inr e" "re_TransactionID e \<noteq> ''''"
proof -
  obtain t b where t: "t \<in> set (du_txns d)" "\<not> t_deleted t" "bank_of d (t_id t) = Some b" "e = entry_view d t b"
    using assms(2) unfolding entries_iff by blast
  show ne: "re_TransactionID e \<noteq> ''''" using assms(1) t(4) imageI [OF t(1), of t_id] by (auto simp: dues_ok_def)
  have "txn_live d (t_id t) = Some t" using t txn_live_iff [OF assms(1)] by simp
  then show "loadEntry d (re_TransactionID e) = Inr e" using loadEntry_value [OF assms(1) ne] t by simp
qed

subsection \<open>A suggestion can be confirmed\<close>

lemma check_allocations_ok:
  assumes "list_all (\<lambda>a. 0 < al_AmountCents a) as" "distinct (map al_FeeID as)" "set (map al_FeeID as) \<inter> set seen = {}"
    "0 \<le> tot" "tot + sum_list (map al_AmountCents as) < 2 ^ 63"
  shows "check_allocations as seen tot = Inr (tot + sum_list (map al_AmountCents as))"
  using assms
proof (induction as arbitrary: seen tot)
  case (Cons a as)
  have "0 \<le> sum_list (map al_AmountCents as)" using Cons.prems(1) by (intro sum_list_nonneg) (auto simp: list_all_iff)
  then have "i64 (tot + al_AmountCents a) = tot + al_AmountCents a" using Cons.prems by (intro i64_id) auto
  then show ?case using Cons.IH [of "al_FeeID a # seen" "tot + al_AmountCents a"] Cons.prems by (auto simp: List.member_iff algebra_simps)
qed simp

lemma fee_candidates_ok:
  assumes "dues_ok d"
  shows "fees_ok (fee_candidates r (ReconcileFees d))"
proof -
  have nn: "0 \<le> rf_PaidCents f \<or> rf_PaidDate f \<noteq> None" if "f \<in> set (ReconcileFees d)" for f
    using that paidSinceReturn_nonneg by (auto simp: ReconcileFees_iff)
  have "map df_ID (fee_candidates r fs) = map rf_ID (filter (\<lambda>f. fee_candidates r [f] \<noteq> []) fs)" for fs
    by (induction fs) (auto simp: fee_candidates_def Let_def)
  then have "distinct (map df_ID (fee_candidates r (ReconcileFees d)))"
    using reconcileFees_keys [of d None] assms by (simp add: ReconcileFees_def dues_ok_def distinct_map_filter)
  moreover have "list_all (\<lambda>f. df_AmountCents f > 0) (fee_candidates r fs)" for fs
    by (induction fs) (auto simp: fee_candidates_def Let_def)
  moreover have "sum_list (map df_AmountCents (fee_candidates r fs)) \<le> sum_list (map (\<lambda>f. max 0 (rf_AmountCents f)) fs)"
    if "list_all (\<lambda>f. 0 \<le> rf_PaidCents f \<or> rf_PaidDate f \<noteq> None) fs" for fs
    using that
  proof (induction fs)
    case (Cons f fs)
    have "sum_list (map df_AmountCents (fee_candidates r [f])) \<le> max 0 (rf_AmountCents f)"
      using Cons.prems by (auto simp: fee_candidates_def Let_def rf_Open_def)
    then show ?case using Cons by (simp add: fee_candidates_def)
  qed (simp add: fee_candidates_def)
  moreover have "list_all (\<lambda>f. 0 \<le> rf_PaidCents f \<or> rf_PaidDate f \<noteq> None) (ReconcileFees d)" using nn by (auto simp: list_all_iff)
  ultimately show ?thesis using ReconcileFees_sum [of d] assms unfolding fees_ok_def dues_ok_def by fastforce
qed

lemma suggest_Match:
  assumes "suggest T e fs ms = Some s"
  obtains b where "re_Open e" "be_AmountCents b = re_AmountCents e" "Match T b ms (fee_candidates (bk_IsReturn (re_Bank e)) fs) = Some s"
  by (rule that [of "match_entry e"]) (use assms in \<open>auto simp: suggest_def match_entry_def Let_def split: if_splits\<close>)

lemma takes_candidate:
  assumes "dues_ok d" "f \<in> set (fee_candidates r (ReconcileFees d))" "df_ID f = al_FeeID a" "al_AmountCents a \<le> df_AmountCents f"
    "0 < al_AmountCents a" "al_FeeID a \<in> set ids"
  shows "takes r (reconcileFees d (Some ids)) a"
proof -
  obtain q where q: "q \<in> set (ReconcileFees d)" "f \<in> set (fee_candidates r [q])"
    using assms(2) unfolding fee_candidates_def by auto
  then have i: "rf_ID q = al_FeeID a" using assms(3) by (auto simp: fee_candidates_def Let_def split: if_splits)
  then have "q \<in> set (reconcileFees d (Some ids))" using q(1) assms(6) by (simp add: reconcileFees_ids)
  then have "find (\<lambda>f. rf_ID f = al_FeeID a) (rev (reconcileFees d (Some ids))) = Some q"
    using assms(1) i by (intro find_key_rev reconcileFees_keys) (auto simp: dues_ok_def)
  then show ?thesis using q(2) assms(4,5) by (auto simp: takes_def fee_candidates_def Let_def split: if_splits)
qed

lemma suggestion_allocations:
  assumes "dues_ok d" "e \<in> set (reconciliationEntries d '''')" "suggest T e (ReconcileFees d) (ReconcileMembers d) = Some s"
  shows "re_Open e" "sg_Allocations s \<noteq> []"
    "check_allocations (sg_Allocations s) [] 0 = Inr (sum_list (map al_AmountCents (sg_Allocations s)))"
    "sum_list (map al_AmountCents (sg_Allocations s)) \<le> re_AmountCents e"
    "list_all (takes (bk_IsReturn (re_Bank e)) (reconcileFees d (Some (map al_FeeID (sg_Allocations s))))) (sg_Allocations s)"
    "list_all (\<lambda>a. 0 < al_AmountCents a) (sg_Allocations s)" "distinct (map al_FeeID (sg_Allocations s))"
proof -
  define fs where "fs = fee_candidates (bk_IsReturn (re_Bank e)) (ReconcileFees d)"
  obtain b where b: "re_Open e" "be_AmountCents b = re_AmountCents e" "Match T b (ReconcileMembers d) fs = Some s"
    using suggest_Match [OF assms(3)] unfolding fs_def by metis
  have lim: "re_AmountCents e < 2 ^ 63" using assms(1,2) by (auto simp: dues_ok_def entries_iff list_all_iff)
  have "covers b fs s" "sg_Allocations s \<noteq> []"
    using Match_covers [OF fee_candidates_ok [OF assms(1)] ReconcileMembers_keys [OF assms(1)] _ b(3) [unfolded fs_def]] lim b(2)
    unfolding fs_def by simp_all
  then have c: "sum_list (map al_AmountCents (sg_Allocations s)) \<le> re_AmountCents e" "distinct (map al_FeeID (sg_Allocations s))"
      "\<And>a. a \<in> set (sg_Allocations s) \<Longrightarrow> \<exists>f \<in> set fs. df_ID f = al_FeeID a \<and> 0 < al_AmountCents a \<and> al_AmountCents a \<le> df_AmountCents f"
    using b(2) by (auto simp: covers_def list_all_iff list_ex_iff)
  then have pos: "list_all (\<lambda>a. 0 < al_AmountCents a) (sg_Allocations s)" by (auto simp: list_all_iff)
  show "re_Open e" "sg_Allocations s \<noteq> []" "sum_list (map al_AmountCents (sg_Allocations s)) \<le> re_AmountCents e"
      "list_all (\<lambda>a. 0 < al_AmountCents a) (sg_Allocations s)" "distinct (map al_FeeID (sg_Allocations s))" by fact+
  show "check_allocations (sg_Allocations s) [] 0 = Inr (sum_list (map al_AmountCents (sg_Allocations s)))"
    using check_allocations_ok [OF pos c(2), of "[]" 0] c(1) lim by simp
  show "list_all (takes (bk_IsReturn (re_Bank e)) (reconcileFees d (Some (map al_FeeID (sg_Allocations s))))) (sg_Allocations s)"
    unfolding list_all_iff
  proof
    fix a assume a: "a \<in> set (sg_Allocations s)"
    then obtain f where "f \<in> set fs" "df_ID f = al_FeeID a" "0 < al_AmountCents a" "al_AmountCents a \<le> df_AmountCents f" using c(3) by blast
    then show "takes (bk_IsReturn (re_Bank e)) (reconcileFees d (Some (map al_FeeID (sg_Allocations s)))) a"
      using a by (intro takes_candidate [OF assms(1), of f]) (auto simp: fs_def)
  qed
qed

subsection \<open>What a confirmation changes\<close>

text \<open>A fee apart from its paid date.\<close>

definition strip :: "fee_row \<Rightarrow> fee_row" where
  "strip f = f\<lparr>f_paid := None\<rparr>"

definition same_fees :: "dues \<Rightarrow> dues \<Rightarrow> bool" where
  "same_fees d d' \<longleftrightarrow> map strip (du_fees d') = map strip (du_fees d)"

lemma strip_simps [simp]:
  "f_id (strip f) = f_id f" "f_member (strip f) = f_member f" "f_amount (strip f) = f_amount f" "f_due (strip f) = f_due f"
  "f_description (strip f) = f_description f" "f_year (strip f) = f_year f" "f_deleted (strip f) = f_deleted f"
  by (simp_all add: strip_def)

lemma same_fees_map:
  assumes "same_fees d d'" "\<And>f. g (strip f) = g f"
  shows "map g (du_fees d') = map g (du_fees d)"
proof -
  have "map g (du_fees d') = map g (map strip (du_fees d'))" using assms(2) by simp
  also have "\<dots> = map g (map strip (du_fees d))" using assms(1) by (simp add: same_fees_def)
  finally show ?thesis using assms(2) by simp
qed

lemma same_fees_refl: "same_fees d d" and same_fees_trans: "same_fees d d' \<Longrightarrow> same_fees d' d'' \<Longrightarrow> same_fees d d''"
  by (simp_all add: same_fees_def)

lemma same_fees_set_paid: "same_fees d (set_paid i v d)"
  by (auto simp: same_fees_def set_paid_def strip_def)

lemma same_fees_settleFee: "same_fees d (settleFee now i d)"
  using settleFee_cases [of now i d] same_fees_set_paid same_fees_refl by auto

lemma same_fees_settle_all: "same_fees d (settle_all now is d)"
proof (induction "is" arbitrary: d)
  case (Cons i "is")
  show ?case by simp (rule same_fees_trans [OF same_fees_settleFee Cons.IH])
qed (simp add: same_fees_refl)

lemma find_map_strip: "map_option strip (find P xs) = find P (map strip xs)" if "\<And>f. P (strip f) = P f" for xs
  using that by (induction xs) auto

lemma same_fees_live: "same_fees d d' \<Longrightarrow> map_option strip (fee_live d' i) = map_option strip (fee_live d i)"
  by (simp add: fee_live_def find_map_strip same_fees_def)

lemma payment_of_cong:
  assumes "same_fees d d'" "du_members d' = du_members d" "du_txns d' = du_txns d"
  shows "payment_of d' = payment_of d"
proof (intro ext)
  fix sel p
  have m: "member_any d' = member_any d" "txn_live d' = txn_live d" using assms(2,3) by (auto simp: member_any_def txn_live_def)
  show "payment_of d' sel p = payment_of d sel p"
  proof (cases "fee_live d (pay_fee p)")
    case None
    then have "fee_live d' (pay_fee p) = None" using same_fees_live [OF assms(1), of "pay_fee p"] by simp
    then show ?thesis using None by (simp add: payment_of_def)
  next
    case (Some f)
    then obtain f' where f': "fee_live d' (pay_fee p) = Some f'" "strip f' = strip f"
      using same_fees_live [OF assms(1), of "pay_fee p"] by auto
    have "f_member f' = f_member f" "f_due f' = f_due f" "f_year f' = f_year f" "f_description f' = f_description f"
      using arg_cong [OF f'(2), of f_member] arg_cong [OF f'(2), of f_due] arg_cong [OF f'(2), of f_year] arg_cong [OF f'(2), of f_description]
      by simp_all
    then show ?thesis using Some f'(1) m by (simp add: payment_of_def split: option.split)
  qed
qed

lemma all_payments_cong:
  assumes "same_fees d d'" "du_members d' = du_members d" "du_txns d' = du_txns d" "du_payments d' = du_payments d @ ps"
  shows "mset (all_payments d') = mset (all_payments d) + mset (map snd (concat (map (payment_of d (\<lambda>p m. True)) ps)))"
  using payment_of_cong [OF assms(1-3)] assms(4) by (simp add: all_payments_def feePayments_def)

text \<open>A successful confirmation.\<close>

lemma insert_payments_ok:
  "fresh_ids newID k d \<Longrightarrow> insert_payments newID k txn r fs as d = Inr (d\<lparr>du_payments := du_payments d @ new_payments newID k txn r fs as\<rparr>)"
proof (induction as arbitrary: k d)
  case (Cons a as)
  let ?d = "d\<lparr>du_payments := du_payments d @ [new_payment (newID k) txn r fs a]\<rparr>"
  have "\<not> list_ex (\<lambda>q. pay_id q = newID k) (du_payments d)"
    using Cons.prems by (force simp: fresh_ids_def list_ex_iff)
  then have "insert_payment (new_payment (newID k) txn r fs a) d = Inr ?d"
    by (simp add: insert_payment_def new_payment_def)
  moreover have "fresh_ids newID (Suc k) ?d"
    using Cons.prems by (auto simp: fresh_ids_def new_payment_def)
  ultimately show ?case using Cons.IH by simp
qed simp

definition confirmed :: "(nat \<Rightarrow> string) \<Rightarrow> nat \<Rightarrow> stamp \<Rightarrow> recon_entry \<Rightarrow> allocation list \<Rightarrow> dues \<Rightarrow> dues" where
  "confirmed newID k now e as d =
     (let txn = re_TransactionID e; fs = reconcileFees d (Some (map al_FeeID as));
          d1 = d\<lparr>du_payments := du_payments d @ new_payments newID k txn (bk_IsReturn (re_Bank e)) fs as\<rparr>;
          d2 = (if re_DismissedAt e \<noteq> None then set_dismissed txn (\<lambda>b. True) None d1 else d1) in
      settle_all now (map al_FeeID as) d2)"

lemma confirmed_simps:
  "du_members (confirmed newID k now e as d) = du_members d" "du_txns (confirmed newID k now e as d) = du_txns d"
  "du_bank (confirmed newID k now e as d) = du_bank d" "du_items (confirmed newID k now e as d) = du_items d"
  "du_runs (confirmed newID k now e as d) = du_runs d"
  "du_households (confirmed newID k now e as d) = du_households d" "du_household_members (confirmed newID k now e as d) = du_household_members d"
  "du_payments (confirmed newID k now e as d) = du_payments d
     @ new_payments newID k (re_TransactionID e) (bk_IsReturn (re_Bank e)) (reconcileFees d (Some (map al_FeeID as))) as"
  by (simp_all add: confirmed_def Let_def)

lemma same_fees_confirmed: "same_fees d (confirmed newID k now e as d)"
proof -
  have "same_fees d d2 \<Longrightarrow> same_fees d (settle_all now is d2)" for d2 "is"
    using same_fees_trans same_fees_settle_all by blast
  moreover have "same_fees d (if c then set_dismissed i s v d1 else d1)" if "du_fees d1 = du_fees d" for c i s v d1
    using that by (simp add: same_fees_def)
  ultimately show ?thesis unfolding confirmed_def Let_def by simp
qed

lemma entry_ids_confirmed: "entry_ids (confirmed newID k now e as d) = entry_ids d"
proof -
  have "entry_ids (settle_all now is d2) = entry_ids d2" for d2 "is" by (rule entry_ids_cong) simp_all
  moreover have "entry_ids (if c then set_dismissed i s v d1 else d1) = entry_ids d1" for c i s v d1 by simp
  moreover have "entry_ids (d\<lparr>du_payments := ps\<rparr>) = entry_ids d" for ps by (rule entry_ids_cong) simp_all
  ultimately show ?thesis unfolding confirmed_def Let_def by metis
qed

lemma dues_ok_confirmed:
  assumes "dues_ok d" "fresh_ids newID k d"
  shows "dues_ok (confirmed newID k now e as d)"
proof -
  let ?d = "confirmed newID k now e as d"
  note sf = same_fees_map [OF same_fees_confirmed [of d newID k now e as]]
  have f: "map f_id (du_fees ?d) = map f_id (du_fees d)" "map (\<lambda>f. max 0 (f_amount f)) (du_fees ?d) = map (\<lambda>f. max 0 (f_amount f)) (du_fees d)"
      "map (\<lambda>f. member_any d (f_member f)) (du_fees ?d) = map (\<lambda>f. member_any d (f_member f)) (du_fees d)"
    by (rule sf, simp)+
  have m: "member_any ?d = member_any d" by (auto simp: member_any_def confirmed_simps)
  have "list_all (\<lambda>v. v \<noteq> None) (map (\<lambda>f. member_any d (f_member f)) (du_fees ?d))"
    unfolding f(3) using assms(1) by (simp add: dues_ok_def list_all_iff)
  then have fk: "list_all (\<lambda>f. member_any ?d (f_member f) \<noteq> None) (du_fees ?d)" by (simp add: list_all_iff m)
  have "map tb_txn (du_entries (set_dismissed i s v x)) = map tb_txn (du_entries x)" for i s v x by (simp add: set_dismissed_def)
  then have e: "map tb_txn (du_entries ?d) = map tb_txn (du_entries d)" by (simp add: confirmed_def Let_def)
  have "distinct (map newID [k..<k + length as])"
    using assms(2) by (auto simp: distinct_map inj_on_def fresh_ids_def) (metis linorder_neqE_nat order_less_irrefl)
  moreover have "set (map pay_id (du_payments d)) \<inter> newID ` {k..<k + length as} = {}"
    using assms(2) by (auto simp: fresh_ids_def) (metis order_less_irrefl)
  ultimately have p: "distinct (map pay_id (du_payments ?d))"
    using assms(1) by (simp add: confirmed_simps new_payments_map dues_ok_def)
  show ?thesis using assms(1) p e fk f unfolding dues_ok_def by (simp add: confirmed_simps)
qed

lemma fresh_ids_confirmed: "fresh_ids newID k d \<Longrightarrow> fresh_ids newID (k + length as) (confirmed newID k now e as d)"
proof -
  assume f: "fresh_ids newID k d"
  have "pay_id p \<in> newID ` {k..<k + length as}" if "p \<in> set (new_payments newID k txn r fs as)" for p txn r fs
    using arg_cong [OF new_payments_map(3) [of newID k txn r fs as], of set] that by auto
  then show ?thesis using f by (fastforce simp: fresh_ids_def confirmed_simps)
qed

lemma loadEntry_ids: "dues_ok d \<Longrightarrow> i \<in> entry_ids d \<Longrightarrow> i \<noteq> '''' \<and> (\<exists>e \<in> set (reconciliationEntries d ''''). re_TransactionID e = i \<and> loadEntry d i = Inr e)"
  using loadEntry_entry by (auto simp: entry_ids_def)

lemma Confirm_ok:
  assumes "dues_ok d" "fresh_ids newID k d" "e \<in> set (reconciliationEntries d '''')" "re_Open e" "as \<noteq> []"
    "check_allocations as [] 0 = Inr tot" "tot \<le> re_AmountCents e"
    "list_all (takes (bk_IsReturn (re_Bank e)) (reconcileFees d (Some (map al_FeeID as)))) as"
  obtains e' where "ConfirmReconciliation newID k now (re_TransactionID e) as d = Inr (e', confirmed newID k now e as d)"
    "e' \<in> set (reconciliationEntries (confirmed newID k now e as d) '''')" "re_TransactionID e' = re_TransactionID e"
proof -
  let ?d = "confirmed newID k now e as d"
  have "re_TransactionID e \<in> entry_ids ?d" using assms(3) by (simp add: entry_ids_confirmed) (simp add: entry_ids_def)
  then obtain e' where e': "e' \<in> set (reconciliationEntries ?d '''')" "re_TransactionID e' = re_TransactionID e"
      "loadEntry ?d (re_TransactionID e) = Inr e'"
    using loadEntry_ids [OF dues_ok_confirmed [OF assms(1,2)]] by blast
  have open_: "re_Payments e = []" "(re_Type e \<noteq> ''income'' \<and> \<not> bk_IsReturn (re_Bank e)) = False" using assms(4) by (auto simp: re_Open_def)
  have ok: "filter (\<lambda>a. \<not> takes (bk_IsReturn (re_Bank e)) (reconcileFees d (Some (map al_FeeID as))) a) as = []"
    using assms(8) by (simp add: list_all_iff filter_empty_conv)
  have "ConfirmReconciliation newID k now (re_TransactionID e) as d = Inr (e', ?d)"
    using assms(5,7) e'(3)
    by (simp add: ConfirmReconciliation_def loadEntry_entry [OF assms(1,3)] open_ assms(6) ok insert_payments_ok [OF assms(2)] Let_def confirmed_def)
  then show thesis using that e'(1,2) by blast
qed

text \<open>The payments of the entry afterwards are those of the allocations.\<close>

lemma new_payment_rows:
  assumes "dues_ok d" "list_all (takes r (reconcileFees d (Some is))) as" "txn_live d txn \<noteq> None"
  shows "map (\<lambda>q. (fp_FeeID (snd q), fp_AmountCents (snd q), fp_TransactionID (snd q)))
      (concat (map (payment_of d (\<lambda>p m. True)) (new_payments newID k txn r fs as)))
    = map (\<lambda>a. (al_FeeID a, if r then - al_AmountCents a else al_AmountCents a, txn)) as"
  using assms(2)
proof (induction as arbitrary: k)
  case (Cons a as)
  obtain q where q: "find (\<lambda>f. rf_ID f = al_FeeID a) (rev (reconcileFees d (Some is))) = Some q"
    using Cons.prems by (auto simp: takes_def split: option.splits)
  then have "q \<in> set (ReconcileFees d)" "rf_ID q = al_FeeID a" using find_SomeD [OF q] by (simp_all add: reconcileFees_ids)
  then obtain f m where f: "f \<in> set (du_fees d)" "\<not> f_deleted f" "f_id f = al_FeeID a"
    unfolding ReconcileFees_iff by auto
  then have "fee_live d (al_FeeID a) = Some f" using fee_live_iff [OF assms(1)] by blast
  moreover obtain m where "member_any d (f_member f) = Some m" using assms(1) f(1) by (auto simp: dues_ok_def list_all_iff)
  ultimately have "payment_of d (\<lambda>p m. True) (new_payment (newID k) txn r fs a)
      = [(due_key m (f_due f) (newID k), \<lparr>fp_ID = newID k, fp_FeeID = al_FeeID a, fp_TransactionID = txn, fp_Member = m,
          fp_FeeYear = f_year f, fp_FeeDesc = f_description f, fp_AmountCents = (if r then - al_AmountCents a else al_AmountCents a)\<rparr>)]"
    using assms(3) by (simp add: payment_of_def new_payment_def)
  then show ?case using Cons by simp
qed simp

lemma confirmed_payments:
  assumes "dues_ok d" "fresh_ids newID k d" "e \<in> set (reconciliationEntries d '''')"
    "list_all (takes (bk_IsReturn (re_Bank e)) (reconcileFees d (Some (map al_FeeID as)))) as"
    "e' \<in> set (reconciliationEntries (confirmed newID k now e as d) '''')"
  shows "mset (map (\<lambda>p. (fp_FeeID p, fp_AmountCents p)) (re_Payments e'))
    = mset (map (\<lambda>p. (fp_FeeID p, fp_AmountCents p)) (filter (\<lambda>p. fp_TransactionID p = re_TransactionID e') (all_payments d)))
      + (if re_TransactionID e' = re_TransactionID e
         then mset (map (\<lambda>a. (al_FeeID a, if bk_IsReturn (re_Bank e) then - al_AmountCents a else al_AmountCents a)) as) else {#})"
proof -
  let ?d = "confirmed newID k now e as d" and ?r = "bk_IsReturn (re_Bank e)" and ?i = "re_TransactionID e"
  let ?g = "\<lambda>p. (fp_FeeID p, fp_AmountCents p)" and ?P = "\<lambda>p. fp_TransactionID p = re_TransactionID e'"
  define new where "new = map snd (concat (map (payment_of d (\<lambda>p m. True))
    (new_payments newID k ?i ?r (reconcileFees d (Some (map al_FeeID as))) as)))"
  have all: "mset (all_payments ?d) = mset (all_payments d) + mset new"
    unfolding new_def by (rule all_payments_cong [OF same_fees_confirmed]) (simp_all add: confirmed_simps)
  have "txn_live d ?i \<noteq> None" using assms(1,3) txn_live_iff [OF assms(1)] by (auto simp: entries_iff)
  note rows = new_payment_rows [OF assms(1,4) this, of newID k "reconcileFees d (Some (map al_FeeID as))"]
  have new: "map (\<lambda>p. (fp_FeeID p, fp_AmountCents p, fp_TransactionID p)) new
      = map (\<lambda>a. (al_FeeID a, if ?r then - al_AmountCents a else al_AmountCents a, ?i)) as"
    using rows by (simp add: new_def comp_def)
  have "map ?g new = map (\<lambda>(x, y, z). (x, y)) (map (\<lambda>p. (fp_FeeID p, fp_AmountCents p, fp_TransactionID p)) new)" by simp
  also have "\<dots> = map (\<lambda>a. (al_FeeID a, if ?r then - al_AmountCents a else al_AmountCents a)) as" unfolding new by simp
  finally have g: "map ?g new = map (\<lambda>a. (al_FeeID a, if ?r then - al_AmountCents a else al_AmountCents a)) as" .
  have "map fp_TransactionID new = map (\<lambda>(x, y, z). z) (map (\<lambda>p. (fp_FeeID p, fp_AmountCents p, fp_TransactionID p)) new)" by simp
  also have "\<dots> = map (\<lambda>a. ?i) as" unfolding new by simp
  finally have "map fp_TransactionID new = map (\<lambda>a. ?i) as" .
  then have "set (map fp_TransactionID new) \<subseteq> {?i}" by auto
  then have f: "filter ?P new = (if re_TransactionID e' = ?i then new else [])"
    by (auto simp: filter_id_conv filter_empty_conv)
  have "re_Payments e' = filter ?P (all_payments ?d)" using assms(5) by (auto simp: entries_iff)
  then have "mset (map ?g (re_Payments e')) = image_mset ?g (filter_mset ?P (mset (all_payments ?d)))" by (simp add: mset_filter)
  also have "\<dots> = mset (map ?g (filter ?P (all_payments d))) + mset (map ?g (filter ?P new))" unfolding all by (simp add: mset_filter)
  finally show ?thesis unfolding f using arg_cong [OF g, of mset] by simp
qed

text \<open>
  C22. A suggestion for an open entry can be confirmed as it stands: no check fails, and the entry then pays exactly the
  suggested parts of the suggested fees, as negative amounts for a returned debit.
\<close>

theorem suggestion_accepted:
  assumes "dues_ok d" "fresh_ids newID k d" "e \<in> set (reconciliationEntries d '''')"
    "suggest T e (ReconcileFees d) (ReconcileMembers d) = Some s"
  shows "case ConfirmReconciliation newID k now (re_TransactionID e) (sg_Allocations s) d of
      Inl err \<Rightarrow> False
    | Inr (e', d') \<Rightarrow> re_TransactionID e' = re_TransactionID e
        \<and> mset (map (\<lambda>p. (fp_FeeID p, fp_AmountCents p)) (re_Payments e'))
          = mset (map (\<lambda>a. (al_FeeID a, if bk_IsReturn (re_Bank e) then - al_AmountCents a else al_AmountCents a)) (sg_Allocations s))"
proof -
  note sa = suggestion_allocations [OF assms(1,3,4)]
  obtain e' where e': "ConfirmReconciliation newID k now (re_TransactionID e) (sg_Allocations s) d
        = Inr (e', confirmed newID k now e (sg_Allocations s) d)"
      "e' \<in> set (reconciliationEntries (confirmed newID k now e (sg_Allocations s) d) '''')" "re_TransactionID e' = re_TransactionID e"
    by (rule Confirm_ok [OF assms(1-3) sa(1-5)])
  have "filter (\<lambda>p. fp_TransactionID p = re_TransactionID e) (all_payments d) = []"
    using sa(1) assms(3) by (auto simp: re_Open_def entries_iff)
  then show ?thesis using confirmed_payments [OF assms(1-3) sa(5) e'(2)] e'(1,3) by simp
qed

subsection \<open>Confirming all certain suggestions\<close>

lemma next_certain_None:
  assumes "next_certain T ds d = None"
  shows "find (\<lambda>e. \<not> List.member ds (re_TransactionID e) \<and> is_certain T d e) (rev (reconciliationEntries d '''')) = None"
proof (rule ccontr)
  assume "\<not> ?thesis"
  then obtain x where x: "find (\<lambda>e. \<not> List.member ds (re_TransactionID e) \<and> is_certain T d e) (rev (reconciliationEntries d '''')) = Some x"
    by auto
  then have "is_certain T d x" using find_SomeD [OF x] by simp
  then obtain s where "suggest T x (ReconcileFees d) (ReconcileMembers d) = Some s" by (auto simp: is_certain_def split: option.splits)
  then show False using assms unfolding next_certain_def x by simp
qed

lemma confirm_certain_complete:
  assumes "dues_ok d" "fresh_ids newID k d"
    "\<forall>e \<in> set (reconciliationEntries d ''''). re_TransactionID e \<in> set ds \<longrightarrow> re_Payments e \<noteq> []"
  shows "\<exists>n' d'. confirm_certain T newID k now ds n d = (Inr n', d')
    \<and> (\<forall>e \<in> set (reconciliationEntries d' ''''). \<not> is_certain T d' e)"
  using assms
proof (induction T newID k now ds n d rule: confirm_certain.induct)
  case (1 T newID k now ds n d)
  show ?case
  proof (cases "next_certain T ds d")
    case None
    have "\<not> is_certain T d e" if e: "e \<in> set (reconciliationEntries d '''')" for e
    proof
      assume c: "is_certain T d e"
      then have "re_Open e" by (auto simp: is_certain_def suggest_def split: if_splits)
      then have "re_TransactionID e \<notin> set ds" using "1.prems"(3) e by (auto simp: re_Open_def)
      moreover have "find (\<lambda>e. \<not> List.member ds (re_TransactionID e) \<and> is_certain T d e) (rev (reconciliationEntries d '''')) = None"
        by (rule next_certain_None [OF None])
      ultimately show False using e c by (auto simp: find_None_iff List.member_iff)
    qed
    moreover have "confirm_certain T newID k now ds n d = (Inr n, d)" using None by (subst confirm_certain.simps) simp
    ultimately show ?thesis by blast
  next
    case (Some p)
    obtain e as where p: "p = (e, as)" by force
    note nc = Some [unfolded p]
    obtain s where s: "e \<in> set (reconciliationEntries d '''')" "re_TransactionID e \<notin> set ds"
        "suggest T e (ReconcileFees d) (ReconcileMembers d) = Some s" "sg_Confidence s = Certain" "as = sg_Allocations s"
      by (rule next_certain_Some [OF nc])
    note sa = suggestion_allocations [OF "1.prems"(1) s(1,3), folded s(5)]
    let ?d = "confirmed newID k now e as d"
    obtain e' where e': "ConfirmReconciliation newID k now (re_TransactionID e) as d = Inr (e', ?d)"
        "e' \<in> set (reconciliationEntries ?d '''')" "re_TransactionID e' = re_TransactionID e"
      by (rule Confirm_ok [OF "1.prems"(1,2) s(1) sa(1-5)])
    have ok: "dues_ok ?d" "fresh_ids newID (k + length as) ?d"
      by (rule dues_ok_confirmed [OF "1.prems"(1,2)], rule fresh_ids_confirmed [OF "1.prems"(2)])
    have "\<forall>x \<in> set (reconciliationEntries ?d ''''). re_TransactionID x \<in> set (re_TransactionID e # ds) \<longrightarrow> re_Payments x \<noteq> []"
    proof (intro ballI impI)
      fix x assume x: "x \<in> set (reconciliationEntries ?d '''')" "re_TransactionID x \<in> set (re_TransactionID e # ds)"
      note pay = confirmed_payments [OF "1.prems"(1,2) s(1) sa(5) x(1)]
      show "re_Payments x \<noteq> []"
      proof (cases "re_TransactionID x = re_TransactionID e")
        case True
        then show ?thesis using pay sa(2) by auto
      next
        case False
        have "re_TransactionID x \<in> entry_ids d" using x(1) entry_ids_confirmed [of newID k now e as d] by (auto simp: entry_ids_def)
        then obtain y where y: "y \<in> set (reconciliationEntries d '''')" "re_TransactionID y = re_TransactionID x"
          using loadEntry_ids [OF "1.prems"(1)] by blast
        then have "re_Payments y \<noteq> []" using "1.prems"(3) x(2) False by auto
        moreover have "re_Payments y = filter (\<lambda>p. fp_TransactionID p = re_TransactionID x) (all_payments d)"
          using y by (auto simp: entries_iff)
        ultimately show ?thesis using pay by auto
      qed
    qed
    from "1.IH" [OF nc refl e'(1) refl ok this] show ?thesis
      using e'(1) nc by (subst confirm_certain.simps) simp
  qed
qed

text \<open>
  C23. Confirming all certain suggestions ends, never fails, and leaves no entry whose suggestion is certain.
\<close>

theorem certain_confirmed:
  assumes "dues_ok d" "fresh_ids newID 0 d"
  shows "case ConfirmCertainReconciliations T newID now d of
      (Inl err, d') \<Rightarrow> False
    | (Inr n, d') \<Rightarrow> (\<forall>e \<in> set (reconciliationEntries d' ''''). \<not> is_certain T d' e)"
  using confirm_certain_complete [OF assms, of "[]" T now 0] by (auto simp: ConfirmCertainReconciliations_def)

subsection \<open>Confirming and reopening\<close>

text \<open>New paid dates for some fees.\<close>

definition upd_paid :: "(string \<rightharpoonup> stamp option) \<Rightarrow> fee_row list \<Rightarrow> fee_row list" where
  "upd_paid g fs = map (\<lambda>f. if f_deleted f then f else case g (f_id f) of None \<Rightarrow> f | Some v \<Rightarrow> f\<lparr>f_paid := v\<rparr>) fs"

lemma upd_paid_twice: "upd_paid g (upd_paid h fs) = upd_paid (h ++ g) fs"
  by (auto simp: upd_paid_def map_add_def split: option.split)

lemma upd_paid_same:
  assumes "\<And>f. f \<in> set fs \<Longrightarrow> \<not> f_deleted f \<Longrightarrow> g (f_id f) = None \<or> g (f_id f) = Some (f_paid f)"
  shows "upd_paid g fs = fs"
  unfolding upd_paid_def
proof (rule map_idI)
  fix f assume "f \<in> set fs"
  moreover have "f\<lparr>f_paid := f_paid f\<rparr> = f" by simp
  ultimately show "(if f_deleted f then f else case g (f_id f) of None \<Rightarrow> f | Some v \<Rightarrow> f\<lparr>f_paid := v\<rparr>) = f"
    using assms [of f] by (auto split: option.split)
qed

lemma set_paid_upd: "du_fees (set_paid i v d) = upd_paid [i \<mapsto> v] (du_fees d)"
  by (auto simp: set_paid_def upd_paid_def)

lemma settle_all_upd: "\<exists>h. dom h \<subseteq> set is \<and> du_fees (settle_all now is d) = upd_paid h (du_fees d)"
proof (induction "is" arbitrary: d)
  case Nil
  then show ?case by (intro exI [of _ "Map.empty"]) (simp add: upd_paid_same)
next
  case (Cons i "is")
  have "\<exists>g. dom g \<subseteq> {i} \<and> du_fees (settleFee now i d) = upd_paid g (du_fees d)"
  proof (cases "settleFee now i d = d")
    case True
    then show ?thesis by (intro exI [of _ "Map.empty"]) (simp add: upd_paid_same)
  next
    case False
    then obtain v where "settleFee now i d = set_paid i v d" using settleFee_cases by blast
    then show ?thesis by (intro exI [of _ "[i \<mapsto> v]"]) (simp add: set_paid_upd)
  qed
  then obtain g where g: "dom g \<subseteq> {i}" "du_fees (settleFee now i d) = upd_paid g (du_fees d)" by blast
  obtain h where "dom h \<subseteq> set is" "du_fees (settle_all now is (settleFee now i d)) = upd_paid h (du_fees (settleFee now i d))"
    using Cons.IH by blast
  then show ?case using g by (intro exI [of _ "g ++ h"]) (auto simp: upd_paid_twice)
qed

lemma first_per_fee_fees: "pay_fee ` set (first_per_fee seen ps) = pay_fee ` set ps - set seen"
  by (induction seen ps rule: first_per_fee.induct) (auto simp: List.member_iff)

lemma first_per_fee_props:
  "set (first_per_fee seen ps) \<subseteq> set ps" "distinct (map pay_fee (first_per_fee seen ps))"
proof -
  show "set (first_per_fee seen ps) \<subseteq> set ps"
    by (induction seen ps rule: first_per_fee.induct) auto
  show "distinct (map pay_fee (first_per_fee seen ps))"
    by (induction seen ps rule: first_per_fee.induct) (simp_all add: first_per_fee_fees)
qed

text \<open>Whether a fee has later assignments than one that is removed.\<close>

definition later :: "dues \<Rightarrow> pay_row \<Rightarrow> bool" where
  "later d p \<longleftrightarrow> list_ex (\<lambda>q. pay_fee q = pay_fee p \<and> \<not> pay_deleted q \<and> pay_id q > pay_id p \<and> txn_live d (pay_txn q) \<noteq> None) (du_payments d)"

lemma not_live_unchanged: "fee_live d i = None \<Longrightarrow> set_paid i v d = d" "fee_live d i = None \<Longrightarrow> settleFee now i d = d"
proof -
  assume n: "fee_live d i = None"
  then have "upd_paid [i \<mapsto> v] (du_fees d) = du_fees d"
    by (intro upd_paid_same) (auto simp: fee_live_def find_None_iff)
  then have "du_fees (set_paid i v d) = du_fees d" by (simp add: set_paid_upd)
  then show "set_paid i v d = d" by (simp add: set_paid_def)
qed (simp add: settleFee_def)

lemma resettle_fees:
  assumes "\<forall>p \<in> set ps. fee_live d (pay_fee p) = None \<or> \<not> later d p" "distinct (map pay_fee ps)"
  shows "du_fees (resettle now ps d)
    = upd_paid (map_of (map (\<lambda>p. (pay_fee p, pay_prior p)) (filter (\<lambda>p. fee_live d (pay_fee p) \<noteq> None) ps))) (du_fees d)"
  using assms
proof (induction ps arbitrary: d)
  case Nil
  then show ?case by (simp add: upd_paid_same)
next
  case (Cons p ps)
  show ?case
  proof (cases "fee_live d (pay_fee p)")
    case None
    then have "resettle now (p # ps) d = resettle now ps d" by (simp add: not_live_unchanged)
    then show ?thesis using Cons.IH [of d] Cons.prems None by simp
  next
    case (Some f)
    let ?d = "set_paid (pay_fee p) (pay_prior p) d"
    have l: "(fee_live ?d i = None) = (fee_live d i = None)" for i
      using same_fees_live [OF same_fees_set_paid [of d "pay_fee p" "pay_prior p"], of i] by (cases "fee_live d i") auto
    have lt: "later ?d = later d" by (auto simp: later_def txn_live_def)
    have "\<not> later d p" using Cons.prems(1) Some by auto
    then have "resettle now (p # ps) d = resettle now ps ?d" by (simp add: later_def)
    moreover have "\<forall>q \<in> set ps. fee_live ?d (pay_fee q) = None \<or> \<not> later ?d q" using Cons.prems(1) by (simp add: l lt)
    ultimately have "du_fees (resettle now (p # ps) d)
        = upd_paid (map_of (map (\<lambda>p. (pay_fee p, pay_prior p)) (filter (\<lambda>p. fee_live d (pay_fee p) \<noteq> None) ps)))
            (upd_paid [pay_fee p \<mapsto> pay_prior p] (du_fees d))"
      using Cons.IH [of ?d] Cons.prems(2) by (simp add: l set_paid_upd)
    also have "\<dots> = upd_paid ([pay_fee p \<mapsto> pay_prior p] ++ map_of (map (\<lambda>p. (pay_fee p, pay_prior p)) (filter (\<lambda>p. fee_live d (pay_fee p) \<noteq> None) ps))) (du_fees d)"
      by (rule upd_paid_twice)
    also have "[pay_fee p \<mapsto> pay_prior p] ++ map_of (map (\<lambda>p. (pay_fee p, pay_prior p)) (filter (\<lambda>p. fee_live d (pay_fee p) \<noteq> None) ps))
        = (map_of (map (\<lambda>p. (pay_fee p, pay_prior p)) (filter (\<lambda>p. fee_live d (pay_fee p) \<noteq> None) ps)))(pay_fee p \<mapsto> pay_prior p)"
    proof -
      have "map_of (map (\<lambda>p. (pay_fee p, pay_prior p)) (filter (\<lambda>p. fee_live d (pay_fee p) \<noteq> None) ps)) (pay_fee p) = None"
        using Cons.prems(2) by (auto simp: map_of_eq_None_iff)
      then show ?thesis by (intro ext) (auto simp: map_add_def split: option.split)
    qed
    finally show ?thesis using Some by simp
  qed
qed

lemma loadEntry_some:
  assumes "i \<noteq> ''''" "i \<in> entry_ids d"
  obtains e where "loadEntry d i = Inr e" "set (re_Payments e) \<subseteq> set (feePayments d (\<lambda>p m. pay_txn p = i))"
proof -
  obtain t b where t: "t \<in> set (du_txns d)" "\<not> t_deleted t" "t_id t = i" "b \<in> set (du_entries d)" "tb_txn b = i" "\<not> tb_deleted b"
    using assms(2) by (auto simp: entry_ids_value)
  let ?ps = "feePayments d (\<lambda>p m. pay_txn p = i)"
  have e: "reconciliationEntries d i = concat (map (entry_of d ?ps)
      (rev (sort_key (\<lambda>t. (t_date t, t_id t)) (filter (\<lambda>t. \<not> t_deleted t \<and> t_id t = i) (du_txns d)))))"
    using assms(1) by (simp add: reconciliationEntries_def)
  have "find (\<lambda>b. tb_txn b = i \<and> \<not> tb_deleted b) (du_entries d) \<noteq> None" using t by (auto simp: find_None_iff)
  then have "entry_of d ?ps t \<noteq> []" using t(3) by (auto simp: entry_of_def)
  then have "reconciliationEntries d i \<noteq> []" using t(1-3) unfolding e by auto
  then obtain x xs where x: "reconciliationEntries d i = x # xs" by (cases "reconciliationEntries d i") auto
  then have "x \<in> set (reconciliationEntries d i)" by simp
  then have "set (re_Payments x) \<subseteq> set ?ps" unfolding e by (auto simp: entry_of_def split: option.splits)
  then show thesis using that x by (simp add: loadEntry_def)
qed

lemma concat_map_nil: "concat (map (\<lambda>x. []) xs) = []"
  by (induction xs) simp_all

lemma no_old_payments:
  assumes "dues_ok d" "txn \<noteq> ''''" "loadEntry d txn = Inr entry" "re_Payments entry = []"
    "p \<in> set (du_payments d)" "\<not> pay_deleted p" "pay_txn p = txn"
  shows "fee_live d (pay_fee p) = None"
proof (rule ccontr)
  assume "fee_live d (pay_fee p) \<noteq> None"
  then obtain f where f: "fee_live d (pay_fee p) = Some f" by blast
  then have "f \<in> set (du_fees d)" using fee_live_iff [OF assms(1)] by blast
  then obtain m where m: "member_any d (f_member f) = Some m" using assms(1) by (auto simp: dues_ok_def list_all_iff)
  obtain t b where e: "txn_live d txn = Some t" "entry = entry_view d t b"
    using assms(3) loadEntry_value [OF assms(1,2)] by (auto split: option.splits)
  then have "t_id t = txn" using txn_live_iff [OF assms(1)] by blast
  moreover have "\<exists>q \<in> set (payment_of d (\<lambda>p m. True) p). fp_TransactionID (snd q) = txn"
    using f m e(1) assms(6,7) by (auto simp: payment_of_def)
  then have "\<exists>q \<in> set (all_payments d). fp_TransactionID q = txn" using assms(5) by (force simp: all_payments_def feePayments_def)
  ultimately show False using assms(4) e(2) by (auto simp: filter_empty_conv)
qed


subsection \<open>An example\<close>

text \<open>A member, an unpaid fee of 50.00, and a transfer of that amount that names the member number.\<close>

definition sample_ledger :: dues where
  "sample_ledger =
     \<lparr>du_members = [\<lparr>m_ref = \<lparr>mr_ID = ''m'', mr_Number = 42, mr_FirstName = ''Ann'', mr_LastName = ''Lee''\<rparr>, m_deleted = False\<rparr>],
      du_bank = [], du_mandates = [], du_households = [], du_household_members = [], du_creditor = None,
      du_fees = [\<lparr>f_id = ''f'', f_member = ''m'', f_amount = 5000, f_due = 0, f_paid = None, f_description = None, f_year = 2024, f_deleted = False\<rparr>],
      du_charges = [], du_runs = [], du_items = [],
      du_txns = [\<lparr>t_id = ''t'', t_date = 0, t_description = ''nr 0042'', t_amount = 5000, t_type = ''income'', t_category = None,
                   t_notes = None, t_deleted = False\<rparr>],
      du_entries = [\<lparr>tb_txn = ''t'', tb_bank = \<lparr>bk_CounterpartyName = None, bk_CounterpartyIBAN = None, bk_EndToEndID = None,
                      bk_MandateRef = None, bk_IsReturn = False, bk_ReturnReason = None\<rparr>, tb_dismissed = None, tb_deleted = False\<rparr>],
      du_payments = []\<rparr>"

definition sample_id :: "nat \<Rightarrow> string" where
  "sample_id k = replicate (Suc k) CHR ''p''"

lemma replicate_less: "i < j \<Longrightarrow> replicate i c < replicate j (c :: char)"
proof (induction i arbitrary: j)
  case 0
  then show ?case by (cases j) simp_all
next
  case (Suc i)
  then show ?case by (cases j) simp_all
qed

lemma sample_ok: "dues_ok sample_ledger" "fresh_ids sample_id k sample_ledger"
  by (simp_all add: dues_ok_def sample_ledger_def member_any_def fresh_ids_def sample_id_def replicate_less del: replicate_Suc)

definition sample_entry :: recon_entry where
  "sample_entry = \<lparr>re_TransactionID = ''t'', re_Date = 0, re_Description = ''nr 0042'', re_AmountCents = 5000, re_Type = ''income'',
     re_Bank = \<lparr>bk_CounterpartyName = None, bk_CounterpartyIBAN = None, bk_EndToEndID = None, bk_MandateRef = None, bk_IsReturn = False,
       bk_ReturnReason = None\<rparr>, re_DismissedAt = None, re_Payments = []\<rparr>"

lemma sample_entries: "reconciliationEntries sample_ledger '''' = [sample_entry]"
  by (simp add: reconciliationEntries_def entry_of_def feePayments_def sample_ledger_def sample_entry_def)

lemma sample_suggestion:
  "\<exists>s. suggest plain_text sample_entry (ReconcileFees sample_ledger) (ReconcileMembers sample_ledger) = Some s \<and> sg_Confidence s = Certain"
proof -
  have "ReconcileMembers sample_ledger = [payer_42]"
    by (simp add: ReconcileMembers_def sample_ledger_def payer_42_def bank_live_def)
  moreover have "match_entry sample_entry = fee_payment" by (simp add: match_entry_def sample_entry_def fee_payment_def)
  moreover have "fee_candidates False (ReconcileFees sample_ledger) = [open_fee]"
    by (simp add: ReconcileFees_def reconcileFees_def recon_of_def fee_view_def member_live_def sample_ledger_def inCollection_def
        links_def paidSinceReturn_def fee_candidates_def rf_Open_def open_fee_def)
  moreover have "re_Open sample_entry" "bk_IsReturn (re_Bank sample_entry) = False" by (simp_all add: re_Open_def sample_entry_def)
  ultimately show ?thesis using fee_payment_matches by (simp add: suggest_def)
qed

theorem suggestion_accepted_witness:
  "\<exists>s. suggest plain_text sample_entry (ReconcileFees sample_ledger) (ReconcileMembers sample_ledger) = Some s
     \<and> (case ConfirmReconciliation sample_id 0 7 ''t'' (sg_Allocations s) sample_ledger of
          Inl err \<Rightarrow> False | Inr (e', d') \<Rightarrow> re_TransactionID e' = ''t'')"
proof -
  obtain s where s: "suggest plain_text sample_entry (ReconcileFees sample_ledger) (ReconcileMembers sample_ledger) = Some s"
    using sample_suggestion by blast
  have i: "re_TransactionID sample_entry = ''t''" by (simp add: sample_entry_def)
  show ?thesis
    using suggestion_accepted [OF sample_ok, of sample_entry plain_text s 0 7] sample_entries s i by (auto split: sum.splits)
qed

theorem certain_confirmed_witness:
  "case ConfirmCertainReconciliations plain_text sample_id 7 sample_ledger of
      (Inl err, d') \<Rightarrow> False
    | (Inr n, d') \<Rightarrow> is_certain plain_text sample_ledger sample_entry \<and> (\<forall>e \<in> set (reconciliationEntries d' ''''). \<not> is_certain plain_text d' e)"
  using certain_confirmed [OF sample_ok, of plain_text 7] sample_suggestion by (auto simp: is_certain_def split: sum.splits)


end
