(* ===== verification/Sepa.thy ===== *)
theory Sepa
  imports GoText GoTime Op "HOL-Library.Multiset"
begin

text \<open>
  SEPA identifiers and direct debit files (\<open>server/internal/sepa/validate.go\<close>, \<open>pain008.go\<close>): the check of IBANs, BICs,
  creditor ids and mandate references, texts in the SEPA character set, and the document of a direct debit
  initiation. \<open>strings.ToUpper\<close> and the rendering of the document as XML are parameters.
\<close>

subsection \<open>Identifiers\<close>

definition upper :: "char \<Rightarrow> bool" where "upper c \<longleftrightarrow> in_range CHR ''A'' CHR ''Z'' c"
definition digit :: "char \<Rightarrow> bool" where "digit c \<longleftrightarrow> in_range CHR ''0'' CHR ''9'' c"

definition NormalizeIBAN :: "(string \<Rightarrow> string) \<Rightarrow> string \<Rightarrow> string" where
  "NormalizeIBAN ToUpper s = ToUpper (join_words '''' (Fields s))"

definition NormalizeBIC :: "(string \<Rightarrow> string) \<Rightarrow> string \<Rightarrow> string" where
  "NormalizeBIC ToUpper s = NormalizeIBAN ToUpper s"

definition NormalizeCreditorID :: "(string \<Rightarrow> string) \<Rightarrow> string \<Rightarrow> string" where
  "NormalizeCreditorID ToUpper s = NormalizeIBAN ToUpper s"

definition ibanFormat :: "string \<Rightarrow> bool" where
  "ibanFormat s \<longleftrightarrow> 15 \<le> length s \<and> length s \<le> 34 \<and> list_all upper (take 2 s) \<and> list_all digit (take 2 (drop 2 s))
     \<and> list_all (\<lambda>c. upper c \<or> digit c) (drop 4 s)"

definition ibanLengths :: "(string \<times> nat) list" where
  "ibanLengths =
     [(''AD'', 24), (''AE'', 23), (''AL'', 28), (''AT'', 20), (''AZ'', 28), (''BA'', 20), (''BE'', 16), (''BG'', 22), (''BH'', 22), (''BI'', 27),
      (''BR'', 29), (''BY'', 28), (''CH'', 21), (''CR'', 22), (''CY'', 28), (''CZ'', 24), (''DE'', 22), (''DJ'', 27), (''DK'', 18), (''DO'', 28),
      (''EE'', 20), (''EG'', 29), (''ES'', 24), (''FI'', 18), (''FK'', 18), (''FO'', 18), (''FR'', 27), (''GB'', 22), (''GE'', 22), (''GI'', 23),
      (''GL'', 18), (''GR'', 27), (''GT'', 28), (''HR'', 21), (''HU'', 28), (''IE'', 22), (''IL'', 23), (''IQ'', 23), (''IS'', 26), (''IT'', 27),
      (''JO'', 30), (''KW'', 30), (''KZ'', 20), (''LB'', 28), (''LC'', 32), (''LI'', 21), (''LT'', 20), (''LU'', 20), (''LV'', 21), (''LY'', 25),
      (''MC'', 27), (''MD'', 24), (''ME'', 22), (''MK'', 19), (''MN'', 20), (''MR'', 27), (''MT'', 31), (''MU'', 30), (''NI'', 28), (''NL'', 18),
      (''NO'', 15), (''OM'', 23), (''PK'', 24), (''PL'', 28), (''PS'', 29), (''PT'', 25), (''QA'', 29), (''RO'', 24), (''RS'', 22), (''RU'', 33),
      (''SA'', 24), (''SC'', 31), (''SD'', 18), (''SE'', 24), (''SI'', 19), (''SK'', 24), (''SM'', 27), (''SO'', 23), (''ST'', 25), (''SV'', 28),
      (''TL'', 23), (''TN'', 24), (''TR'', 26), (''UA'', 29), (''VA'', 22), (''VG'', 24), (''XK'', 20), (''YE'', 30)]"

definition WellFormedIBAN :: "string \<Rightarrow> bool" where
  "WellFormedIBAN iban \<longleftrightarrow> ibanFormat iban \<and> gm_get 0 ibanLengths (take 2 iban) = length iban"

text \<open>\<open>mod97\<close>: letters become two digits, and the decimal number is reduced; \<open>-1\<close> for other characters.\<close>

definition letter_value :: "char \<Rightarrow> nat" where
  "letter_value c = (if digit c then byte_of c - 48 else byte_of c - 55)"

definition iso_digits :: "string \<Rightarrow> string option" where
  "iso_digits s = (if list_all (\<lambda>c. upper c \<or> digit c) s
     then Some (concat (map (\<lambda>c. if digit c then [c] else min_digits 10 (letter_value c)) s)) else None)"

definition big_int :: "string \<Rightarrow> nat" where
  "big_int ds = foldl (\<lambda>n c. 10 * n + (byte_of c - 48)) 0 ds"

definition mod97 :: "string \<Rightarrow> int" where
  "mod97 s = (case iso_digits s of None \<Rightarrow> - 1 | Some ds \<Rightarrow> if ds = [] then - 1 else int (big_int ds mod 97))"

definition ValidIBAN :: "string \<Rightarrow> bool" where
  "ValidIBAN iban \<longleftrightarrow> WellFormedIBAN iban \<and> mod97 (drop 4 iban @ take 4 iban) = 1"

definition ValidBIC :: "string \<Rightarrow> bool" where
  "ValidBIC s \<longleftrightarrow> (length s = 8 \<or> length s = 11) \<and> list_all upper (take 6 s)
     \<and> list_all (\<lambda>c. upper c \<or> in_range CHR ''2'' CHR ''9'' c) (take 1 (drop 6 s))
     \<and> list_all (\<lambda>c. in_range CHR ''A'' CHR ''N'' c \<or> in_range CHR ''P'' CHR ''Z'' c \<or> digit c) (take 1 (drop 7 s))
     \<and> list_all (\<lambda>c. upper c \<or> digit c) (drop 8 s)"

definition creditorIDFormat :: "string \<Rightarrow> bool" where
  "creditorIDFormat s \<longleftrightarrow> 8 \<le> length s \<and> length s \<le> 35 \<and> list_all upper (take 2 s) \<and> list_all digit (take 2 (drop 2 s))
     \<and> list_all (\<lambda>c. upper c \<or> digit c) (drop 4 s)"

definition ValidCreditorID :: "string \<Rightarrow> bool" where
  "ValidCreditorID i \<longleftrightarrow> \<not> (\<not> creditorIDFormat i \<or> length i > 35) \<and> mod97 (drop 7 i @ take 4 i) = 1"

definition ValidMandateReference :: "string \<Rightarrow> bool" where
  "ValidMandateReference s \<longleftrightarrow> 1 \<le> length s \<and> length s \<le> 35
     \<and> list_all (\<lambda>c. in_range CHR ''A'' CHR ''Z'' c \<or> in_range CHR ''a'' CHR ''z'' c \<or> digit c
         \<or> c \<in> set ''+?/-:().,'' \<or> c = CHR 0x27) s"

subsection \<open>Texts\<close>

definition transliterations :: "(string \<times> string) list" where
  "transliterations = map (\<lambda>(bs :: nat list, t). (map char_of bs, t))
     [([0xC3, 0x84], ''Ae''), ([0xC3, 0x96], ''Oe''), ([0xC3, 0x9C], ''Ue''), ([0xC3, 0xA4], ''ae''), ([0xC3, 0xB6], ''oe''), ([0xC3, 0xBC], ''ue''),
      ([0xC3, 0x9F], ''ss''), ([0x26], ''+''), ([0xE2, 0x80, 0x93], ''-''), ([0xE2, 0x80, 0x94], ''-''), ([0x5F], ''-''),
      ([0xE2, 0x80, 0x99], [CHR 0x27]), ([0xE2, 0x80, 0x98], [CHR 0x27]),
      ([0xC3, 0xA9], ''e''), ([0xC3, 0xA8], ''e''), ([0xC3, 0xAA], ''e''), ([0xC3, 0xA1], ''a''), ([0xC3, 0xA0], ''a''), ([0xC3, 0xA2], ''a''),
      ([0xC3, 0xA7], ''c''), ([0xC3, 0x89], ''E''), ([0xC3, 0x88], ''E''), ([0xC3, 0x80], ''A''), ([0xC3, 0x87], ''C''),
      ([0xC3, 0xB4], ''o''), ([0xC3, 0xAE], ''i''), ([0xC3, 0xAF], ''i''), ([0xC3, 0xAB], ''e''), ([0xC3, 0xB1], ''n'' :: string)]"

definition sepa_char :: "char \<Rightarrow> bool" where
  "sepa_char c \<longleftrightarrow> in_range CHR ''A'' CHR ''Z'' c \<or> in_range CHR ''a'' CHR ''z'' c \<or> digit c
     \<or> c \<in> set ''/-?:().,+'' \<or> c = CHR 0x27"

text \<open>
  The loop of \<open>Text\<close>. A rune that is neither transliterated nor in the character set becomes a space; here each
  of its bytes does, which the splitting into words that follows cannot tell.
\<close>

function to_sepa :: "string \<Rightarrow> string" where
  "to_sepa s =
     (case s of
        [] \<Rightarrow> []
      | c # r \<Rightarrow>
          (case find (\<lambda>(k, t). k \<noteq> [] \<and> take (length k) s = k) transliterations of
             Some (k, t) \<Rightarrow> if k = [] then [] else t @ to_sepa (drop (length k) s)
           | None \<Rightarrow> (if sepa_char c then c else CHR '' '') # to_sepa r))"
  by pat_completeness auto
termination
  by (relation "measure length") auto

declare to_sepa.simps [simp del]

definition sepa_Text :: "string \<Rightarrow> nat \<Rightarrow> string" where
  "sepa_Text s mx =
     (let out = join_words '' '' (Fields (to_sepa s)) in
      if length out > mx then TrimSpace (take mx out) else out)"

subsection \<open>Check digits\<close>

text \<open>The number a text of letters and digits stands for, and the power of ten it shifts what stands before it.\<close>

definition iso_value :: "string \<Rightarrow> int" where
  "iso_value s = foldl (\<lambda>n c. (if digit c then 10 else 100) * n + int (letter_value c)) 0 s"

definition weight :: "string \<Rightarrow> int" where
  "weight s = foldl (\<lambda>n c. (if digit c then 10 else 100) * n) 1 s"

lemma weight_simps [simp]: "weight [] = 1" "weight (s @ [c]) = (if digit c then 10 else 100) * weight s"
  by (simp_all add: weight_def)

lemma iso_value_simps [simp]: "iso_value [] = 0" "iso_value (s @ [c]) = (if digit c then 10 else 100) * iso_value s + int (letter_value c)"
  by (simp_all add: iso_value_def)

lemma iso_value_append: "iso_value (s @ t) = iso_value s * weight t + iso_value t"
proof (induction t rule: rev_induct)
  case (snoc c t)
  have "iso_value ((s @ t) @ [c]) = iso_value s * weight (t @ [c]) + iso_value (t @ [c])"
    unfolding iso_value_simps weight_simps snoc by (simp add: algebra_simps)
  then show ?case by simp
qed simp

lemma weight_append: "weight (s @ t) = weight s * weight t"
proof (induction t rule: rev_induct)
  case (snoc c t)
  have "weight ((s @ t) @ [c]) = weight s * weight (t @ [c])"
    unfolding weight_simps snoc by simp
  then show ?case by simp
qed simp

lemma digit_value: "digit c \<Longrightarrow> letter_value c < 10" and upper_value: "upper c \<Longrightarrow> 10 \<le> letter_value c \<and> letter_value c < 36"
  by (auto simp: digit_def upper_def letter_value_def in_range_def)

lemma big_int_digits:
  assumes "list_all (\<lambda>c. upper c \<or> digit c) s"
  shows "int (big_int (concat (map (\<lambda>c. if digit c then [c] else min_digits 10 (letter_value c)) s))) = iso_value s"
  using assms
proof (induction s rule: rev_induct)
  case Nil
  then show ?case by (simp add: big_int_def)
next
  case (snoc c s)
  let ?f = "\<lambda>n c. 10 * n + (byte_of c - 48)"
  have step: "foldl ?f n (if digit c then [c] else min_digits 10 (letter_value c)) = (if digit c then 10 else 100) * n + letter_value c" for n
  proof (cases "digit c")
    case True
    then show ?thesis by (simp add: letter_value_def)
  next
    case False
    then have v: "10 \<le> letter_value c" "letter_value c < 36" using snoc.prems upper_value by simp_all
    then have "min_digits 10 (letter_value c) = [digit_char (letter_value c div 10), digit_char (letter_value c mod 10)]"
      by (simp add: min_digits.simps)
    moreover have "byte_of (digit_char d) - 48 = d" if "d < 10" for d
      using that by (simp add: byte_digit_char)
    ultimately show ?thesis using False v by simp
  qed
  have "big_int (concat (map (\<lambda>c. if digit c then [c] else min_digits 10 (letter_value c)) (s @ [c])))
      = (if digit c then 10 else 100) * big_int (concat (map (\<lambda>c. if digit c then [c] else min_digits 10 (letter_value c)) s)) + letter_value c"
    unfolding big_int_def by (simp add: step del: foldl_append add: foldl_append)
  then show ?case using snoc by simp
qed

lemma mod97_value: "mod97 s = (if s \<noteq> [] \<and> list_all (\<lambda>c. upper c \<or> digit c) s then iso_value s mod 97 else - 1)"
proof (cases "list_all (\<lambda>c. upper c \<or> digit c) s")
  case True
  have "concat (map (\<lambda>c. if digit c then [c] else min_digits 10 (letter_value c)) s) = [] \<longleftrightarrow> s = []"
    by (cases s) auto
  then show ?thesis using True big_int_digits [OF True] by (auto simp: mod97_def iso_digits_def zmod_int)
qed (simp add: mod97_def iso_digits_def)

definition same_class :: "char \<Rightarrow> char \<Rightarrow> bool" where
  "same_class c d \<longleftrightarrow> digit c \<and> digit d \<or> upper c \<and> upper d"

lemma byte_eqI: "(byte_of c :: nat) = byte_of d \<Longrightarrow> c = d"
  by simp

lemma letter_value_inj: "same_class c d \<Longrightarrow> letter_value c = letter_value d \<Longrightarrow> c = d"
proof -
  assume a: "same_class c d" "letter_value c = letter_value d"
  have "\<not> digit x" if "upper x" for x using that by (auto simp: digit_def upper_def in_range_def)
  then have "(byte_of c :: nat) = byte_of d"
    using a unfolding same_class_def letter_value_def digit_def upper_def in_range_def
    by (auto intro: byte_eqI) (rule byte_eqI, arith)+
  then show "c = d" by simp
qed

lemma coprime_weight: "coprime (97 :: int) (weight s)"
proof (induction s rule: rev_induct)
  case (snoc c s)
  have "gcd (97 :: int) 10 = 1" "gcd (97 :: int) 100 = 1" by code_simp+
  then have "coprime (97 :: int) 10" "coprime (97 :: int) 100" by (simp_all add: coprime_iff_gcd_eq_1)
  then show ?case using snoc by simp
qed simp

lemma not_dvd_small: "coprime (97 :: int) k \<Longrightarrow> x \<noteq> 0 \<Longrightarrow> \<bar>x\<bar> < 97 \<Longrightarrow> \<not> 97 dvd x * k"
  using zdvd_imp_le [of 97 "\<bar>x\<bar>"] by (auto simp: coprime_dvd_mult_left_iff)

text \<open>What stands at one place of the identifier stands at one place of the rotated text.\<close>

definition rotated :: "string \<Rightarrow> string" where
  "rotated s = drop 4 s @ take 4 s"

lemma rotated_at: "\<exists>u v. \<forall>c. rotated (p @ c # s) = u @ c # v"
proof (cases "length p < 4")
  case True
  then obtain k where k: "4 - length p = Suc k" by (cases "4 - length p") auto
  then have "rotated (p @ c # s) = (drop k s @ p) @ c # take k s" for c by (simp add: rotated_def)
  then show ?thesis by blast
next
  case False
  then have "rotated (p @ c # s) = drop 4 p @ c # (s @ take 4 p)" for c by (simp add: rotated_def)
  then show ?thesis by blast
qed

lemma rotated_at2: "length p \<noteq> 3 \<Longrightarrow> \<exists>u v. \<forall>c d. rotated (p @ c # d # s) = u @ c # d # v"
proof (cases "length p < 4")
  case True
  assume "length p \<noteq> 3"
  then have "4 - length p = Suc (Suc (2 - length p))" using True by arith
  then obtain k where k: "4 - length p = Suc (Suc k)" by blast
  then have "rotated (p @ c # d # s) = (drop k s @ p) @ c # d # take k s" for c d by (simp add: rotated_def)
  then show ?thesis by blast
next
  case False
  then have "rotated (p @ c # d # s) = drop 4 p @ c # d # (s @ take 4 p)" for c d by (simp add: rotated_def)
  then show ?thesis by blast
qed

lemma ValidIBAN_value: "ValidIBAN iban \<longleftrightarrow> WellFormedIBAN iban \<and> iso_value (rotated iban) mod 97 = 1"
proof -
  have "rotated iban \<noteq> [] \<and> list_all (\<lambda>c. upper c \<or> digit c) (rotated iban)" if "WellFormedIBAN iban"
  proof -
    have t: "list_all (\<lambda>c. upper c \<or> digit c) (take 2 iban)" "list_all (\<lambda>c. upper c \<or> digit c) (take 2 (drop 2 iban))"
      using that by (auto simp: WellFormedIBAN_def ibanFormat_def list_all_iff)
    have "take 4 iban = take 2 iban @ take 2 (drop 2 iban)" by (simp flip: take_add)
    then have "list_all (\<lambda>c. upper c \<or> digit c) (take 4 iban)" using t by simp
    then show ?thesis using that by (auto simp: WellFormedIBAN_def ibanFormat_def rotated_def)
  qed
  then show ?thesis by (auto simp: ValidIBAN_def mod97_value rotated_def)
qed

lemma iso_value_at: "iso_value (u @ c # v) = iso_value u * weight (c # v) + int (letter_value c) * weight v + iso_value v"
proof -
  have "iso_value (u @ c # v) = iso_value u * weight (c # v) + iso_value ([c] @ v)"
    using iso_value_append [of u "c # v"] by simp
  also have "iso_value ([c] @ v) = int (letter_value c) * weight v + iso_value v"
    unfolding iso_value_append using iso_value_simps(2) [of "[]" c] by simp
  finally show ?thesis by simp
qed

lemma weight_Cons: "weight (c # v) = (if digit c then 10 else 100) * weight v"
  using weight_append [of "[c]" v] weight_simps(2) [of "[]" c] by simp

lemma same_class_weight: "same_class c d \<Longrightarrow> digit c \<longleftrightarrow> digit d"
  by (auto simp: same_class_def digit_def upper_def in_range_def)

lemma same_class_values:
  assumes "same_class c d" "c \<noteq> d"
  shows "int (letter_value c) - int (letter_value d) \<noteq> 0" "\<bar>int (letter_value c) - int (letter_value d)\<bar> < 97"
proof -
  show "int (letter_value c) - int (letter_value d) \<noteq> 0" using letter_value_inj [OF assms(1)] assms(2) by auto
  show "\<bar>int (letter_value c) - int (letter_value d)\<bar> < 97"
    using assms(1) digit_value [of c] digit_value [of d] upper_value [of c] upper_value [of d] by (auto simp: same_class_def)
qed

lemma both_one: "x mod 97 = 1 \<Longrightarrow> y mod 97 = 1 \<Longrightarrow> 97 dvd x - y" for x y :: int
  by (metis mod_eq_dvd_iff)

lemma weight_power: "\<exists>k \<le> 2 * length v. weight v = 10 ^ k"
proof (induction v rule: rev_induct)
  case (snoc c v)
  then obtain k where "k \<le> 2 * length v" "weight v = 10 ^ k" by blast
  then show ?case by (intro exI [of _ "if digit c then Suc k else Suc (Suc k)"]) auto
qed simp

fun powers_differ :: "nat \<Rightarrow> int \<Rightarrow> bool" where
  "powers_differ 0 x = True"
| "powers_differ (Suc n) x = (x \<noteq> 1 \<and> powers_differ n (10 * x mod 97))"

lemma powers_differ: "powers_differ n x \<Longrightarrow> i < n \<Longrightarrow> x = y mod 97 \<Longrightarrow> 10 ^ i * y mod 97 \<noteq> 1"
proof (induction n arbitrary: x y i)
  case (Suc n)
  show ?case
  proof (cases i)
    case (Suc j)
    have "10 * x mod 97 = 10 * y mod 97" using Suc.prems(3) by (simp add: mod_mult_right_eq)
    then show ?thesis using Suc.IH [of "10 * x mod 97" j "10 * y"] Suc.prems Suc by (simp add: mult.assoc mult.left_commute)
  qed (use Suc.prems in simp)
qed simp

lemma order_10: "0 < m \<Longrightarrow> m \<le> 95 \<Longrightarrow> (10 :: int) ^ m mod 97 \<noteq> 1"
proof -
  have "powers_differ 95 10" by (simp add: eval_nat_numeral)
  then show "0 < m \<Longrightarrow> m \<le> 95 \<Longrightarrow> (10 :: int) ^ m mod 97 \<noteq> 1"
    using powers_differ [of 95 10 "m - 1" 10] by (cases m) (simp_all add: mult.commute)
qed

lemma coprime_97: "\<not> 97 dvd y \<Longrightarrow> coprime (97 :: int) y"
proof (rule ccontr)
  assume y: "\<not> 97 dvd y" "\<not> coprime 97 y"
  define g where "g = nat (gcd 97 y)"
  have no_divisor: "list_all (\<lambda>m. 97 mod m \<noteq> 0) [2..<97::nat]" by code_simp
  have g: "int g = gcd 97 y" by (simp add: g_def)
  then have "int g dvd 97" by simp
  then have "97 mod g = 0" by presburger
  have "g \<noteq> 1" using y(2) g by (metis coprime_iff_gcd_eq_1 of_nat_1)
  have "g \<noteq> 97" using y(1) g by (metis gcd_dvd2 of_nat_numeral)
  have "g \<noteq> 0" using \<open>97 mod g = 0\<close> by (intro notI) simp
  have "g \<le> 97" using \<open>int g dvd 97\<close> zdvd_imp_le by fastforce
  then have "g \<in> set [2..<97]" using \<open>g \<noteq> 0\<close> \<open>g \<noteq> 1\<close> \<open>g \<noteq> 97\<close>
    unfolding set_upt atLeastLessThan_iff by arith
  then have "97 mod g \<noteq> 0" by (rule bspec [OF no_divisor [unfolded list_all_iff]])
  then show False using \<open>97 mod g = 0\<close> by simp
qed

lemma coprime_crossing:
  assumes "length v \<le> 32"
  shows "coprime (97 :: int) (10 * weight v - 1)"
proof (rule coprime_97)
  obtain k where k: "k \<le> 2 * length v" "weight v = 10 ^ k" using weight_power by blast
  then have "(10 :: int) ^ Suc k mod 97 \<noteq> 1" using assms by (intro order_10) auto
  then show "\<not> 97 dvd 10 * weight v - 1" using k(2) by (auto simp: mod_eq_dvd_iff [of _ _ 1, symmetric])
qed

lemma slips:
  assumes "ValidIBAN (p @ c # r)" "same_class c d" "c \<noteq> d"
  shows "\<not> ValidIBAN (p @ d # r)" "r = d # s \<Longrightarrow> \<not> ValidIBAN (p @ d # c # s)"
proof -
  note w = same_class_weight [OF assms(2)] and vals = same_class_values [OF assms(2,3)]
  have valid: "iso_value (rotated x) mod 97 = 1" if "ValidIBAN x" for x
    using that by (simp add: ValidIBAN_value)
  show "\<not> ValidIBAN (p @ d # r)"
  proof
    assume other: "ValidIBAN (p @ d # r)"
    obtain u v where uv: "\<And>c. rotated (p @ c # r) = u @ c # v" using rotated_at by blast
    have "iso_value (u @ c # v) - iso_value (u @ d # v) = (int (letter_value c) - int (letter_value d)) * weight v"
      unfolding iso_value_at weight_Cons w by (simp add: algebra_simps)
    then have "97 dvd (int (letter_value c) - int (letter_value d)) * weight v"
      using both_one [OF valid [OF assms(1)] valid [OF other]] unfolding uv by simp
    then show False using not_dvd_small [OF coprime_weight vals] by blast
  qed
  assume r: "r = d # s"
  show "\<not> ValidIBAN (p @ d # c # s)"
  proof
    assume other: "ValidIBAN (p @ d # c # s)"
    show False
    proof (cases "length p = 3")
      case True
      have wf: "WellFormedIBAN (p @ c # d # s)" using assms(1) r by (simp add: ValidIBAN_def)
      then have "digit c" using True by (auto simp: WellFormedIBAN_def ibanFormat_def)
      then have "digit d" using w by simp
      have "length (s @ p) \<le> 32" using wf True by (auto simp: WellFormedIBAN_def ibanFormat_def)
      have rot: "rotated (p @ x # y # s) = y # (s @ p) @ [x]" for x y using True by (simp add: rotated_def)
      have "iso_value (d # (s @ p) @ [c]) - iso_value (c # (s @ p) @ [d])
          = (int (letter_value d) - int (letter_value c)) * (10 * weight (s @ p) - 1)"
        using iso_value_at [of "[]" d "(s @ p) @ [c]"] iso_value_at [of "[]" c "(s @ p) @ [d]"] \<open>digit c\<close> \<open>digit d\<close>
        by (simp add: algebra_simps flip: append_assoc)
      then have "97 dvd (int (letter_value d) - int (letter_value c)) * (10 * weight (s @ p) - 1)"
        using both_one [OF valid [OF assms(1)] valid [OF other]] unfolding r rot by simp
      then show False using not_dvd_small [OF coprime_crossing [OF \<open>length (s @ p) \<le> 32\<close>]] vals by (metis abs_minus_commute diff_0_right eq_iff_diff_eq_0)
    next
      case False
      obtain u v where uv: "\<And>c d. rotated (p @ c # d # s) = u @ c # d # v" using rotated_at2 [OF False] by blast
      have "iso_value (u @ c # d # v) - iso_value (u @ d # c # v)
          = (int (letter_value c) - int (letter_value d)) * ((if digit d then 9 else 99) * weight v)"
        using iso_value_at [of "u @ [c]" d v] iso_value_at [of u c "[d]"] iso_value_at [of "u @ [d]" c v] iso_value_at [of u d "[c]"]
          iso_value_simps(2) [of u] iso_value_simps(2) [of "[]"] w
        by (simp add: weight_Cons algebra_simps)
      then have "97 dvd (int (letter_value c) - int (letter_value d)) * ((if digit d then 9 else 99) * weight v)"
        using both_one [OF valid [OF assms(1)] valid [OF other]] unfolding r uv by simp
      moreover have "gcd (97 :: int) 9 = 1" "gcd (97 :: int) 99 = 1" by code_simp+
      then have "coprime (97 :: int) ((if digit d then 9 else 99) * weight v)"
        using coprime_weight [of v] by (simp add: coprime_iff_gcd_eq_1 [symmetric])
      ultimately show False using not_dvd_small [OF _ vals] by blast
    qed
  qed
qed



subsection \<open>Direct debits\<close>

definition SeqFirst :: string where "SeqFirst = ''FRST''"
definition SeqRecurring :: string where "SeqRecurring = ''RCUR''"

definition Namespace :: string where "Namespace = ''urn:iso:std:iso:20022:tech:xsd:pain.008.001.08''"

record creditor =
  cr_Name :: string
  cr_CreditorID :: string
  cr_IBAN :: string
  cr_BIC :: string

record debit =
  de_EndToEndID :: string
  de_AmountCents :: int
  de_SequenceType :: string
  de_MandateID :: string
  de_MandateDate :: date
  de_DebtorName :: string
  de_IBAN :: string
  de_BIC :: string
  de_Remittance :: string

text \<open>The creation time is a day and the second of that day, in UTC.\<close>

record initiation =
  in_MessageID :: string
  in_Created :: "date \<times> nat"
  in_CollectionDate :: date
  in_Creditor :: creditor
  in_Debits :: "debit list"

record agent =
  ag_BICFI :: string
  ag_Othr :: "string option"

record transaction =
  tx_EndToEndID :: string
  tx_Ccy :: string
  tx_Value :: string
  tx_MndtID :: string
  tx_DtOfSgntr :: string
  tx_DbtrAgt :: agent
  tx_Dbtr :: string
  tx_DbtrAcct :: string
  tx_RmtInf :: "string option"

record payment_info =
  pi_PmtInfID :: string
  pi_PmtMtd :: string
  pi_BtchBookg :: bool
  pi_NbOfTxs :: int
  pi_CtrlSum :: string
  pi_SvcLvl :: string
  pi_LclInstrm :: string
  pi_SeqTp :: string
  pi_ReqdColtn :: string
  pi_Cdtr :: string
  pi_CdtrAcct :: string
  pi_CdtrAgt :: agent
  pi_ChrgBr :: string
  pi_SchmeID :: string
  pi_SchmeNm :: string
  pi_Tx :: "transaction list"

record document =
  doc_Xmlns :: string
  doc_MsgID :: string
  doc_CreDtTm :: string
  doc_NbOfTxs :: int
  doc_CtrlSum :: string
  doc_InitgPty :: string
  doc_PmtInf :: "payment_info list"

datatype sepa_error = NoDebits | AmountNotPositive string | UnknownSequenceType | MarshalFailed

definition newAgent :: "string \<Rightarrow> agent" where
  "newAgent bic = (if bic = '''' then \<lparr>ag_BICFI = '''', ag_Othr = Some ''NOTPROVIDED''\<rparr> else \<lparr>ag_BICFI = bic, ag_Othr = None\<rparr>)"

text \<open>The verbs \<open>%d\<close> and \<open>%02d\<close>, and \<open>Format("2006-01-02")\<close> for the years 0 to 9999.\<close>

definition two_digits :: "int \<Rightarrow> string" where
  "two_digits i = (if i < 0 then CHR ''-'' # min_digits 10 (nat (- i)) else fmt_uint 10 2 (nat i))"

definition sepa_Amount :: "int \<Rightarrow> string" where
  "sepa_Amount cents = int_text (go_div cents 100) @ ''.'' @ two_digits (go_mod cents 100)"

definition date_text :: "date \<Rightarrow> string" where
  "date_text d = fmt_uint 10 4 (nat (t_Year d)) @ ''-'' @ fmt_uint 10 2 (nat (t_Month d)) @ ''-'' @ fmt_uint 10 2 (nat (t_Day d))"

definition time_text :: "date \<times> nat \<Rightarrow> string" where
  "time_text t = date_text (fst t) @ ''T'' @ fmt_uint 10 2 (snd t div 3600) @ '':'' @ fmt_uint 10 2 (snd t div 60 mod 60)
     @ '':'' @ fmt_uint 10 2 (snd t mod 60)"

definition transaction_of :: "debit \<Rightarrow> transaction" where
  "transaction_of d =
     (let r = sepa_Text (de_Remittance d) 140 in
      \<lparr>tx_EndToEndID = de_EndToEndID d, tx_Ccy = ''EUR'', tx_Value = sepa_Amount (de_AmountCents d), tx_MndtID = de_MandateID d,
       tx_DtOfSgntr = date_text (de_MandateDate d), tx_DbtrAgt = newAgent (de_BIC d), tx_Dbtr = sepa_Text (de_DebtorName d) 70,
       tx_DbtrAcct = de_IBAN d, tx_RmtInf = (if r \<noteq> '''' then Some r else None)\<rparr>)"

text \<open>The debits of one sequence type: their transactions and the sum of their amounts.\<close>

fun debit_loop :: "string \<Rightarrow> debit list \<Rightarrow> transaction list \<Rightarrow> int \<Rightarrow> sepa_error + (transaction list \<times> int)" where
  "debit_loop sq [] txs cents = Inr (txs, cents)"
| "debit_loop sq (d # ds) txs cents =
     (if de_SequenceType d \<noteq> sq then debit_loop sq ds txs cents
      else if de_AmountCents d \<le> 0 then Inl (AmountNotPositive (de_EndToEndID d))
      else debit_loop sq ds (txs @ [transaction_of d]) (i64 (cents + de_AmountCents d)))"

definition block_of :: "initiation \<Rightarrow> string \<Rightarrow> transaction list \<Rightarrow> int \<Rightarrow> payment_info" where
  "block_of i sq txs cents =
     \<lparr>pi_PmtInfID = sepa_Text (in_MessageID i) 30 @ ''-'' @ sq, pi_PmtMtd = ''DD'', pi_BtchBookg = True,
      pi_NbOfTxs = int (length txs), pi_CtrlSum = sepa_Amount cents, pi_SvcLvl = ''SEPA'', pi_LclInstrm = ''CORE'', pi_SeqTp = sq,
      pi_ReqdColtn = date_text (in_CollectionDate i), pi_Cdtr = sepa_Text (cr_Name (in_Creditor i)) 70,
      pi_CdtrAcct = cr_IBAN (in_Creditor i), pi_CdtrAgt = newAgent (cr_BIC (in_Creditor i)), pi_ChrgBr = ''SLEV'',
      pi_SchmeID = cr_CreditorID (in_Creditor i), pi_SchmeNm = ''SEPA'', pi_Tx = txs\<rparr>"

fun block_loop :: "initiation \<Rightarrow> string list \<Rightarrow> payment_info list \<Rightarrow> int \<Rightarrow> int \<Rightarrow> sepa_error + (payment_info list \<times> int \<times> int)" where
  "block_loop i [] blocks n cents = Inr (blocks, n, cents)"
| "block_loop i (sq # sqs) blocks n cents =
     (case debit_loop sq (in_Debits i) [] 0 of
        Inl e \<Rightarrow> Inl e
      | Inr (txs, part) \<Rightarrow>
          if txs = [] then block_loop i sqs blocks n cents
          else block_loop i sqs (blocks @ [block_of i sq txs part]) (n + int (length txs)) (i64 (cents + part)))"

definition document_of :: "initiation \<Rightarrow> sepa_error + document" where
  "document_of i =
     (if in_Debits i = [] then Inl NoDebits
      else case block_loop i [SeqFirst, SeqRecurring] [] 0 0 of
             Inl e \<Rightarrow> Inl e
           | Inr (blocks, n, cents) \<Rightarrow>
               if n \<noteq> int (length (in_Debits i)) then Inl UnknownSequenceType
               else Inr \<lparr>doc_Xmlns = Namespace, doc_MsgID = in_MessageID i, doc_CreDtTm = time_text (in_Created i), doc_NbOfTxs = n,
                         doc_CtrlSum = sepa_Amount cents, doc_InitgPty = sepa_Text (cr_Name (in_Creditor i)) 70, doc_PmtInf = blocks\<rparr>)"

text \<open>\<open>Initiation.XML\<close>; \<open>marshal\<close> is \<open>xml.MarshalIndent\<close> with the tags of the record's fields.\<close>

definition XML :: "(document \<Rightarrow> string option) \<Rightarrow> initiation \<Rightarrow> sepa_error + string" where
  "XML marshal i =
     (case document_of i of
        Inl e \<Rightarrow> Inl e
      | Inr doc \<Rightarrow> (case marshal doc of
                      None \<Rightarrow> Inl MarshalFailed
                    | Some out \<Rightarrow> Inr (''<?xml version='' @ [CHR 0x22] @ ''1.0'' @ [CHR 0x22] @ '' encoding='' @ [CHR 0x22] @ ''UTF-8'' @ [CHR 0x22] @ ''?>''
                        @ [CHR 0x0A] @ out @ [CHR 0x0A])))"

subsection \<open>The document is exact\<close>

text \<open>Reading an amount back: what stands before and after the point of the last two digits.\<close>

definition read_cents :: "string \<Rightarrow> int option" where
  "read_cents s =
     (let n = length s - 3 in
      case (parse_digits 10 0 (take n s), parse_digits 10 0 (drop (n + 1) s)) of
        (Some a, Some b) \<Rightarrow> if take 1 (drop n s) = ''.'' then Some (100 * int a + int b) else None
      | _ \<Rightarrow> None)"

lemma read_Amount: "0 \<le> c \<Longrightarrow> read_cents (sepa_Amount c) = Some c"
proof -
  assume c: "0 \<le> c"
  define a b where "a = nat (c div 100)" and "b = nat (c mod 100)"
  have b: "b < 10 ^ 2" unfolding b_def using pos_mod_bound [of 100 c] by simp
  have nn: "0 \<le> c div 100" "0 \<le> c mod 100" using c by simp_all
  have s: "sepa_Amount c = min_digits 10 a @ ''.'' @ fmt_uint 10 2 b"
    unfolding sepa_Amount_def go_div_nonneg [OF c zero_less_numeral] go_mod_nonneg [OF c zero_less_numeral]
    using nn by (simp only: two_digits_def int_text_def a_def b_def not_less [symmetric] if_False)
  have l: "length (fmt_uint 10 2 b) = 2" using b by (intro length_fmt_uint) simp_all
  have p: "parse_digits 10 0 (fmt_uint 10 2 b) = Some b"
    using b fmt_uint_fix [of 2 10 b] parse_fix_digits [of 10 b 2 0] by simp
  have "100 * int a + int b = c" using nn mult_div_mod_eq [of 100 c] unfolding a_def b_def by (simp only: nat_0_le)
  then show ?thesis unfolding s read_cents_def Let_def using l p parse_min_digits [of 10 a] by simp
qed

definition debit_sum :: "debit list \<Rightarrow> int" where
  "debit_sum ds = sum_list (map de_AmountCents ds)"

abbreviation "positive_debits ds \<equiv> filter (\<lambda>d. 0 < de_AmountCents d) ds"
abbreviation "debits_of sq ds \<equiv> filter (\<lambda>d. de_SequenceType d = sq) ds"

lemma debit_sum_nonneg: "0 \<le> debit_sum (positive_debits ds)"
  by (induction ds) (auto simp: debit_sum_def)

lemma debit_loop_cases:
  assumes "0 \<le> t" "t + debit_sum (positive_debits ds) < 2 ^ 63"
  shows "debit_loop sq ds txs t =
    (case find (\<lambda>d. de_SequenceType d = sq \<and> de_AmountCents d \<le> 0) ds of
       Some d \<Rightarrow> Inl (AmountNotPositive (de_EndToEndID d))
     | None \<Rightarrow> Inr (txs @ map transaction_of (debits_of sq ds), t + debit_sum (debits_of sq ds)))"
  using assms
proof (induction ds arbitrary: txs t)
  case (Cons d ds)
  have n: "0 \<le> debit_sum (positive_debits ds)" by (rule debit_sum_nonneg)
  show ?case
  proof (cases "de_SequenceType d = sq \<and> 0 < de_AmountCents d")
    case True
    then have "i64 (t + de_AmountCents d) = t + de_AmountCents d"
      using Cons.prems n by (intro i64_id) (auto simp: debit_sum_def)
    then show ?thesis using True Cons.IH [of "t + de_AmountCents d"] Cons.prems
      by (auto simp: debit_sum_def algebra_simps split: option.splits)
  next
    case False
    then show ?thesis using Cons.IH [of t] Cons.prems n by (auto simp: debit_sum_def split: option.splits if_splits)
  qed
qed (simp add: debit_sum_def)

lemma debit_sum_of_le: "debit_sum (debits_of sq (positive_debits ds)) \<le> debit_sum (positive_debits ds)"
  by (induction ds) (auto simp: debit_sum_def)

lemma debit_sum_split:
  assumes "list_all (\<lambda>d. 0 < de_AmountCents d \<and> de_SequenceType d \<in> {SeqFirst, SeqRecurring}) ds"
  shows "debit_sum (debits_of SeqFirst ds) + debit_sum (debits_of SeqRecurring ds) = debit_sum ds"
    "length (debits_of SeqFirst ds) + length (debits_of SeqRecurring ds) = length ds"
    "mset (debits_of SeqFirst ds) + mset (debits_of SeqRecurring ds) = mset ds"
    "positive_debits ds = ds"
  using assms by (induction ds) (auto simp: debit_sum_def SeqFirst_def SeqRecurring_def)

definition collectable :: "initiation \<Rightarrow> bool" where
  "collectable i \<longleftrightarrow> in_Debits i \<noteq> []
     \<and> list_all (\<lambda>d. 0 < de_AmountCents d \<and> de_SequenceType d \<in> {SeqFirst, SeqRecurring}) (in_Debits i)"

definition block_exact :: "debit list \<Rightarrow> payment_info \<Rightarrow> bool" where
  "block_exact ds b \<longleftrightarrow> pi_Tx b \<noteq> [] \<and> pi_Tx b = map transaction_of (debits_of (pi_SeqTp b) ds)
     \<and> pi_NbOfTxs b = int (length (pi_Tx b)) \<and> read_cents (pi_CtrlSum b) = Some (debit_sum (debits_of (pi_SeqTp b) ds))"

lemma seqs_differ: "SeqFirst \<noteq> SeqRecurring"
  by (simp add: SeqFirst_def SeqRecurring_def)

lemma length_two_seqs: "length (debits_of SeqFirst ds) + length (debits_of SeqRecurring ds) = length ds
    \<longleftrightarrow> list_all (\<lambda>d. de_SequenceType d \<in> {SeqFirst, SeqRecurring}) ds"
proof -
  have "length (debits_of SeqFirst ds) + length (debits_of SeqRecurring ds)
      = length (filter (\<lambda>d. de_SequenceType d \<in> {SeqFirst, SeqRecurring}) ds)"
    using seqs_differ by (induction ds) auto
  then show ?thesis using filter_True [of ds] filter_id_conv
    by (metis (no_types, lifting) length_filter_less less_irrefl list_all_iff)
qed

lemma document_of_collectable:
  assumes "debit_sum (in_Debits i) < 2 ^ 63" "collectable i"
  shows "\<exists>doc. document_of i = Inr doc \<and> doc_NbOfTxs doc = int (length (in_Debits i))
    \<and> read_cents (doc_CtrlSum doc) = Some (debit_sum (in_Debits i))
    \<and> mset (concat (map pi_Tx (doc_PmtInf doc))) = image_mset transaction_of (mset (in_Debits i))
    \<and> list_all (block_exact (in_Debits i)) (doc_PmtInf doc)"
proof -
  define ds where "ds = in_Debits i"
  have pos: "list_all (\<lambda>d. 0 < de_AmountCents d \<and> de_SequenceType d \<in> {SeqFirst, SeqRecurring}) ds" and ne: "ds \<noteq> []"
    using assms(2) by (simp_all add: collectable_def ds_def)
  note split = debit_sum_split [OF pos]
  have find: "find (\<lambda>d. de_SequenceType d = sq \<and> de_AmountCents d \<le> 0) ds = None" for sq
    using pos by (auto simp: find_None_iff list_all_iff)
  have loop: "debit_loop sq ds [] 0 = Inr (map transaction_of (debits_of sq ds), debit_sum (debits_of sq ds))" for sq
    using debit_loop_cases [of 0 ds sq "[]"] assms(1) find [of sq] split(4) by (simp add: ds_def)
  have nn: "0 \<le> debit_sum (debits_of sq ds)" for sq
    using pos unfolding debit_sum_def by (intro sum_list_nonneg) (auto simp: list_all_iff)
  have wrap: "i64 (debit_sum (debits_of SeqFirst ds)) = debit_sum (debits_of SeqFirst ds)"
      "i64 (debit_sum (debits_of SeqRecurring ds)) = debit_sum (debits_of SeqRecurring ds)" "i64 (debit_sum ds) = debit_sum ds"
    using nn [of SeqFirst] nn [of SeqRecurring] split(1) assms(1) by (auto intro!: i64_id simp: ds_def)
  have count: "int (length (debits_of SeqFirst ds)) + int (length (debits_of SeqRecurring ds)) = int (length ds)"
    using split(2) by linarith
  note total = split(1) and parts = split(3)
  have some: "debits_of SeqFirst ds \<noteq> [] \<or> debits_of SeqRecurring ds \<noteq> []" using split(2) ne by (cases ds) auto
  have nnds: "0 \<le> debit_sum ds" using total nn [of SeqFirst] nn [of SeqRecurring] by linarith
  have exact: "block_exact ds (block_of i sq (map transaction_of (debits_of sq ds)) (debit_sum (debits_of sq ds)))"
    if "debits_of sq ds \<noteq> []" for sq
    using that read_Amount [OF nn] by (simp add: block_exact_def block_of_def)
  consider "debits_of SeqFirst ds = []" "debits_of SeqRecurring ds \<noteq> []" | "debits_of SeqFirst ds \<noteq> []" "debits_of SeqRecurring ds = []"
    | "debits_of SeqFirst ds \<noteq> []" "debits_of SeqRecurring ds \<noteq> []" using some by blast
  then show ?thesis
  proof cases
    case 1
    then have "debit_sum (debits_of SeqRecurring ds) = debit_sum ds" "mset (debits_of SeqRecurring ds) = mset ds"
        "length (debits_of SeqRecurring ds) = length ds" using total parts count by (simp_all add: debit_sum_def)
    moreover from this have "image_mset transaction_of (mset (debits_of SeqRecurring ds)) = image_mset transaction_of (mset ds)" by metis
    ultimately show ?thesis using 1 loop wrap exact [OF 1(2)] ne read_Amount [OF nnds]
      by (simp add: document_of_def block_of_def flip: ds_def)
  next
    case 2
    then have "debit_sum (debits_of SeqFirst ds) = debit_sum ds" "mset (debits_of SeqFirst ds) = mset ds"
        "length (debits_of SeqFirst ds) = length ds" using total parts count by (simp_all add: debit_sum_def)
    moreover from this have "image_mset transaction_of (mset (debits_of SeqFirst ds)) = image_mset transaction_of (mset ds)" by metis
    ultimately show ?thesis using 2 loop wrap exact [OF 2(1)] ne read_Amount [OF nnds]
      by (simp add: document_of_def block_of_def flip: ds_def)
  next
    case 3
    have "image_mset transaction_of (mset (debits_of SeqFirst ds)) + image_mset transaction_of (mset (debits_of SeqRecurring ds))
        = image_mset transaction_of (mset ds)" using parts by (metis image_mset_union)
    then show ?thesis using 3 loop wrap exact [OF 3(1)] exact [OF 3(2)] ne read_Amount [OF nnds] count total
      by (simp add: document_of_def block_of_def flip: ds_def)
  qed
qed

lemma document_of_refused:
  assumes "debit_sum (positive_debits (in_Debits i)) < 2 ^ 63" "document_of i = Inr doc"
  shows "collectable i"
proof -
  obtain ds where ds: "in_Debits i = ds" by blast
  have ne: "ds \<noteq> []" using assms(2) by (auto simp: document_of_def ds)
  have loop: "debit_loop sq ds [] 0 =
    (case find (\<lambda>d. de_SequenceType d = sq \<and> de_AmountCents d \<le> 0) ds of
       Some d \<Rightarrow> Inl (AmountNotPositive (de_EndToEndID d))
     | None \<Rightarrow> Inr (map transaction_of (debits_of sq ds), debit_sum (debits_of sq ds)))" for sq
    using debit_loop_cases [of 0 ds sq "[]"] assms(1) by (simp add: ds split: option.split)
  have find: "find (\<lambda>d. de_SequenceType d = sq \<and> de_AmountCents d \<le> 0) ds = None" if "sq = SeqFirst \<or> sq = SeqRecurring" for sq
    using assms(2) ne that unfolding document_of_def ds
    by (auto simp: loop ds split: option.splits if_splits)
  have "int (length (debits_of SeqFirst ds)) + int (length (debits_of SeqRecurring ds)) = int (length ds)"
    using assms(2) ne find unfolding document_of_def ds by (auto simp: loop ds split: if_splits)
  then have "list_all (\<lambda>d. de_SequenceType d \<in> {SeqFirst, SeqRecurring}) ds"
    using length_two_seqs [of ds] by linarith
  then show ?thesis using find [of SeqFirst] find [of SeqRecurring] ne
    unfolding collectable_def ds by (auto simp: find_None_iff list_all_iff not_le)
qed

text \<open>
  C28. A direct debit file is written exactly if there are debits, all amounts are positive and all sequence types
  known; it holds every debit once, in the block of its sequence type, and the counts and control
  sums of the blocks and of the file, read back from their texts, are those of the debits.
\<close>

theorem document_exact:
  assumes "debit_sum (positive_debits (in_Debits i)) < 2 ^ 63"
  shows "case document_of i of
      Inl e \<Rightarrow> \<not> collectable i
    | Inr doc \<Rightarrow> collectable i \<and> doc_NbOfTxs doc = int (length (in_Debits i))
        \<and> read_cents (doc_CtrlSum doc) = Some (debit_sum (in_Debits i))
        \<and> mset (concat (map pi_Tx (doc_PmtInf doc))) = image_mset transaction_of (mset (in_Debits i))
        \<and> list_all (block_exact (in_Debits i)) (doc_PmtInf doc)"
proof (cases "collectable i")
  case True
  then have "debit_sum (in_Debits i) < 2 ^ 63"
    using assms debit_sum_split(4) [of "in_Debits i"] by (simp add: collectable_def)
  then show ?thesis using document_of_collectable True by fastforce
next
  case False
  then show ?thesis using document_of_refused [OF assms] by (cases "document_of i") auto
qed

definition sample_debit :: debit where
  "sample_debit = \<lparr>de_EndToEndID = ''F1'', de_AmountCents = 1205, de_SequenceType = SeqFirst, de_MandateID = ''M1'', de_MandateDate = 736000,
     de_DebtorName = ''Jo'', de_IBAN = ''DE89370400440532013000'', de_BIC = '''', de_Remittance = ''Fee''\<rparr>"

definition sample_initiation :: initiation where
  "sample_initiation = \<lparr>in_MessageID = ''R1'', in_Created = (736000, 0), in_CollectionDate = 736010,
     in_Creditor = \<lparr>cr_Name = ''Club'', cr_CreditorID = ''DE98ZZZ09999999999'', cr_IBAN = ''DE89370400440532013000'', cr_BIC = ''''\<rparr>,
     in_Debits = [sample_debit, sample_debit\<lparr>de_EndToEndID := ''F2'', de_SequenceType := SeqRecurring, de_AmountCents := 95\<rparr>]\<rparr>"

theorem document_exact_witness:
  "case document_of sample_initiation of Inl e \<Rightarrow> False | Inr doc \<Rightarrow> read_cents (doc_CtrlSum doc) = Some 1300"
proof -
  have s: "debit_sum (positive_debits (in_Debits sample_initiation)) < 2 ^ 63" "debit_sum (in_Debits sample_initiation) = 1300"
      "collectable sample_initiation"
    by (simp_all add: sample_initiation_def sample_debit_def debit_sum_def collectable_def)
  show ?thesis using document_exact [OF s(1)] s(2,3) by (cases "document_of sample_initiation") auto
qed

end
