(* ===== verification/DebitRuns.thy ===== *)
theory DebitRuns
  imports Ledger Sepa
begin

text \<open>
  Direct debit runs (\<open>server/internal/store/sepa.go\<close>, the checks of \<open>handlers/sepa.go\<close>): the creditor and the mandates, which
  fees can be collected, creating, listing, cancelling and confirming runs, and the file of a run. The tables are
  those of \<open>Dues\<close>. \<open>U\<close> is \<open>strings.ToUpper\<close>.
\<close>

subsection \<open>Creditor and mandates\<close>

definition DefaultRemittanceTemplate :: string where
  "DefaultRemittanceTemplate = ''{description} Mitglied {number}''"

definition GetSEPACreditor :: "dues \<Rightarrow> sepa_creditor option" where
  "GetSEPACreditor d = du_creditor d"

definition SetSEPACreditor :: "sepa_creditor \<Rightarrow> dues \<Rightarrow> dues" where
  "SetSEPACreditor c d = d\<lparr>du_creditor := Some c\<rparr>"

definition mandate_live :: "dues \<Rightarrow> string \<Rightarrow> mandate_row option" where
  "mandate_live d i = find (\<lambda>m. md_member m = i \<and> \<not> md_deleted m) (du_mandates d)"

definition GetMandateReference :: "dues \<Rightarrow> string \<Rightarrow> dues_error + string option" where
  "GetMandateReference d i =
     (if member_live d i = None then Inl DNotFound else Inr (map_option md_reference (mandate_live d i)))"

definition SetMandateReference :: "string \<Rightarrow> string option \<Rightarrow> dues \<Rightarrow> dues_error + dues" where
  "SetMandateReference i ref d =
     (if requireLiveMember d i = Inl DInvalidReference then Inl DNotFound
      else case ref of
        None \<Rightarrow> Inr (d\<lparr>du_mandates := map (\<lambda>m. if md_member m = i \<and> \<not> md_deleted m then m\<lparr>md_deleted := True\<rparr> else m) (du_mandates d)\<rparr>)
      | Some r \<Rightarrow>
          if list_ex (\<lambda>m. md_reference m = r \<and> \<not> md_deleted m \<and> md_member m \<noteq> i) (du_mandates d) then Inl DConflict
          else if list_ex (\<lambda>m. md_member m = i) (du_mandates d)
          then Inr (d\<lparr>du_mandates := map (\<lambda>m. if md_member m = i then m\<lparr>md_reference := r, md_deleted := False\<rparr> else m) (du_mandates d)\<rparr>)
          else Inr (d\<lparr>du_mandates := du_mandates d @ [\<lparr>md_member = i, md_reference = r, md_deleted = False\<rparr>]\<rparr>))"

subsection \<open>Candidates\<close>

record candidate =
  ca_FeeID :: string
  ca_Member :: member_ref
  ca_AmountCents :: int
  ca_Year :: int
  ca_Description :: "string option"
  ca_DueDate :: stamp
  ca_AccountHolder :: "string option"
  ca_IBAN :: "string option"
  ca_BIC :: "string option"
  ca_MandateDate :: "stamp option"
  ca_MandateRef :: "string option"
  ca_SequenceType :: string
  ca_Issues :: "string list"

definition DebtorName :: "candidate \<Rightarrow> string" where
  "DebtorName c =
     (case ca_AccountHolder c of
        Some h \<Rightarrow> if TrimSpace h \<noteq> '''' then TrimSpace h else mr_FirstName (ca_Member c) @ '' '' @ mr_LastName (ca_Member c)
      | None \<Rightarrow> mr_FirstName (ca_Member c) @ '' '' @ mr_LastName (ca_Member c))"

text \<open>\<open>strings.NewReplacer\<close>: at each place the first of the texts that stands there is replaced.\<close>

function replace_all :: "(string \<times> string) list \<Rightarrow> string \<Rightarrow> string" where
  "replace_all rs s =
     (case s of
        [] \<Rightarrow> []
      | c # r \<Rightarrow>
          (case find (\<lambda>(k, t). k \<noteq> [] \<and> take (length k) s = k) rs of
             Some (k, t) \<Rightarrow> if k = [] then [] else t @ replace_all rs (drop (length k) s)
           | None \<Rightarrow> c # replace_all rs r))"
  by pat_completeness auto
termination
  by (relation "measure (\<lambda>(rs, s). length s)") auto

declare replace_all.simps [simp del]

definition comma :: "string \<Rightarrow> string" where
  "comma s = (case dropWhile (\<lambda>c. c \<noteq> CHR ''.'') s of [] \<Rightarrow> s | _ # r \<Rightarrow> takeWhile (\<lambda>c. c \<noteq> CHR ''.'') s @ '','' @ r)"

definition Remittance :: "candidate \<Rightarrow> string \<Rightarrow> string" where
  "Remittance c template =
     (let tpl = (if TrimSpace template = '''' then DefaultRemittanceTemplate else template);
          default_text = ''Beitrag '' @ int_text (ca_Year c);
          desc = (case ca_Description c of
                    Some s \<Rightarrow> if TrimSpace s \<noteq> '''' then TrimSpace s else default_text
                  | None \<Rightarrow> default_text) in
      sepa_Text (replace_all
        [(''{firstName}'', mr_FirstName (ca_Member c)), (''{lastName}'', mr_LastName (ca_Member c)),
         (''{number}'', int_text (mr_Number (ca_Member c))), (''{year}'', int_text (ca_Year c)), (''{description}'', desc),
         (''{amount}'', comma (sepa_Amount (ca_AmountCents c)) @ '' EUR'')] tpl) 140)"

definition check_candidate_issues :: "(string \<Rightarrow> string) \<Rightarrow> candidate \<Rightarrow> string list" where
  "check_candidate_issues U c =
     (case ca_IBAN c of
        None \<Rightarrow> [''MISSING_IBAN'']
      | Some s \<Rightarrow> if s = '''' then [''MISSING_IBAN'']
                  else if \<not> ValidIBAN (NormalizeIBAN U s) then [''INVALID_IBAN''] else [])
     @ (case ca_BIC c of
          None \<Rightarrow> []
        | Some b \<Rightarrow> if b \<noteq> '''' \<and> \<not> ValidBIC (NormalizeIBAN U b) then [''INVALID_BIC''] else [])
     @ (if ca_MandateDate c = None then [''MISSING_MANDATE''] else [])
     @ (case ca_MandateRef c of
          None \<Rightarrow> [''MISSING_MANDATE_REFERENCE'']
        | Some r \<Rightarrow> if \<not> ValidMandateReference r then [''INVALID_MANDATE_REFERENCE''] else [])
     @ (if ca_AmountCents c \<le> 0 then [''INVALID_AMOUNT''] else [])"

text \<open>A live item of a live run with this mandate of the member.\<close>

definition mandate_used :: "dues \<Rightarrow> string \<Rightarrow> string option \<Rightarrow> bool" where
  "mandate_used d i ref \<longleftrightarrow>
     (case ref of None \<Rightarrow> False
      | Some r \<Rightarrow> list_ex (\<lambda>x. \<not> it_deleted x \<and> it_member x = i \<and> it_mandate_ref x = r
          \<and> list_ex (\<lambda>u. ru_id u = it_run x \<and> \<not> ru_deleted u) (du_runs d)) (du_items d))"

definition candidate_row :: "(string \<Rightarrow> string) \<Rightarrow> dues \<Rightarrow> member_ref \<Rightarrow> fee_row \<Rightarrow> candidate" where
  "candidate_row U d m f =
     (let b = bank_live d (mr_ID m);
          ref = map_option md_reference (mandate_live d (mr_ID m));
          c = \<lparr>ca_FeeID = f_id f, ca_Member = m, ca_AmountCents = f_amount f - paidSinceReturn (links d (f_id f)), ca_Year = f_year f,
               ca_Description = f_description f, ca_DueDate = f_due f, ca_AccountHolder = Option.bind b bd_holder,
               ca_IBAN = Option.bind b bd_iban, ca_BIC = Option.bind b bd_bic, ca_MandateDate = Option.bind b bd_mandate_date,
               ca_MandateRef = ref, ca_SequenceType = (if mandate_used d (mr_ID m) ref then SeqRecurring else SeqFirst),
               ca_Issues = []\<rparr> in
      c\<lparr>ca_Issues := check_candidate_issues U c\<rparr>)"

definition candidate_of :: "(string \<Rightarrow> string) \<Rightarrow> dues \<Rightarrow> string list option \<Rightarrow> fee_row \<Rightarrow>
    ((string \<times> string \<times> int \<times> stamp \<times> string) \<times> candidate) list" where
  "candidate_of U d ids f =
     (case member_live d (f_member f) of
        None \<Rightarrow> []
      | Some m \<Rightarrow>
          if \<not> f_deleted f \<and> f_paid f = None \<and> \<not> inCollection d (f_id f)
             \<and> (case ids of None \<Rightarrow> True | Some is \<Rightarrow> List.member is (f_id f))
          then [(due_key m (f_due f) (f_id f), candidate_row U d m f)]
          else [])"

definition sepaCandidates :: "(string \<Rightarrow> string) \<Rightarrow> dues \<Rightarrow> string list option \<Rightarrow> candidate list" where
  "sepaCandidates U d ids = map snd (sort_key fst (concat (map (candidate_of U d ids) (du_fees d))))"

definition SEPACandidates :: "(string \<Rightarrow> string) \<Rightarrow> dues \<Rightarrow> candidate list" where
  "SEPACandidates U d = sepaCandidates U d None"

subsection \<open>Runs\<close>

record run_item =
  ri_ID :: string
  ri_FeeID :: string
  ri_Member :: member_ref
  ri_AmountCents :: int
  ri_SequenceType :: string
  ri_MandateRef :: string
  ri_MandateDate :: stamp
  ri_DebtorName :: string
  ri_IBAN :: string
  ri_BIC :: "string option"
  ri_Remittance :: string

record sepa_run =
  sr_ID :: string
  sr_CollectionDate :: stamp
  sr_Creditor :: sepa_creditor
  sr_PaidDate :: "stamp option"
  sr_CreatedAt :: stamp
  sr_Items :: "run_item list"

definition TotalCents :: "sepa_run \<Rightarrow> int" where
  "TotalCents r = foldl (\<lambda>n i. i64 (n + ri_AmountCents i)) 0 (sr_Items r)"

record run_input =
  rn_CollectionDate :: stamp
  rn_RemittanceTemplate :: "string option"
  rn_FeeIDs :: "string list"

text \<open>The items of a run with their members, in the order of the query.\<close>

definition item_view :: "dues \<Rightarrow> item_row \<Rightarrow> ((string \<times> string \<times> int \<times> string) \<times> string \<times> run_item) list" where
  "item_view d x =
     (case member_any d (it_member x) of
        None \<Rightarrow> []
      | Some m \<Rightarrow>
          if \<not> it_deleted x \<and> list_ex (\<lambda>u. ru_id u = it_run x \<and> \<not> ru_deleted u) (du_runs d)
          then [((mr_LastName m, mr_FirstName m, mr_Number m, it_id x), it_run x,
                 \<lparr>ri_ID = it_id x, ri_FeeID = it_fee x, ri_Member = m, ri_AmountCents = it_amount x, ri_SequenceType = it_sequence x,
                  ri_MandateRef = it_mandate_ref x, ri_MandateDate = it_mandate_date x, ri_DebtorName = it_debtor x,
                  ri_IBAN = it_iban x, ri_BIC = it_bic x, ri_Remittance = it_remittance x\<rparr>)]
          else [])"

definition run_items :: "dues \<Rightarrow> string \<Rightarrow> (string \<times> run_item) list" where
  "run_items d i = map snd (sort_key fst (concat (map (item_view d) (filter (\<lambda>x. i = '''' \<or> it_run x = i) (du_items d)))))"

definition querySEPARuns :: "dues \<Rightarrow> string \<Rightarrow> sepa_run list" where
  "querySEPARuns d i =
     map (\<lambda>r. \<lparr>sr_ID = ru_id r, sr_CollectionDate = ru_collection r,
               sr_Creditor = (ru_creditor r)\<lparr>sc_RemittanceTemplate := None\<rparr>, sr_PaidDate = ru_paid r, sr_CreatedAt = ru_created r,
               sr_Items = map snd (filter (\<lambda>x. fst x = ru_id r) (run_items d i))\<rparr>)
       (rev (sort_key (\<lambda>r. (ru_created r, ru_id r)) (filter (\<lambda>r. \<not> ru_deleted r \<and> (i = '''' \<or> ru_id r = i)) (du_runs d))))"

definition ListSEPARuns :: "dues \<Rightarrow> sepa_run list" where
  "ListSEPARuns d = querySEPARuns d ''''"

definition GetSEPARun :: "dues \<Rightarrow> string \<Rightarrow> dues_error + sepa_run" where
  "GetSEPARun d i = (case querySEPARuns d i of [] \<Rightarrow> Inl DNotFound | r # rs \<Rightarrow> Inr r)"

text \<open>The row of an item; \<open>None\<close> where the code would follow a nil pointer.\<close>

definition item_of :: "(string \<Rightarrow> string) \<Rightarrow> string \<Rightarrow> string \<Rightarrow> string \<Rightarrow> candidate \<Rightarrow> item_row option" where
  "item_of U template run i c =
     (case (ca_MandateRef c, ca_MandateDate c, ca_IBAN c) of
        (Some ref, Some date, Some iban) \<Rightarrow>
          Some \<lparr>it_id = i, it_run = run, it_fee = ca_FeeID c, it_member = mr_ID (ca_Member c), it_amount = ca_AmountCents c,
                it_sequence = ca_SequenceType c, it_mandate_ref = ref, it_mandate_date = date, it_debtor = DebtorName c,
                it_iban = NormalizeIBAN U iban,
                it_bic = (case ca_BIC c of None \<Rightarrow> None | Some b \<Rightarrow> if b \<noteq> '''' then Some (NormalizeIBAN U b) else None),
                it_remittance = Remittance c template, it_deleted = False\<rparr>
      | _ \<Rightarrow> None)"

fun insert_items :: "(string \<Rightarrow> string) \<Rightarrow> (nat \<Rightarrow> string) \<Rightarrow> nat \<Rightarrow> string \<Rightarrow> string \<Rightarrow> candidate list \<Rightarrow> dues \<Rightarrow> dues_error + dues" where
  "insert_items U newID k template run [] d = Inr d"
| "insert_items U newID k template run (c # cs) d =
     (case item_of U template run (newID k) c of
        None \<Rightarrow> Inl DPanic
      | Some x \<Rightarrow>
          if list_ex (\<lambda>y. it_id y = it_id x) (du_items d) then Inl DConflict
          else insert_items U newID (Suc k) template run cs (d\<lparr>du_items := du_items d @ [x]\<rparr>))"

definition CreateSEPARun :: "(string \<Rightarrow> string) \<Rightarrow> (nat \<Rightarrow> string) \<Rightarrow> nat \<Rightarrow> stamp \<Rightarrow> run_input \<Rightarrow> dues \<Rightarrow> dues_error + (sepa_run \<times> dues)" where
  "CreateSEPARun U newID k now r d =
     (let ids = remdups_adj (sort (rn_FeeIDs r)) in
      if ids = [] then Inl SEPANoFees
      else case GetSEPACreditor d of
        None \<Rightarrow> Inl SEPANotConfigured
      | Some c \<Rightarrow>
          (let template = (case rn_RemittanceTemplate r of
                             Some t \<Rightarrow> t
                           | None \<Rightarrow> (case sc_RemittanceTemplate c of Some t \<Rightarrow> t | None \<Rightarrow> ''''));
               runID = newID k;
               cands = sepaCandidates U d (Some ids);
               invalid = map ca_FeeID (filter (\<lambda>x. ca_Issues x \<noteq> []) cands)
                         @ filter (\<lambda>i. \<not> List.member (map ca_FeeID cands) i) ids in
           if invalid \<noteq> [] then Inl (SEPAInvalid (sort invalid))
           else if list_ex (\<lambda>u. ru_id u = runID) (du_runs d) then Inl DConflict
           else (case insert_items U newID (Suc k) template runID cands
                    (d\<lparr>du_runs := du_runs d @ [\<lparr>ru_id = runID, ru_collection = dateOnly (rn_CollectionDate r),
                         ru_creditor = c, ru_paid = None, ru_created = now, ru_deleted = False\<rparr>]\<rparr>) of
                   Inl e \<Rightarrow> Inl e
                 | Inr d' \<Rightarrow> (case GetSEPARun d' runID of Inl e \<Rightarrow> Inl e | Inr run \<Rightarrow> Inr (run, d')))))"

definition CancelSEPARun :: "string \<Rightarrow> dues \<Rightarrow> dues_error + dues" where
  "CancelSEPARun i d =
     (case find (\<lambda>u. ru_id u = i \<and> \<not> ru_deleted u) (du_runs d) of
        None \<Rightarrow> Inl DNotFound
      | Some u \<Rightarrow>
          if ru_paid u \<noteq> None then Inl SEPARunPaid
          else Inr (d\<lparr>du_items := map (\<lambda>x. if it_run x = i \<and> \<not> it_deleted x then x\<lparr>it_deleted := True\<rparr> else x) (du_items d),
                      du_runs := map (\<lambda>u. if ru_id u = i \<and> \<not> ru_deleted u then u\<lparr>ru_deleted := True\<rparr> else u) (du_runs d)\<rparr>))"

definition ConfirmSEPARun :: "string \<Rightarrow> stamp \<Rightarrow> dues \<Rightarrow> dues_error + (sepa_run \<times> dues)" where
  "ConfirmSEPARun i paid d =
     (let date = dateOnly paid in
      if find (\<lambda>u. ru_id u = i \<and> \<not> ru_deleted u) (du_runs d) = None then Inl DNotFound
      else (let d' = d\<lparr>du_runs := map (\<lambda>u. if ru_id u = i \<and> \<not> ru_deleted u then u\<lparr>ru_paid := Some date\<rparr> else u) (du_runs d),
                       du_fees := map (\<lambda>f. if \<not> f_deleted f \<and> f_paid f = None
                            \<and> list_ex (\<lambda>x. it_run x = i \<and> \<not> it_deleted x \<and> it_fee x = f_id f) (du_items d)
                          then f\<lparr>f_paid := Some date\<rparr> else f) (du_fees d)\<rparr> in
            case GetSEPARun d' i of Inl e \<Rightarrow> Inl e | Inr run \<Rightarrow> Inr (run, d')))"

text \<open>\<open>SEPARun.Initiation\<close>; the file shows a time as its day, and the second of the day for the creation.\<close>

definition day_of :: "stamp \<Rightarrow> date" where
  "day_of t = t div 86400000"

definition no_dashes :: "string \<Rightarrow> string" where
  "no_dashes s = filter (\<lambda>c. c \<noteq> CHR ''-'') s"

definition debit_of :: "run_item \<Rightarrow> debit" where
  "debit_of x = \<lparr>de_EndToEndID = no_dashes (ri_FeeID x), de_AmountCents = ri_AmountCents x, de_SequenceType = ri_SequenceType x,
     de_MandateID = ri_MandateRef x, de_MandateDate = day_of (ri_MandateDate x), de_DebtorName = ri_DebtorName x, de_IBAN = ri_IBAN x,
     de_BIC = (case ri_BIC x of None \<Rightarrow> '''' | Some b \<Rightarrow> b), de_Remittance = ri_Remittance x\<rparr>"

definition Initiation :: "sepa_run \<Rightarrow> initiation" where
  "Initiation r =
     (let c = sr_Creditor r in
      \<lparr>in_MessageID = no_dashes (sr_ID r), in_Created = (day_of (sr_CreatedAt r), nat (sr_CreatedAt r mod 86400000 div 1000)),
       in_CollectionDate = day_of (sr_CollectionDate r),
       in_Creditor = \<lparr>cr_Name = sc_Name c, cr_CreditorID = sc_CreditorID c, cr_IBAN = sc_IBAN c,
                      cr_BIC = (case sc_BIC c of None \<Rightarrow> '''' | Some b \<Rightarrow> b)\<rparr>,
       in_Debits = map debit_of (sr_Items r)\<rparr>)"

subsection \<open>What can be collected\<close>

definition due_now :: "dues \<Rightarrow> string \<Rightarrow> int" where
  "due_now d i = (case fee_live d i of None \<Rightarrow> 0 | Some f \<Rightarrow> f_amount f - paidSinceReturn (links d i))"

text \<open>
  A fee can be debited: it is open, in no run that waits for its confirmation, and something is due; its member is there,
  with a valid IBAN, a valid BIC if there is one, and the date and a valid reference of a mandate.
\<close>

definition debitable :: "(string \<Rightarrow> string) \<Rightarrow> dues \<Rightarrow> string \<Rightarrow> bool" where
  "debitable U d i \<longleftrightarrow> (\<exists>f m b iban r. fee_live d i = Some f \<and> f_paid f = None \<and> \<not> inCollection d i \<and> 0 < due_now d i
     \<and> member_live d (f_member f) = Some m \<and> bank_live d (mr_ID m) = Some b
     \<and> bd_iban b = Some iban \<and> iban \<noteq> '''' \<and> ValidIBAN (NormalizeIBAN U iban)
     \<and> (\<forall>bic. bd_bic b = Some bic \<and> bic \<noteq> '''' \<longrightarrow> ValidBIC (NormalizeIBAN U bic))
     \<and> bd_mandate_date b \<noteq> None \<and> mandate_live d (mr_ID m) = Some r \<and> ValidMandateReference (md_reference r))"

text \<open>Primary keys and the foreign key of the items; new ids are not used yet.\<close>

definition debits_ok :: "dues \<Rightarrow> bool" where
  "debits_ok d \<longleftrightarrow> distinct (map it_id (du_items d)) \<and> distinct (map ru_id (du_runs d)) \<and> '''' \<notin> ru_id ` set (du_runs d)
     \<and> it_run ` set (du_items d) \<subseteq> ru_id ` set (du_runs d)"

definition unused_ids :: "(nat \<Rightarrow> string) \<Rightarrow> nat \<Rightarrow> dues \<Rightarrow> bool" where
  "unused_ids newID k d \<longleftrightarrow> inj newID
     \<and> (\<forall>j \<ge> k. newID j \<noteq> '''' \<and> newID j \<notin> it_id ` set (du_items d) \<and> newID j \<notin> ru_id ` set (du_runs d))"

lemma candidate_row_simps [simp]:
  "ca_FeeID (candidate_row U d m f) = f_id f" "ca_Member (candidate_row U d m f) = m"
  "ca_AmountCents (candidate_row U d m f) = f_amount f - paidSinceReturn (links d (f_id f))"
  "ca_IBAN (candidate_row U d m f) = Option.bind (bank_live d (mr_ID m)) bd_iban"
  "ca_BIC (candidate_row U d m f) = Option.bind (bank_live d (mr_ID m)) bd_bic"
  "ca_MandateDate (candidate_row U d m f) = Option.bind (bank_live d (mr_ID m)) bd_mandate_date"
  "ca_MandateRef (candidate_row U d m f) = map_option md_reference (mandate_live d (mr_ID m))"
  "ca_SequenceType (candidate_row U d m f)
     = (if mandate_used d (mr_ID m) (map_option md_reference (mandate_live d (mr_ID m))) then SeqRecurring else SeqFirst)"
  "ca_Issues (candidate_row U d m f) = check_candidate_issues U (candidate_row U d m f)"
  by (simp_all add: candidate_row_def Let_def check_candidate_issues_def)

lemma no_issues:
  "ca_Issues (candidate_row U d m f) = [] \<longleftrightarrow>
     0 < f_amount f - paidSinceReturn (links d (f_id f))
     \<and> (\<exists>b iban r. bank_live d (mr_ID m) = Some b \<and> bd_iban b = Some iban \<and> iban \<noteq> '''' \<and> ValidIBAN (NormalizeIBAN U iban)
        \<and> (\<forall>bic. bd_bic b = Some bic \<and> bic \<noteq> '''' \<longrightarrow> ValidBIC (NormalizeIBAN U bic))
        \<and> bd_mandate_date b \<noteq> None \<and> mandate_live d (mr_ID m) = Some r \<and> ValidMandateReference (md_reference r))"
  by (cases "bank_live d (mr_ID m)"; cases "mandate_live d (mr_ID m)")
    (auto simp: check_candidate_issues_def not_le split: option.splits if_splits)

lemma candidate_of_value:
  "candidate_of U d (Some is) f = (case member_live d (f_member f) of None \<Rightarrow> []
     | Some m \<Rightarrow> if \<not> f_deleted f \<and> f_paid f = None \<and> \<not> inCollection d (f_id f) \<and> f_id f \<in> set is
                then [(due_key m (f_due f) (f_id f), candidate_row U d m f)] else [])"
  by (simp add: candidate_of_def List.member_iff split: option.split)

lemma sepaCandidates_iff:
  "c \<in> set (sepaCandidates U d (Some is)) \<longleftrightarrow> (\<exists>f \<in> set (du_fees d). \<exists>m. member_live d (f_member f) = Some m
     \<and> \<not> f_deleted f \<and> f_paid f = None \<and> \<not> inCollection d (f_id f) \<and> f_id f \<in> set is \<and> c = candidate_row U d m f)"
proof -
  have "snd ` set (candidate_of U d (Some is) f) = {c. \<exists>m. member_live d (f_member f) = Some m
     \<and> \<not> f_deleted f \<and> f_paid f = None \<and> \<not> inCollection d (f_id f) \<and> f_id f \<in> set is \<and> c = candidate_row U d m f}" for f
    by (cases "member_live d (f_member f)") (auto simp: candidate_of_value)
  then show ?thesis by (auto simp: sepaCandidates_def image_UN)
qed

lemma sepaCandidates_distinct:
  assumes "distinct (map f_id (du_fees d))"
  shows "distinct (map ca_FeeID (sepaCandidates U d (Some is)))"
proof -
  have "map (\<lambda>q. ca_FeeID (snd q)) (concat (map (candidate_of U d (Some is)) fs))
      = map f_id (filter (\<lambda>f. candidate_of U d (Some is) f \<noteq> []) fs)" for fs
    by (induction fs) (auto simp: candidate_of_value split: option.splits)
  then show ?thesis
    using assms distinct_sort_map [of "\<lambda>q. ca_FeeID (snd q)" fst "concat (map (candidate_of U d (Some is)) (du_fees d))"]
    by (simp add: sepaCandidates_def comp_def distinct_map_filter)
qed

lemma sepaCandidates_keys: "dues_ok d \<Longrightarrow> distinct (map ca_FeeID (sepaCandidates U d (Some js)))"
  by (rule sepaCandidates_distinct) (simp add: dues_ok_def)

lemma member_live_ID: "member_live d i = Some m \<Longrightarrow> mr_ID m = i"
  by (auto simp: member_live_def dest: find_SomeD)

lemma member_live_any: "dues_ok d \<Longrightarrow> member_live d i = Some m \<Longrightarrow> member_any d i = Some m"
  using find_key' [of "\<lambda>m. mr_ID (m_ref m)" "du_members d"] unfolding member_live_def member_any_def
  by (auto dest!: find_SomeD simp: dues_ok_def)

text \<open>The requested fees without those that are left are the fees that cannot be debited.\<close>

lemma debitable_iff:
  assumes "dues_ok d" "i \<in> set is"
  shows "debitable U d i \<longleftrightarrow> (\<exists>c \<in> set (sepaCandidates U d (Some is)). ca_FeeID c = i \<and> ca_Issues c = [])"
proof
  assume "debitable U d i"
  then obtain f m b iban r where *: "fee_live d i = Some f" "f_paid f = None" "\<not> inCollection d i" "0 < due_now d i"
     "member_live d (f_member f) = Some m" "bank_live d (mr_ID m) = Some b"
     "bd_iban b = Some iban" "iban \<noteq> ''''" "ValidIBAN (NormalizeIBAN U iban)"
     "\<forall>bic. bd_bic b = Some bic \<and> bic \<noteq> '''' \<longrightarrow> ValidBIC (NormalizeIBAN U bic)"
     "bd_mandate_date b \<noteq> None" "mandate_live d (mr_ID m) = Some r" "ValidMandateReference (md_reference r)"
    unfolding debitable_def by blast
  then have f: "f \<in> set (du_fees d)" "f_id f = i" "\<not> f_deleted f" using fee_live_iff [OF assms(1)] by auto
  have due: "0 < f_amount f - paidSinceReturn (links d (f_id f))" using *(1,4) f(2) by (simp add: due_now_def)
  have "ca_Issues (candidate_row U d m f) = []" unfolding no_issues using due * by blast
  moreover have "candidate_row U d m f \<in> set (sepaCandidates U d (Some is))"
    unfolding sepaCandidates_iff using * f assms(2) by blast
  ultimately show "\<exists>c \<in> set (sepaCandidates U d (Some is)). ca_FeeID c = i \<and> ca_Issues c = []"
    using f(2) candidate_row_simps(1) by blast
next
  assume "\<exists>c \<in> set (sepaCandidates U d (Some is)). ca_FeeID c = i \<and> ca_Issues c = []"
  then obtain c where c: "c \<in> set (sepaCandidates U d (Some is))" "ca_FeeID c = i" "ca_Issues c = []" by blast
  then obtain f m where f: "f \<in> set (du_fees d)" "member_live d (f_member f) = Some m" "\<not> f_deleted f" "f_paid f = None"
      "\<not> inCollection d (f_id f)" "f_id f = i" and i: "ca_Issues (candidate_row U d m f) = []"
    unfolding sepaCandidates_iff by auto
  have live: "fee_live d i = Some f" using f fee_live_iff [OF assms(1)] by blast
  show "debitable U d i"
    using i f live unfolding no_issues debitable_def by (simp add: due_now_def)
qed

subsection \<open>What a run holds\<close>

text \<open>The rows a new run inserts, the candidates being without issues.\<close>

fun new_items :: "(string \<Rightarrow> string) \<Rightarrow> (nat \<Rightarrow> string) \<Rightarrow> nat \<Rightarrow> string \<Rightarrow> string \<Rightarrow> candidate list \<Rightarrow> item_row list" where
  "new_items U newID k template run [] = []"
| "new_items U newID k template run (c # cs) = the (item_of U template run (newID k) c) # new_items U newID (Suc k) template run cs"

lemma item_of_fields:
  assumes "item_of U template run i c = Some x"
  shows "it_id x = i" "it_run x = run" "it_fee x = ca_FeeID c" "it_member x = mr_ID (ca_Member c)" "it_amount x = ca_AmountCents c"
    "it_sequence x = ca_SequenceType c" "\<not> it_deleted x" "ca_IBAN c = Some iban \<Longrightarrow> it_iban x = NormalizeIBAN U iban"
    "it_mandate_ref x = the (ca_MandateRef c)"
  using assms by (auto simp: item_of_def split: option.splits)

lemma no_issues_item: "check_candidate_issues U c = [] \<Longrightarrow> \<exists>x. item_of U template run i c = Some x"
  by (auto simp: check_candidate_issues_def item_of_def split: option.splits if_splits)

lemma insert_items_ok:
  assumes "\<forall>c \<in> set cs. check_candidate_issues U c = []" "inj newID" "\<forall>j \<ge> k. newID j \<notin> it_id ` set (du_items d)"
  shows "insert_items U newID k template run cs d = Inr (d\<lparr>du_items := du_items d @ new_items U newID k template run cs\<rparr>)"
  using assms
proof (induction cs arbitrary: k d)
  case (Cons c cs)
  obtain x where x: "item_of U template run (newID k) c = Some x" using no_issues_item Cons.prems(1) by fastforce
  have new: "\<not> list_ex (\<lambda>y. it_id y = it_id x) (du_items d)"
    using spec [OF Cons.prems(3), of k] item_of_fields(1) [OF x] by (auto simp: list_ex_iff image_iff)
  have later: "newID j \<noteq> newID k" if "Suc k \<le> j" for j using injD [OF Cons.prems(2), of j k] that by auto
  have "insert_items U newID (Suc k) template run cs (d\<lparr>du_items := du_items d @ [x]\<rparr>)
      = Inr (d\<lparr>du_items := du_items d @ x # new_items U newID (Suc k) template run cs\<rparr>)"
    using Cons.IH [of "Suc k" "d\<lparr>du_items := du_items d @ [x]\<rparr>"] Cons.prems item_of_fields(1) [OF x] later by simp
  then show ?case using x new by simp
qed simp

lemma insert_items_Inr:
  "insert_items U newID k template run cs d = Inr d' \<Longrightarrow> d' = d\<lparr>du_items := du_items d @ new_items U newID k template run cs\<rparr>"
proof (induction cs arbitrary: k d)
  case (Cons c cs)
  obtain x where x: "item_of U template run (newID k) c = Some x"
    using Cons.prems by (cases "item_of U template run (newID k) c") simp_all
  then have "insert_items U newID (Suc k) template run cs (d\<lparr>du_items := du_items d @ [x]\<rparr>) = Inr d'"
    using Cons.prems by (simp split: if_splits)
  from Cons.IH [OF this] show ?case using x by simp
qed simp

lemma new_items_fields:
  assumes "\<forall>c \<in> set cs. check_candidate_issues U c = []"
  shows "map it_id (new_items U newID k template run cs) = map newID [k..<k + length cs]
    \<and> map (\<lambda>x. (it_fee x, it_amount x)) (new_items U newID k template run cs) = map (\<lambda>c. (ca_FeeID c, ca_AmountCents c)) cs
    \<and> (\<forall>x \<in> set (new_items U newID k template run cs). \<exists>c \<in> set cs. \<exists>i. item_of U template run i c = Some x)"
  using assms
proof (induction cs arbitrary: k)
  case (Cons c cs)
  obtain x where x: "item_of U template run (newID k) c = Some x" using no_issues_item Cons.prems by fastforce
  show ?case using Cons.IH [of "Suc k"] Cons.prems x item_of_fields [OF x] by (auto simp: upt_rec)
qed simp

text \<open>A run that was just inserted is read back with its items.\<close>

lemma filter_append_new: "\<forall>x \<in> set xs. \<not> P x \<Longrightarrow> \<forall>y \<in> set ys. P y \<Longrightarrow> filter P (xs @ ys) = ys"
  by (simp add: filter_empty_conv)

definition read_item :: "dues \<Rightarrow> item_row \<Rightarrow> run_item" where
  "read_item d x =
     \<lparr>ri_ID = it_id x, ri_FeeID = it_fee x, ri_Member = the (member_any d (it_member x)), ri_AmountCents = it_amount x,
      ri_SequenceType = it_sequence x, ri_MandateRef = it_mandate_ref x, ri_MandateDate = it_mandate_date x,
      ri_DebtorName = it_debtor x, ri_IBAN = it_iban x, ri_BIC = it_bic x, ri_Remittance = it_remittance x\<rparr>"

lemma GetSEPARun_new:
  assumes "du_runs d' = rs @ [u]" "du_items d' = is @ xs" "du_members d' = du_members d"
    "ru_id u = i" "\<not> ru_deleted u" "i \<noteq> ''''" "i \<notin> ru_id ` set rs" "i \<notin> it_run ` set is"
    "\<forall>x \<in> set xs. it_run x = i \<and> \<not> it_deleted x \<and> member_any d (it_member x) \<noteq> None"
  shows "\<exists>items. mset items = image_mset (read_item d) (mset xs)
    \<and> GetSEPARun d' i = Inr \<lparr>sr_ID = i, sr_CollectionDate = ru_collection u, sr_Creditor = (ru_creditor u)\<lparr>sc_RemittanceTemplate := None\<rparr>,
         sr_PaidDate = ru_paid u, sr_CreatedAt = ru_created u, sr_Items = items\<rparr>"
proof -
  have m: "member_any d' = member_any d" by (simp add: member_any_def fun_eq_iff assms(3))
  have fi: "filter (\<lambda>x. i = '''' \<or> it_run x = i) (du_items d') = xs"
    unfolding assms(2) using assms(6,8,9) by (intro filter_append_new) auto
  have fr: "filter (\<lambda>r. \<not> ru_deleted r \<and> (i = '''' \<or> ru_id r = i)) (du_runs d') = [u]"
    unfolding assms(1) using assms(4-7) by (intro filter_append_new) (auto simp: image_iff)
  have live: "list_ex (\<lambda>u. ru_id u = i \<and> \<not> ru_deleted u) (du_runs d')" using assms(1,4,5) by simp
  have view: "map snd (item_view d' x) = [(i, read_item d x)]" if "x \<in> set xs" for x
    using assms(9) that live by (auto simp: item_view_def m read_item_def)
  have "mset (run_items d' i) = image_mset snd (mset (concat (map (item_view d') xs)))"
    by (simp add: run_items_def fi)
  also have "\<dots> = image_mset (\<lambda>x. (i, read_item d x)) (mset xs)"
    using view by (induction xs) (simp_all flip: mset_map)
  finally have items: "mset (run_items d' i) = image_mset (\<lambda>x. (i, read_item d x)) (mset xs)" .
  then have "\<forall>q \<in> set (run_items d' i). fst q = i" unfolding set_mset_mset [symmetric] by auto
  then have "filter (\<lambda>x. fst x = i) (run_items d' i) = run_items d' i" by (simp add: filter_id_conv)
  moreover have "mset (map snd (run_items d' i)) = image_mset (read_item d) (mset xs)"
    unfolding mset_map items by (simp add: multiset.map_comp comp_def)
  ultimately show ?thesis using assms(4) by (intro exI [of _ "map snd (run_items d' i)"]) (simp add: GetSEPARun_def querySEPARuns_def fr)
qed

subsection \<open>Creating a run\<close>

definition item_ok :: "run_item \<Rightarrow> bool" where
  "item_ok x \<longleftrightarrow> 0 < ri_AmountCents x \<and> ValidIBAN (ri_IBAN x) \<and> ValidMandateReference (ri_MandateRef x)
     \<and> ri_SequenceType x \<in> {SeqFirst, SeqRecurring}"

lemma invalid_set:
  fixes U :: "string \<Rightarrow> string" and js :: "string list"
  assumes "dues_ok d"
  defines "cands \<equiv> sepaCandidates U d (Some js)"
  shows "set (map ca_FeeID (filter (\<lambda>x. ca_Issues x \<noteq> []) cands) @ filter (\<lambda>i. \<not> List.member (map ca_FeeID cands) i) js)
    = {i \<in> set js. \<not> debitable U d i}"
proof -
  have sub: "ca_FeeID c \<in> set js" if "c \<in> set cands" for c
    using that unfolding cands_def sepaCandidates_iff by auto
  have one: "c = c'" if "c \<in> set cands" "c' \<in> set cands" "ca_FeeID c = ca_FeeID c'" for c c'
    using sepaCandidates_keys [OF assms(1), of U js] that by (auto simp: cands_def distinct_map inj_on_def)
  have "debitable U d i \<longleftrightarrow> (\<exists>c \<in> set cands. ca_FeeID c = i \<and> ca_Issues c = [])" if "i \<in> set js" for i
    using debitable_iff [OF assms(1) that] unfolding cands_def .
  then show ?thesis using sub one by (fastforce simp: List.member_iff)
qed

lemma candidates_of_debitable:
  fixes U :: "string \<Rightarrow> string" and js :: "string list"
  assumes "dues_ok d" "\<forall>i \<in> set js. debitable U d i"
  defines "cands \<equiv> sepaCandidates U d (Some js)"
  shows "\<forall>c \<in> set cands. check_candidate_issues U c = []"
    "mset (map (\<lambda>c. (ca_FeeID c, ca_AmountCents c)) cands) = image_mset (\<lambda>i. (i, due_now d i)) (mset_set (set js))"
proof -
  have c: "check_candidate_issues U c = [] \<and> ca_FeeID c \<in> set js \<and> ca_AmountCents c = due_now d (ca_FeeID c)" if i: "c \<in> set cands" for c
  proof -
    obtain f m where f: "f \<in> set (du_fees d)" "\<not> f_deleted f" "f_id f \<in> set js" "c = candidate_row U d m f"
      using i unfolding cands_def sepaCandidates_iff by blast
    have "ca_Issues c = []"
      using invalid_set [OF assms(1), of U js] i assms(2) f(3) unfolding cands_def by (auto simp: filter_empty_conv)
    moreover have "fee_live d (f_id f) = Some f" using f fee_live_iff [OF assms(1)] by blast
    ultimately show ?thesis using f(3,4) by (simp add: due_now_def)
  qed
  then show "\<forall>c \<in> set cands. check_candidate_issues U c = []" by blast
  have "set (map ca_FeeID cands) = set js"
    using c debitable_iff [OF assms(1)] assms(2) unfolding cands_def by fastforce
  then have "mset (map ca_FeeID cands) = mset_set (set js)"
    using mset_set_set [OF sepaCandidates_keys [OF assms(1), of U js]] by (simp add: cands_def)
  then have "image_mset (\<lambda>i. (i, due_now d i)) (mset_set (set js)) = image_mset (\<lambda>i. (i, due_now d i)) (mset (map ca_FeeID cands))"
    by (simp only:)
  also have "\<dots> = mset (map (\<lambda>c. (ca_FeeID c, due_now d (ca_FeeID c))) cands)"
    by (simp add: multiset.map_comp comp_def)
  also have "map (\<lambda>c. (ca_FeeID c, due_now d (ca_FeeID c))) cands = map (\<lambda>c. (ca_FeeID c, ca_AmountCents c)) cands"
    using c by simp
  finally show "mset (map (\<lambda>c. (ca_FeeID c, ca_AmountCents c)) cands) = image_mset (\<lambda>i. (i, due_now d i)) (mset_set (set js))" by simp
qed

lemma sort_Nil: "sort xs = [] \<longleftrightarrow> xs = []" for xs :: "string list"
proof -
  have "length (sort xs) = length xs" by (rule length_sort)
  then show ?thesis by (metis length_0_conv)
qed

lemma remdups_adj_sort: "set (remdups_adj (sort xs)) = set xs" "remdups_adj (sort xs) = [] \<longleftrightarrow> xs = []" for xs :: "string list"
  by (simp_all add: remdups_adj_Nil_iff sort_Nil)

lemma item_ok_read:
  assumes "item_of U template run i c = Some x" "check_candidate_issues U c = []" "ca_SequenceType c \<in> {SeqFirst, SeqRecurring}"
  shows "item_ok (read_item d x)"
  using assms item_of_fields [OF assms(1)]
  by (auto simp: item_ok_def read_item_def check_candidate_issues_def item_of_def not_le split: option.splits if_splits)

lemma candidate_sequence: "c \<in> set (sepaCandidates U d (Some js)) \<Longrightarrow> ca_SequenceType c \<in> {SeqFirst, SeqRecurring}"
  by (auto simp: sepaCandidates_iff)

lemma candidate_member: "dues_ok d \<Longrightarrow> c \<in> set (sepaCandidates U d (Some js)) \<Longrightarrow> member_any d (mr_ID (ca_Member c)) \<noteq> None"
  using member_live_any member_live_ID unfolding sepaCandidates_iff by fastforce

text \<open>The run that is created when nothing prevents it.\<close>

lemma CreateSEPARun_runs:
  fixes r :: run_input
  assumes ok: "dues_ok d" "debits_ok d" "unused_ids newID k d" and c: "du_creditor d = Some c"
    and ids: "rn_FeeIDs r \<noteq> []" "\<forall>i \<in> set (rn_FeeIDs r). debitable U d i"
  obtains u xs run where
    "CreateSEPARun U newID k now r d = Inr (run, d\<lparr>du_runs := du_runs d @ [u], du_items := du_items d @ xs\<rparr>)"
    "ru_id u = newID k" "\<not> ru_deleted u" "ru_paid u = None" "\<forall>x \<in> set xs. it_run x = newID k \<and> \<not> it_deleted x"
    "map it_id xs = map newID [Suc k..<Suc k + length xs]"
    "mset (map (\<lambda>x. (it_fee x, it_amount x)) xs) = image_mset (\<lambda>i. (i, due_now d i)) (mset_set (set (rn_FeeIDs r)))"
    "mset (sr_Items run) = image_mset (read_item d) (mset xs)" "list_all item_ok (sr_Items run)" "sr_ID run = newID k"
proof -
  define js where "js = remdups_adj (sort (rn_FeeIDs r))"
  have js: "set js = set (rn_FeeIDs r)" "js \<noteq> []" using ids(1) remdups_adj_sort by (auto simp: js_def)
  define cands where "cands = sepaCandidates U d (Some js)"
  define template where "template = (case rn_RemittanceTemplate r of Some t \<Rightarrow> t
      | None \<Rightarrow> (case sc_RemittanceTemplate c of Some t \<Rightarrow> t | None \<Rightarrow> ''''))"
  have all: "\<forall>i \<in> set js. debitable U d i" using ids(2) js(1) by simp
  note cs = candidates_of_debitable [OF ok(1) all, folded cands_def]
  have none: "map ca_FeeID (filter (\<lambda>x. ca_Issues x \<noteq> []) cands) @ filter (\<lambda>i. \<not> List.member (map ca_FeeID cands) i) js = []"
    using invalid_set [OF ok(1), of U js] all unfolding cands_def set_empty [symmetric] by simp
  define u where "u = \<lparr>ru_id = newID k, ru_collection = dateOnly (rn_CollectionDate r), ru_creditor = c, ru_paid = None,
      ru_created = now, ru_deleted = False\<rparr>"
  define xs where "xs = new_items U newID (Suc k) template (newID k) cands"
  have fresh: "inj newID" "newID k \<noteq> ''''" "newID k \<notin> ru_id ` set (du_runs d)" "\<forall>j \<ge> Suc k. newID j \<notin> it_id ` set (du_items d)"
    using ok(3) by (simp_all add: unused_ids_def)
  have notrun: "newID k \<notin> it_run ` set (du_items d)" using ok(2) fresh(3) by (auto simp: debits_ok_def)
  let ?d = "d\<lparr>du_runs := du_runs d @ [u]\<rparr>" and ?d' = "d\<lparr>du_runs := du_runs d @ [u], du_items := du_items d @ xs\<rparr>"
  have ins: "insert_items U newID (Suc k) template (newID k) cands ?d = Inr ?d'"
    using insert_items_ok [OF cs(1) fresh(1), of "Suc k" ?d template "newID k"] fresh(4) by (simp add: xs_def)
  note xf = new_items_fields [OF cs(1), of newID "Suc k" template "newID k", folded xs_def]
  have rows: "\<exists>c \<in> set cands. \<exists>i. item_of U template (newID k) i c = Some x" if "x \<in> set xs" for x
    using xf that by blast
  have xi: "it_run x = newID k \<and> \<not> it_deleted x \<and> member_any d (it_member x) \<noteq> None \<and> item_ok (read_item d x)" if x: "x \<in> set xs" for x
  proof -
    obtain c i where c: "c \<in> set cands" "item_of U template (newID k) i c = Some x" using rows [OF x] by blast
    show ?thesis using item_of_fields [OF c(2)] candidate_member [OF ok(1) c(1) [unfolded cands_def]]
        item_ok_read [OF c(2) _ candidate_sequence [OF c(1) [unfolded cands_def]]] cs(1) c(1) by auto
  qed
  obtain items where items: "mset items = image_mset (read_item d) (mset xs)"
    "GetSEPARun ?d' (newID k) = Inr \<lparr>sr_ID = newID k, sr_CollectionDate = ru_collection u, sr_Creditor = (ru_creditor u)\<lparr>sc_RemittanceTemplate := None\<rparr>,
         sr_PaidDate = ru_paid u, sr_CreatedAt = ru_created u, sr_Items = items\<rparr>"
    using GetSEPARun_new [of ?d' "du_runs d" u "du_items d" xs d "newID k"] fresh(2,3) notrun xi by (auto simp: u_def)
  have "set items = read_item d ` set xs" using items(1) by (metis mset_map set_mset_mset set_image_mset)
  then have good: "list_all item_ok items" using xi by (auto simp: list_all_iff)
  have norun: "\<not> list_ex (\<lambda>u. ru_id u = newID k) (du_runs d)" using fresh(3) by (auto simp: list_ex_iff image_iff)
  let ?run = "\<lparr>sr_ID = newID k, sr_CollectionDate = ru_collection u, sr_Creditor = (ru_creditor u)\<lparr>sc_RemittanceTemplate := None\<rparr>,
         sr_PaidDate = ru_paid u, sr_CreatedAt = ru_created u, sr_Items = items\<rparr>"
  have "CreateSEPARun U newID k now r d = Inr (?run, ?d')"
    unfolding CreateSEPARun_def Let_def GetSEPACreditor_def c option.case js_def [symmetric] cands_def [symmetric]
      template_def [symmetric] none u_def [symmetric] using js(2) norun ins items(2) by simp
  moreover have "map it_id xs = map newID [Suc k..<Suc k + length xs]"
    using xf map_eq_imp_length_eq by metis
  moreover have "mset (map (\<lambda>x. (it_fee x, it_amount x)) xs) = image_mset (\<lambda>i. (i, due_now d i)) (mset_set (set (rn_FeeIDs r)))"
    using xf cs(2) js(1) by simp
  ultimately show thesis
    using that [of ?run xs u] items(1) good xi by (simp add: u_def)
qed

lemma CreateSEPARun_refused:
  fixes r :: run_input
  assumes "dues_ok d" "du_creditor d \<noteq> None" "rn_FeeIDs r \<noteq> []" "\<exists>i \<in> set (rn_FeeIDs r). \<not> debitable U d i"
  shows "\<exists>js. CreateSEPARun U newID k now r d = Inl (SEPAInvalid js) \<and> sorted js \<and> set js = {i \<in> set (rn_FeeIDs r). \<not> debitable U d i}"
proof -
  define js where "js = remdups_adj (sort (rn_FeeIDs r))"
  have js: "set js = set (rn_FeeIDs r)" "js \<noteq> []" using assms(3) remdups_adj_sort by (auto simp: js_def)
  obtain c where c: "du_creditor d = Some c" using assms(2) by blast
  define bad where "bad = map ca_FeeID (filter (\<lambda>x. ca_Issues x \<noteq> []) (sepaCandidates U d (Some js)))
      @ filter (\<lambda>i. \<not> List.member (map ca_FeeID (sepaCandidates U d (Some js))) i) js"
  have bad: "set bad = {i \<in> set (rn_FeeIDs r). \<not> debitable U d i}"
    unfolding bad_def invalid_set [OF assms(1)] js(1) ..
  then have "bad \<noteq> []" using assms(4) by auto
  then have "CreateSEPARun U newID k now r d = Inl (SEPAInvalid (sort bad))"
    unfolding CreateSEPARun_def Let_def GetSEPACreditor_def c option.case js_def [symmetric] bad_def [symmetric] using js(2) by simp
  then show ?thesis using bad by (intro exI [of _ "sort bad"]) simp
qed

lemma CreateSEPARun_early:
  "rn_FeeIDs r = [] \<Longrightarrow> CreateSEPARun U newID k now r d = Inl SEPANoFees"
  "rn_FeeIDs r \<noteq> [] \<Longrightarrow> du_creditor d = None \<Longrightarrow> CreateSEPARun U newID k now r d = Inl SEPANotConfigured"
  by (simp_all add: CreateSEPARun_def Let_def GetSEPACreditor_def sort_Nil)

lemma CreateSEPARun_needs:
  fixes r :: run_input
  assumes "dues_ok d" "CreateSEPARun U newID k now r d = Inr q"
  obtains c where "du_creditor d = Some c" "rn_FeeIDs r \<noteq> []" "\<forall>i \<in> set (rn_FeeIDs r). debitable U d i"
proof -
  have ids: "rn_FeeIDs r \<noteq> []" using assms(2) CreateSEPARun_early(1) [of r U newID k now d] by force
  then have cr: "du_creditor d \<noteq> None" using assms(2) CreateSEPARun_early(2) [of r d U newID k now] by force
  have "\<forall>i \<in> set (rn_FeeIDs r). debitable U d i"
    using CreateSEPARun_refused [OF assms(1) cr ids, of U newID k now] assms(2) by force
  then show thesis using that ids cr by blast
qed

lemma mset_read_items:
  "image_mset (\<lambda>x. (ri_FeeID x, ri_AmountCents x)) (image_mset (read_item d) (mset xs)) = mset (map (\<lambda>x. (it_fee x, it_amount x)) xs)"
  by (simp add: multiset.map_comp comp_def read_item_def)

text \<open>
  C25. A run is refused exactly if no fee is requested, the creditor is not set up, or some of the fees cannot be
  debited, and the last error names exactly these fees in order. Otherwise the run holds each requested
  fee once with what is due on it, all its items can be written into a direct debit file, nothing but the rows of the run
  changes, and its fees are in collection.
\<close>

theorem CreateSEPARun_exact:
  assumes "dues_ok d" "debits_ok d" "unused_ids newID k d"
  shows "case CreateSEPARun U newID k now r d of
      Inl e \<Rightarrow> e = (if rn_FeeIDs r = [] then SEPANoFees else if du_creditor d = None then SEPANotConfigured
                  else SEPAInvalid (case e of SEPAInvalid js \<Rightarrow> js | _ \<Rightarrow> []))
        \<and> (\<forall>js. e = SEPAInvalid js \<longrightarrow> js \<noteq> [] \<and> sorted js \<and> set js = {i \<in> set (rn_FeeIDs r). \<not> debitable U d i})
    | Inr (run, d') \<Rightarrow> rn_FeeIDs r \<noteq> [] \<and> du_creditor d \<noteq> None \<and> (\<forall>i \<in> set (rn_FeeIDs r). debitable U d i \<and> inCollection d' i)
        \<and> image_mset (\<lambda>x. (ri_FeeID x, ri_AmountCents x)) (mset (sr_Items run)) = image_mset (\<lambda>i. (i, due_now d i)) (mset_set (set (rn_FeeIDs r)))
        \<and> list_all item_ok (sr_Items run)
        \<and> (\<exists>u xs. d' = d\<lparr>du_runs := du_runs d @ [u], du_items := du_items d @ xs\<rparr>)"
proof -
  consider "rn_FeeIDs r = []" | "rn_FeeIDs r \<noteq> []" "du_creditor d = None"
    | "rn_FeeIDs r \<noteq> []" "du_creditor d \<noteq> None" "\<exists>i \<in> set (rn_FeeIDs r). \<not> debitable U d i"
    | c where "rn_FeeIDs r \<noteq> []" "du_creditor d = Some c" "\<forall>i \<in> set (rn_FeeIDs r). debitable U d i" by blast
  then show ?thesis
  proof cases
    case 3
    obtain js where js: "CreateSEPARun U newID k now r d = Inl (SEPAInvalid js)" "sorted js" "set js = {i \<in> set (rn_FeeIDs r). \<not> debitable U d i}"
      using CreateSEPARun_refused [OF assms(1) 3(2,1,3)] by blast
    have "js \<noteq> []" using js(3) 3(3) by auto
    then show ?thesis unfolding js(1) sum.case dues_error.case using js(2,3) 3(1,2) by simp
  next
    case (4 c)
    obtain u xs run where run: "CreateSEPARun U newID k now r d = Inr (run, d\<lparr>du_runs := du_runs d @ [u], du_items := du_items d @ xs\<rparr>)"
      "ru_id u = newID k" "\<not> ru_deleted u" "ru_paid u = None" "\<forall>x \<in> set xs. it_run x = newID k \<and> \<not> it_deleted x"
      "mset (map (\<lambda>x. (it_fee x, it_amount x)) xs) = image_mset (\<lambda>i. (i, due_now d i)) (mset_set (set (rn_FeeIDs r)))"
      "mset (sr_Items run) = image_mset (read_item d) (mset xs)" "list_all item_ok (sr_Items run)"
      by (rule CreateSEPARun_runs [OF assms 4(2,1,3)])
    have "it_fee ` set xs = set (rn_FeeIDs r)"
      using arg_cong [OF run(6), of "\<lambda>M. fst ` set_mset M"] by (simp add: image_image)
    then have *: "\<exists>x \<in> set xs. it_fee x = i" if "i \<in> set (rn_FeeIDs r)" for i using that by (metis imageE)
    have "inCollection (d\<lparr>du_runs := du_runs d @ [u], du_items := du_items d @ xs\<rparr>) i" if i: "i \<in> set (rn_FeeIDs r)" for i
    proof -
      obtain x where "x \<in> set xs" "it_fee x = i" using * i by blast
      then show ?thesis using run(2-5) unfolding inCollection_def list_ex_iff by (intro bexI [of _ x]) auto
    qed
    then show ?thesis unfolding run(1) sum.case prod.case run(7) mset_read_items run(6) using 4 run(8) by blast
  qed (simp_all add: CreateSEPARun_early)
qed

text \<open>What is due on the fees fits into 64 bits.\<close>

lemma debitable_live: "debitable U d i \<Longrightarrow> \<exists>f. fee_live d i = Some f"
  unfolding debitable_def by (elim exE conjE) (rule exI)

lemma due_now_bounds:
  assumes "dues_ok d" "finite I" "\<forall>i \<in> I. debitable U d i"
  shows "(\<Sum>i \<in> I. due_now d i) < 2 ^ 63"
proof -
  have live: "\<exists>f \<in> set (du_fees d). f_id f = i \<and> due_now d i \<le> max 0 (f_amount f)" if i: "i \<in> I" for i
  proof -
    obtain f where f: "fee_live d i = Some f" using debitable_live [OF bspec [OF assms(3) i]] by blast
    then have "f \<in> set (du_fees d)" "f_id f = i" using fee_live_iff [OF assms(1)] by auto
    then show ?thesis using f paidSinceReturn_nonneg [of "links d i"] by (intro bexI [of _ f]) (auto simp: due_now_def)
  qed
  define g where "g i = (SOME f. f \<in> set (du_fees d) \<and> f_id f = i \<and> due_now d i \<le> max 0 (f_amount f))" for i
  have g: "g i \<in> set (du_fees d)" "f_id (g i) = i" "due_now d i \<le> max 0 (f_amount (g i))" if "i \<in> I" for i
    using someI_ex [of "\<lambda>f. f \<in> set (du_fees d) \<and> f_id f = i \<and> due_now d i \<le> max 0 (f_amount f)"] live [OF that]
    unfolding g_def by blast+
  have inj: "inj_on g I" using g(2) by (rule inj_on_inverseI)
  have "(\<Sum>i \<in> I. due_now d i) \<le> (\<Sum>i \<in> I. max 0 (f_amount (g i)))" using g(3) by (rule sum_mono)
  also have "\<dots> = (\<Sum>f \<in> g ` I. max 0 (f_amount f))" by (simp add: sum.reindex [OF inj])
  also have "\<dots> \<le> (\<Sum>f \<in> set (du_fees d). max 0 (f_amount f))" using g(1) by (intro sum_mono2) auto
  also have "\<dots> = sum_list (map (\<lambda>f. max 0 (f_amount f)) (du_fees d))"
    using assms(1) by (intro sum_list_distinct_conv_sum_set [symmetric]) (simp add: dues_ok_def distinct_map)
  also have "\<dots> < 2 ^ 63" using assms(1) by (simp add: dues_ok_def)
  finally show ?thesis .
qed

subsection \<open>The file of a run\<close>

lemma TotalCents_sum:
  assumes "list_all item_ok xs" "0 \<le> n" "n + sum_list (map ri_AmountCents xs) < 2 ^ 63"
  shows "foldl (\<lambda>n i. i64 (n + ri_AmountCents i)) n xs = n + sum_list (map ri_AmountCents xs)"
  using assms
proof (induction xs arbitrary: n)
  case (Cons x xs)
  have p: "0 < ri_AmountCents x" "list_all item_ok xs" using Cons.prems(1) by (simp_all add: item_ok_def [of x])
  then have "0 \<le> sum_list (map ri_AmountCents xs)" by (intro sum_list_nonneg) (auto simp: list_all_iff item_ok_def)
  then have i: "i64 (n + ri_AmountCents x) = n + ri_AmountCents x" using Cons.prems(2,3) p(1) by (intro i64_id) auto
  then show ?case using Cons.IH [OF p(2), of "n + ri_AmountCents x"] Cons.prems p(1) by (simp add: i)
qed simp

lemma transaction_of_debit:
  "tx_EndToEndID (transaction_of (debit_of x)) = no_dashes (ri_FeeID x)" "tx_DbtrAcct (transaction_of (debit_of x)) = ri_IBAN x"
  "tx_MndtID (transaction_of (debit_of x)) = ri_MandateRef x"
  by (simp_all add: transaction_of_def debit_of_def Let_def)

text \<open>
  C26. The file of a run can always be written: it collects from valid accounts, under valid mandates, each requested fee
  once, named by its id without dashes, and its control sum, which is the total the run shows, is the sum of what
  was due on the fees.
\<close>

theorem run_file_exact:
  fixes r :: run_input
  assumes "dues_ok d" "debits_ok d" "unused_ids newID k d" "CreateSEPARun U newID k now r d = Inr (run, d')"
  shows "\<exists>doc. document_of (Initiation run) = Inr doc \<and> doc_NbOfTxs doc = int (card (set (rn_FeeIDs r)))
    \<and> read_cents (doc_CtrlSum doc) = Some (\<Sum>i \<in> set (rn_FeeIDs r). due_now d i) \<and> TotalCents run = (\<Sum>i \<in> set (rn_FeeIDs r). due_now d i)
    \<and> image_mset tx_EndToEndID (mset (concat (map pi_Tx (doc_PmtInf doc)))) = image_mset no_dashes (mset_set (set (rn_FeeIDs r)))
    \<and> (\<forall>t \<in> set (concat (map pi_Tx (doc_PmtInf doc))). ValidIBAN (tx_DbtrAcct t) \<and> ValidMandateReference (tx_MndtID t))"
proof -
  obtain c where c: "du_creditor d = Some c" "rn_FeeIDs r \<noteq> []" "\<forall>i \<in> set (rn_FeeIDs r). debitable U d i"
    by (rule CreateSEPARun_needs [OF assms(1,4)])
  obtain u xs run' where "CreateSEPARun U newID k now r d = Inr (run', d\<lparr>du_runs := du_runs d @ [u], du_items := du_items d @ xs\<rparr>)"
    and xs: "mset (map (\<lambda>x. (it_fee x, it_amount x)) xs) = image_mset (\<lambda>i. (i, due_now d i)) (mset_set (set (rn_FeeIDs r)))"
    and items': "mset (sr_Items run') = image_mset (read_item d) (mset xs)" "list_all item_ok (sr_Items run')"
    by (rule CreateSEPARun_runs [OF assms(1-3) c])
  then have "run' = run" using assms(4) by simp
  note items = items' [unfolded this]
  define I where "I = set (rn_FeeIDs r)"
  have pairs: "image_mset (\<lambda>x. (ri_FeeID x, ri_AmountCents x)) (mset (sr_Items run)) = image_mset (\<lambda>i. (i, due_now d i)) (mset_set I)"
    unfolding items(1) mset_read_items xs I_def ..
  have fees: "image_mset ri_FeeID (mset (sr_Items run)) = mset_set I"
    using arg_cong [OF pairs, of "image_mset fst"] by (simp add: multiset.map_comp comp_def)
  have amounts: "image_mset ri_AmountCents (mset (sr_Items run)) = image_mset (due_now d) (mset_set I)"
    using arg_cong [OF pairs, of "image_mset snd"] by (simp add: multiset.map_comp comp_def)
  have fin: "finite I" by (simp add: I_def)
  have sum: "sum_list (map ri_AmountCents (sr_Items run)) = (\<Sum>i \<in> I. due_now d i)"
    using arg_cong [OF amounts, of sum_mset] by (simp flip: sum_mset_sum_list sum_unfold_sum_mset)
  have len: "length (sr_Items run) = card I" using arg_cong [OF fees, of size] by simp
  have bound: "(\<Sum>i \<in> I. due_now d i) < 2 ^ 63" using due_now_bounds [OF assms(1) fin] c(3) by (simp add: I_def)
  have ne: "sr_Items run \<noteq> []" using len c(2) fin by (auto simp: I_def)
  define ds where "ds = map debit_of (sr_Items run)"
  have i: "in_Debits (Initiation run) = ds" by (simp add: Initiation_def Let_def ds_def)
  have ds: "debit_sum ds = (\<Sum>i \<in> I. due_now d i)" using sum by (simp add: debit_sum_def ds_def comp_def debit_of_def)
  have "collectable (Initiation run)"
    using ne items(2) by (auto simp: collectable_def i ds_def list_all_iff item_ok_def debit_of_def)
  then obtain doc where doc: "document_of (Initiation run) = Inr doc" "doc_NbOfTxs doc = int (length ds)"
      "read_cents (doc_CtrlSum doc) = Some (debit_sum ds)"
      "mset (concat (map pi_Tx (doc_PmtInf doc))) = image_mset transaction_of (mset ds)"
    using document_of_collectable [of "Initiation run"] bound ds unfolding i by auto
  have txs: "mset (concat (map pi_Tx (doc_PmtInf doc))) = image_mset (\<lambda>x. transaction_of (debit_of x)) (mset (sr_Items run))"
    unfolding doc(4) ds_def by (simp add: multiset.map_comp comp_def)
  have "image_mset tx_EndToEndID (mset (concat (map pi_Tx (doc_PmtInf doc)))) = image_mset no_dashes (mset_set I)"
    unfolding txs by (simp add: multiset.map_comp comp_def transaction_of_debit flip: fees)
  moreover have "set (concat (map pi_Tx (doc_PmtInf doc))) = (\<lambda>x. transaction_of (debit_of x)) ` set (sr_Items run)"
    using arg_cong [OF txs, of set_mset] by (simp only: set_mset_mset set_image_mset)
  then have "\<forall>t \<in> set (concat (map pi_Tx (doc_PmtInf doc))). ValidIBAN (tx_DbtrAcct t) \<and> ValidMandateReference (tx_MndtID t)"
    using items(2) by (simp only: ball_simps transaction_of_debit) (simp add: list_all_iff item_ok_def)
  moreover have "TotalCents run = (\<Sum>i \<in> I. due_now d i)"
    using TotalCents_sum [OF items(2), of 0] sum bound by (simp add: TotalCents_def)
  ultimately show ?thesis using doc(1,2,3) ds len unfolding I_def [symmetric] by (intro exI [of _ doc]) (simp add: ds_def)
qed

end
