(* ===== verification/Collections.thy ===== *)
theory Collections
  imports DebitRuns
begin

text \<open>
  Histories of the ledger: everything that can happen to fees, bank entries and runs as a step relation, and what
  holds in every history: a fee is never in two runs that wait for their confirmation.
\<close>

subsection \<open>Histories\<close>

text \<open>
  The steps are the operations of the store that succeed. The ids that \<open>db.NewID\<close> returns for a run are not used yet;
  members, bank accounts and households change as they may.
\<close>

inductive dues_step :: "(string \<Rightarrow> string) \<Rightarrow> case_tables \<Rightarrow> dues \<Rightarrow> dues \<Rightarrow> bool" for U T where
  step_people: "dues_step U T d (d\<lparr>du_members := ms, du_bank := bs, du_households := hs, du_household_members := hms\<rparr>)"
| step_creditor: "dues_step U T d (SetSEPACreditor c d)"
| step_mandate: "SetMandateReference i ref d = Inr d' \<Longrightarrow> dues_step U T d d'"
| step_create_run: "unused_ids newID k d \<Longrightarrow> CreateSEPARun U newID k now r d = Inr (run, d') \<Longrightarrow> dues_step U T d d'"
| step_cancel_run: "CancelSEPARun i d = Inr d' \<Longrightarrow> dues_step U T d d'"
| step_confirm_run: "ConfirmSEPARun i t d = Inr (run, d') \<Longrightarrow> dues_step U T d d'"
| step_confirm: "ConfirmReconciliation newID k now txn as d = Inr (e, d') \<Longrightarrow> dues_step U T d d'"
| step_certain: "ConfirmCertainReconciliations T newID now d = (res, d') \<Longrightarrow> dues_step U T d d'"
| step_dismiss: "DismissReconciliation now txn d = Inr (e, d') \<Longrightarrow> dues_step U T d d'"
| step_reopen: "ReopenReconciliation now txn d = Inr (e, d') \<Longrightarrow> dues_step U T d d'"
| step_create_transaction: "CreateTransaction i t d = Inr d' \<Longrightarrow> dues_step U T d d'"
| step_import: "ImportTransaction i t b d = Inr d' \<Longrightarrow> dues_step U T d d'"
| step_update_transaction: "UpdateTransaction i t d = Inr d' \<Longrightarrow> dues_step U T d d'"
| step_delete_transaction: "DeleteTransaction now i d = Inr d' \<Longrightarrow> dues_step U T d d'"
| step_create_fee: "CreateFee i f d = Inr d' \<Longrightarrow> dues_step U T d d'"
| step_update_fee: "UpdateFee i f d = Inr d' \<Longrightarrow> dues_step U T d d'"
| step_delete_fee: "DeleteFee i d = Inr d' \<Longrightarrow> dues_step U T d d'"

definition no_dues :: dues where
  "no_dues = \<lparr>du_members = [], du_bank = [], du_mandates = [], du_households = [], du_household_members = [], du_creditor = None,
     du_fees = [], du_charges = [], du_runs = [], du_items = [], du_txns = [], du_entries = [], du_payments = []\<rparr>"

subsection \<open>The invariant\<close>

text \<open>An item that waits for its run to be confirmed.\<close>

definition waiting :: "dues \<Rightarrow> item_row \<Rightarrow> bool" where
  "waiting d x \<longleftrightarrow> \<not> it_deleted x \<and> (\<exists>r \<in> set (du_runs d). ru_id r = it_run x \<and> \<not> ru_deleted r \<and> ru_paid r = None)"

definition collected_once :: "dues \<Rightarrow> bool" where
  "collected_once d \<longleftrightarrow> debits_ok d \<and> distinct (map f_id (du_fees d)) \<and> distinct (map it_fee (filter (waiting d) (du_items d)))"

text \<open>The tables of runs and the ids of the fees stay.\<close>

definition keeps_runs :: "dues \<Rightarrow> dues \<Rightarrow> bool" where
  "keeps_runs d d' \<longleftrightarrow> du_items d' = du_items d \<and> du_runs d' = du_runs d \<and> map f_id (du_fees d') = map f_id (du_fees d)"

lemma keeps_runs_refl [simp]: "keeps_runs d d"
  by (simp add: keeps_runs_def)

lemma keeps_runs_trans: "keeps_runs d d' \<Longrightarrow> keeps_runs d' d'' \<Longrightarrow> keeps_runs d d''"
  by (simp add: keeps_runs_def)

lemma map_f_id_upd: "(\<And>f. f_id (g f) = f_id f) \<Longrightarrow> map f_id (map (\<lambda>f. if P f then g f else f) fs) = map f_id fs"
  by (induction fs) simp_all

lemma keeps_runs_set_paid [simp]: "keeps_runs d (set_paid i v d)"
  by (simp add: keeps_runs_def set_paid_def comp_def if_distrib [of f_id] cong: if_cong)

lemma keeps_runs_settleFee [simp]: "keeps_runs d (settleFee now i d)"
  using settleFee_cases [of now i d] keeps_runs_set_paid by auto

lemma keeps_runs_settle_all [simp]: "keeps_runs d (settle_all now js d)"
  by (induction js arbitrary: d) (auto intro: keeps_runs_trans [OF keeps_runs_settleFee])

lemma keeps_runs_resettle [simp]: "keeps_runs d (resettle now ps d)"
  by (induction ps arbitrary: d) (auto intro: keeps_runs_trans [OF keeps_runs_settleFee] keeps_runs_trans [OF keeps_runs_set_paid])

lemma keeps_runs_payments: "keeps_runs (d\<lparr>du_payments := ps\<rparr>) d' \<Longrightarrow> keeps_runs d d'"
  by (simp add: keeps_runs_def)

lemma keeps_runs_removePayments [simp]: "keeps_runs d (removePayments now txn d)"
  unfolding removePayments_def Let_def by (rule keeps_runs_payments, rule keeps_runs_resettle)

lemma keeps_runs_set_dismissed [simp]: "keeps_runs d (set_dismissed txn P v d)"
  by (simp add: keeps_runs_def set_dismissed_def)

lemma keeps_runs_Confirm: "ConfirmReconciliation newID k now txn as d = Inr (e, d') \<Longrightarrow> keeps_runs d d'"
proof (erule ConfirmReconciliation_cases)
  fix entry fs d1 d2
  assume d: "d1 = d\<lparr>du_payments := du_payments d @ new_payments newID k txn (bk_IsReturn (re_Bank entry)) fs as\<rparr>"
    "d2 = (if re_DismissedAt entry \<noteq> None then set_dismissed txn (\<lambda>b. True) None d1 else d1)" "d' = settle_all now (map al_FeeID as) d2"
  have "keeps_runs d d1" by (simp add: d(1) keeps_runs_def)
  moreover have "keeps_runs d1 d2" by (simp add: d(2))
  moreover have "keeps_runs d2 d'" by (simp add: d(3))
  ultimately show ?thesis using keeps_runs_trans by blast
qed

lemma keeps_runs_certain: "confirm_certain T newID k now ids n d = (res, d') \<Longrightarrow> keeps_runs d d'"
proof (induction T newID k now ids n d arbitrary: res d' rule: confirm_certain.induct)
  case (1 T newID k now ids n d)
  show ?case
  proof (cases "next_certain T ids d")
    case None
    then show ?thesis using "1.prems" by (simp add: confirm_certain.simps)
  next
    case (Some p)
    obtain e as where p: "p = (e, as)" by (cases p)
    show ?thesis
    proof (cases "ConfirmReconciliation newID k now (re_TransactionID e) as d")
      case (Inl err)
      then show ?thesis using "1.prems" Some p by (subst (asm) confirm_certain.simps) simp
    next
      case (Inr q)
      obtain e' d1 where q: "q = (e', d1)" by (cases q)
      have "confirm_certain T newID (k + length as) now (re_TransactionID e # ids) (n + 1) d1 = (res, d')"
        using "1.prems" Some p Inr q by (subst (asm) confirm_certain.simps) simp
      then have "keeps_runs d1 d'" using "1.IH" [OF Some] p Inr q by simp
      then show ?thesis using keeps_runs_Confirm [OF Inr [unfolded q]] keeps_runs_trans by blast
    qed
  qed
qed

lemma waiting_cong: "du_runs d' = du_runs d \<Longrightarrow> waiting d' = waiting d"
  by (simp add: waiting_def fun_eq_iff)

lemma collected_once_keeps: "collected_once d \<Longrightarrow> keeps_runs d d' \<Longrightarrow> collected_once d'"
  using waiting_cong [of d' d] by (simp add: collected_once_def keeps_runs_def debits_ok_def)

subsection \<open>Runs keep the invariant\<close>

lemma CreateSEPARun_Inr:
  fixes r :: run_input
  assumes "CreateSEPARun U newID k now r d = Inr (run, d')"
  obtains c js template u xs where "u = \<lparr>ru_id = newID k, ru_collection = dateOnly (rn_CollectionDate r), ru_creditor = c, ru_paid = None,
      ru_created = now, ru_deleted = False\<rparr>"
    "xs = new_items U newID (Suc k) template (newID k) (sepaCandidates U d (Some js))"
    "\<forall>c \<in> set (sepaCandidates U d (Some js)). check_candidate_issues U c = []"
    "d' = d\<lparr>du_runs := du_runs d @ [u], du_items := du_items d @ xs\<rparr>"
proof -
  define js where "js = remdups_adj (sort (rn_FeeIDs r))"
  define cands where "cands = sepaCandidates U d (Some js)"
  have ne: "rn_FeeIDs r \<noteq> []" using assms CreateSEPARun_early(1) [of r U newID k now d] by force
  then have nj: "js \<noteq> []" using remdups_adj_sort(2) unfolding js_def by blast
  obtain c where c: "du_creditor d = Some c" using assms CreateSEPARun_early(2) [OF ne, of d U newID k now] by force
  define template where "template = (case rn_RemittanceTemplate r of Some t \<Rightarrow> t
      | None \<Rightarrow> (case sc_RemittanceTemplate c of Some t \<Rightarrow> t | None \<Rightarrow> ''''))"
  define u where "u = \<lparr>ru_id = newID k, ru_collection = dateOnly (rn_CollectionDate r), ru_creditor = c, ru_paid = None,
      ru_created = now, ru_deleted = False\<rparr>"
  let ?d = "d\<lparr>du_runs := du_runs d @ [u]\<rparr>"
  have run: "(if map ca_FeeID (filter (\<lambda>x. ca_Issues x \<noteq> []) cands) @ filter (\<lambda>i. \<not> List.member (map ca_FeeID cands) i) js \<noteq> []
      then Inl (SEPAInvalid (sort (map ca_FeeID (filter (\<lambda>x. ca_Issues x \<noteq> []) cands) @ filter (\<lambda>i. \<not> List.member (map ca_FeeID cands) i) js)))
      else if list_ex (\<lambda>u. ru_id u = newID k) (du_runs d) then Inl DConflict
      else (case insert_items U newID (Suc k) template (newID k) cands ?d of Inl e \<Rightarrow> Inl e
            | Inr d' \<Rightarrow> (case GetSEPARun d' (newID k) of Inl e \<Rightarrow> Inl e | Inr run \<Rightarrow> Inr (run, d')))) = Inr (run, d')"
    using assms unfolding CreateSEPARun_def Let_def GetSEPACreditor_def c option.case js_def [symmetric] cands_def [symmetric]
      template_def [symmetric] u_def [symmetric] using nj by simp
  then have none: "filter (\<lambda>x. ca_Issues x \<noteq> []) cands = []" by (auto split: if_splits)
  obtain d1 where "insert_items U newID (Suc k) template (newID k) cands ?d = Inr d1" "d1 = d'"
    using run by (auto split: if_splits sum.splits)
  then have ins: "insert_items U newID (Suc k) template (newID k) cands ?d = Inr d'" by simp
  have good: "\<forall>c \<in> set cands. check_candidate_issues U c = []"
  proof
    fix x
    assume x: "x \<in> set cands"
    then have "ca_Issues x = []" using none by (simp add: filter_empty_conv)
    moreover obtain f m where "x = candidate_row U d m f" using x unfolding cands_def sepaCandidates_iff by blast
    ultimately show "check_candidate_issues U x = []" by simp
  qed
  have "d' = ?d\<lparr>du_items := du_items ?d @ new_items U newID (Suc k) template (newID k) cands\<rparr>"
    using insert_items_Inr [OF ins] .
  then show thesis
    using that [OF u_def refl, of js template] good unfolding cands_def by simp
qed

lemma inCollection_waiting: "inCollection d i \<longleftrightarrow> (\<exists>x \<in> set (du_items d). waiting d x \<and> it_fee x = i)"
  by (auto simp: inCollection_def waiting_def list_ex_iff)

lemma once_create_run:
  fixes r :: run_input
  assumes "collected_once d" "unused_ids newID k d" "CreateSEPARun U newID k now r d = Inr (run, d')"
  shows "collected_once d'"
proof -
  obtain c js template u xs where u: "u = \<lparr>ru_id = newID k, ru_collection = dateOnly (rn_CollectionDate r), ru_creditor = c, ru_paid = None,
      ru_created = now, ru_deleted = False\<rparr>"
    and xs: "xs = new_items U newID (Suc k) template (newID k) (sepaCandidates U d (Some js))"
    and good: "\<forall>c \<in> set (sepaCandidates U d (Some js)). check_candidate_issues U c = []"
    and d': "d' = d\<lparr>du_runs := du_runs d @ [u], du_items := du_items d @ xs\<rparr>"
    by (rule CreateSEPARun_Inr [OF assms(3)])
  note ok = assms(1) [unfolded collected_once_def debits_ok_def]
  have fresh: "inj newID" "newID k \<noteq> ''''" "newID k \<notin> ru_id ` set (du_runs d)" "\<forall>j \<ge> k. newID j \<notin> it_id ` set (du_items d)"
    using assms(2) by (simp_all add: unused_ids_def)
  note rows = new_items_fields [OF good, of newID "Suc k" template "newID k", folded xs]
  have ids: "map it_id xs = map newID [Suc k..<Suc k + length xs]" using rows map_eq_imp_length_eq by metis
  have fees: "map it_fee xs = map ca_FeeID (sepaCandidates U d (Some js))"
    using arg_cong [OF conjunct1 [OF conjunct2 [OF rows]], of "map fst"] by (simp add: comp_def)
  have row: "it_run x = newID k \<and> \<not> it_deleted x" if "x \<in> set xs" for x
    using rows that item_of_fields(2,7) by blast
  have old: "waiting d' x \<longleftrightarrow> waiting d x" if "x \<in> set (du_items d)" for x
    using that fresh(3) ok by (auto simp: waiting_def d' u)
  have new: "waiting d' x" if "x \<in> set xs" for x
    using row [OF that] by (simp add: waiting_def d' u)
  have "filter (waiting d') (du_items d') = filter (waiting d) (du_items d) @ xs"
    using old new by (simp add: d' filter_id_conv cong: filter_cong)
  moreover have "\<not> inCollection d i" if "i \<in> it_fee ` set xs" for i
    using that arg_cong [OF fees, of set] by (auto simp: sepaCandidates_iff)
  then have "it_fee ` {x \<in> set (du_items d). waiting d x} \<inter> it_fee ` set xs = {}"
    by (auto simp: inCollection_waiting)
  moreover have "distinct (map it_fee xs)" unfolding fees using ok by (intro sepaCandidates_distinct) simp
  ultimately have once: "distinct (map it_fee (filter (waiting d') (du_items d')))" using ok by simp
  have "distinct (map it_id xs)" unfolding ids using fresh(1) by (simp add: distinct_map inj_on_subset)
  moreover have "it_id ` set (du_items d) \<inter> it_id ` set xs = {}"
  proof -
    have "it_id ` set xs = newID ` {Suc k..<Suc k + length xs}" using arg_cong [OF ids, of set] by (simp only: set_map set_upt)
    moreover have "newID j \<notin> it_id ` set (du_items d)" if "Suc k \<le> j" for j using fresh(4) that by simp
    ultimately show ?thesis unfolding disjoint_iff by (metis atLeastLessThan_iff imageE)
  qed
  ultimately have "debits_ok d'" using ok fresh(2,3) row unfolding debits_ok_def by (auto simp: d' u)
  then show ?thesis using once ok by (simp add: collected_once_def d')
qed

text \<open>Cancelling and confirming a run leave fewer items waiting.\<close>

lemma fewer_waiting:
  assumes "collected_once d" "map f_id (du_fees d') = map f_id (du_fees d)" "map ru_id (du_runs d') = map ru_id (du_runs d)"
    "du_items d' = map g (du_items d)" "\<And>x. it_id (g x) = it_id x \<and> it_fee (g x) = it_fee x \<and> it_run (g x) = it_run x"
    "\<And>x. waiting d' (g x) \<Longrightarrow> waiting d x"
  shows "collected_once d'"
proof -
  have "map it_fee (filter (waiting d') (map g is)) = map it_fee (filter (\<lambda>x. waiting d' (g x)) is)" for "is"
    using assms(5) by (induction "is") simp_all
  moreover have "distinct (map it_fee (filter (\<lambda>x. waiting d' (g x)) (du_items d)))"
    using assms(1,6) distinct_map_filter [of it_fee "filter (waiting d) (du_items d)" "\<lambda>x. waiting d' (g x)"]
    by (simp add: collected_once_def) (metis (mono_tags, lifting) filter_cong)
  moreover have "distinct (map it_id (map g (du_items d))) = distinct (map it_id (du_items d))" "it_run ` set (map g (du_items d)) = it_run ` set (du_items d)"
    using assms(5) by (simp_all add: assms(4) comp_def image_image)
  moreover have "ru_id ` set (du_runs d') = ru_id ` set (du_runs d)" using arg_cong [OF assms(3), of set] by simp
  ultimately show ?thesis using assms(1-3) unfolding collected_once_def debits_ok_def assms(4) by (simp del: map_map)
qed

lemma once_cancel_run:
  assumes "collected_once d" "CancelSEPARun i d = Inr d'"
  shows "collected_once d'"
proof -
  let ?g = "\<lambda>x. if it_run x = i \<and> \<not> it_deleted x then x\<lparr>it_deleted := True\<rparr> else x"
  let ?u = "\<lambda>u. if ru_id u = i \<and> \<not> ru_deleted u then u\<lparr>ru_deleted := True\<rparr> else u"
  have d': "d' = d\<lparr>du_items := map ?g (du_items d), du_runs := map ?u (du_runs d)\<rparr>"
    using assms(2) by (auto simp: CancelSEPARun_def split: option.splits if_splits)
  have live: "ru_id (?u r) = ru_id r \<and> ru_paid (?u r) = ru_paid r \<and> (ru_deleted r \<longrightarrow> ru_deleted (?u r))" for r by simp
  show ?thesis
  proof (rule fewer_waiting [OF assms(1), where g = ?g])
    show "map ru_id (du_runs d') = map ru_id (du_runs d)" unfolding d' using live by (simp add: comp_def cong: map_cong)
    show "waiting d x" if "waiting d' (?g x)" for x
      using that live unfolding waiting_def d' by (fastforce split: if_splits)
  qed (simp_all add: d')
qed

lemma once_confirm_run:
  assumes "collected_once d" "ConfirmSEPARun i t d = Inr (run, d')"
  shows "collected_once d'"
proof -
  let ?u = "\<lambda>u. if ru_id u = i \<and> \<not> ru_deleted u then u\<lparr>ru_paid := Some (dateOnly t)\<rparr> else u"
  let ?f = "\<lambda>f. if \<not> f_deleted f \<and> f_paid f = None \<and> list_ex (\<lambda>x. it_run x = i \<and> \<not> it_deleted x \<and> it_fee x = f_id f) (du_items d)
      then f\<lparr>f_paid := Some (dateOnly t)\<rparr> else f"
  have d': "d' = d\<lparr>du_runs := map ?u (du_runs d), du_fees := map ?f (du_fees d)\<rparr>"
    using assms(2) unfolding ConfirmSEPARun_def Let_def by (simp split: if_splits sum.splits)
  have live: "ru_id (?u r) = ru_id r \<and> ru_deleted (?u r) = ru_deleted r \<and> (ru_paid (?u r) = None \<longrightarrow> ru_paid r = None)" for r by simp
  show ?thesis
  proof (rule fewer_waiting [OF assms(1), where g = "\<lambda>x. x"])
    show "map f_id (du_fees d') = map f_id (du_fees d)" unfolding d' by (simp add: comp_def if_distrib [of f_id] cong: if_cong)
    show "map ru_id (du_runs d') = map ru_id (du_runs d)" unfolding d' using live by (simp add: comp_def cong: map_cong)
    show "waiting d x" if "waiting d' x" for x
      using that live unfolding waiting_def d' by (fastforce split: if_splits)
  qed (simp_all add: d')
qed

lemma keeps_runs_fee:
  "UpdateFee i f d = Inr d' \<Longrightarrow> keeps_runs d d'" "DeleteFee i d = Inr d' \<Longrightarrow> keeps_runs d d'"
  by (auto simp: UpdateFee_def DeleteFee_def keeps_runs_def comp_def fee_columns_def if_distrib [of f_id] cong: if_cong
      split: sum.splits if_splits)

lemma once_create_fee:
  assumes "collected_once d" "CreateFee i f d = Inr d'"
  shows "collected_once d'"
proof -
  have d': "d' = d\<lparr>du_fees := du_fees d @ [fee_columns i f]\<rparr>" "i \<notin> f_id ` set (du_fees d)"
    using assms(2) by (auto simp: CreateFee_def list_ex_iff split: sum.splits if_splits)
  have "waiting d' = waiting d" by (rule waiting_cong) (simp add: d')
  then show ?thesis using assms(1) d'(2) by (simp add: d'(1) collected_once_def debits_ok_def fee_columns_def)
qed

lemma keeps_runs_entries:
  "DismissReconciliation now txn d = Inr (e, d') \<Longrightarrow> keeps_runs d d'" "ReopenReconciliation now txn d = Inr (e, d') \<Longrightarrow> keeps_runs d d'"
proof -
  show "keeps_runs d d'" if "DismissReconciliation now txn d = Inr (e, d')"
    using that by (auto simp: DismissReconciliation_def Let_def split: sum.splits if_splits)
  show "keeps_runs d d'" if "ReopenReconciliation now txn d = Inr (e, d')"
    using that keeps_runs_trans [OF keeps_runs_set_dismissed keeps_runs_removePayments]
    by (auto simp: ReopenReconciliation_def Let_def split: sum.splits)
qed

lemma keeps_runs_transactions:
  "CreateTransaction i t d = Inr d' \<Longrightarrow> keeps_runs d d'" "UpdateTransaction i t d = Inr d' \<Longrightarrow> keeps_runs d d'"
  "ImportTransaction i t b d = Inr d' \<Longrightarrow> keeps_runs d d'" "SetMandateReference j ref d = Inr d' \<Longrightarrow> keeps_runs d d'"
  by (auto simp: CreateTransaction_def UpdateTransaction_def ImportTransaction_def SetMandateReference_def insert_txn_def keeps_runs_def
      split: if_splits sum.splits option.splits)

lemma keeps_runs_delete: "DeleteTransaction now i d = Inr d' \<Longrightarrow> keeps_runs d d'"
  using keeps_runs_trans [OF _ keeps_runs_removePayments] by (auto simp: DeleteTransaction_def keeps_runs_def split: if_splits)

lemma dues_step_once: "dues_step U T d d' \<Longrightarrow> collected_once d \<Longrightarrow> collected_once d'"
proof (induction rule: dues_step.induct)
  case (step_people d ms bs hs hms)
  then show ?case by (rule collected_once_keeps) (simp add: keeps_runs_def)
next
  case (step_creditor d c)
  then show ?case by (rule collected_once_keeps) (simp add: keeps_runs_def SetSEPACreditor_def)
next
  case (step_certain newID now d res d')
  then show ?case using keeps_runs_certain collected_once_keeps unfolding ConfirmCertainReconciliations_def by blast
qed (blast intro: once_create_run once_cancel_run once_confirm_run once_create_fee
    collected_once_keeps [OF _ keeps_runs_Confirm] collected_once_keeps [OF _ keeps_runs_fee(1)] collected_once_keeps [OF _ keeps_runs_fee(2)]
    collected_once_keeps [OF _ keeps_runs_entries(1)] collected_once_keeps [OF _ keeps_runs_entries(2)] collected_once_keeps [OF _ keeps_runs_delete]
    collected_once_keeps [OF _ keeps_runs_transactions(1)] collected_once_keeps [OF _ keeps_runs_transactions(2)]
    collected_once_keeps [OF _ keeps_runs_transactions(3)] collected_once_keeps [OF _ keeps_runs_transactions(4)])+

lemma collected_once_no_dues: "collected_once no_dues"
  by (simp add: collected_once_def debits_ok_def no_dues_def)

lemma histories_once: "(dues_step U T)\<^sup>*\<^sup>* no_dues d \<Longrightarrow> collected_once d"
  by (induction rule: rtranclp_induct) (auto intro: collected_once_no_dues dues_step_once)

lemma one_of_key: "distinct (map g xs) \<Longrightarrow> length (filter (\<lambda>x. g x = i) xs) \<le> 1"
proof (induction xs)
  case (Cons x xs)
  then have "g x = i \<Longrightarrow> filter (\<lambda>x. g x = i) xs = []" by (auto simp: filter_empty_conv image_iff)
  then show ?case using Cons by auto
qed simp


subsection \<open>An example\<close>

text \<open>A member with an account, a mandate and an unpaid fee of 50.00, and the club as creditor.\<close>

definition sample_fee :: fee_input where
  "sample_fee = \<lparr>fi_MemberID = ''m'', fi_AmountCents = 5000, fi_DueDate = 0, fi_PaidDate = None, fi_Description = None, fi_Year = 2024\<rparr>"

definition sample_bank :: bank_row where
  "sample_bank = \<lparr>bd_member = ''m'', bd_holder = None, bd_iban = Some ''DE89370400440532013000'', bd_bic = None, bd_mandate_date = Some 0, bd_deleted = False\<rparr>"

definition sample_creditor :: sepa_creditor where
  "sample_creditor = \<lparr>sc_Name = ''Club'', sc_CreditorID = ''DE98ZZZ09999999999'', sc_IBAN = ''DE89370400440532013000'', sc_BIC = None,
     sc_RemittanceTemplate = None\<rparr>"

definition sample_members :: "member_row list" where
  "sample_members = [\<lparr>m_ref = \<lparr>mr_ID = ''m'', mr_Number = 42, mr_FirstName = ''Ann'', mr_LastName = ''Lee''\<rparr>, m_deleted = False\<rparr>]"

definition sample_dues :: dues where
  "sample_dues = no_dues\<lparr>du_members := sample_members, du_bank := [sample_bank], du_creditor := Some sample_creditor,
     du_mandates := [\<lparr>md_member = ''m'', md_reference = ''M1'', md_deleted = False\<rparr>], du_fees := [fee_columns ''f'' sample_fee]\<rparr>"

definition sample_run :: run_input where
  "sample_run = \<lparr>rn_CollectionDate = 0, rn_RemittanceTemplate = None, rn_FeeIDs = [''f'']\<rparr>"

lemma sample_dues_ok: "dues_ok sample_dues" "debits_ok sample_dues" "unused_ids sample_id k sample_dues"
  by (simp_all add: dues_ok_def debits_ok_def unused_ids_def sample_dues_def sample_members_def no_dues_def member_any_def fee_columns_def
      sample_fee_def sample_id_def inj_def del: replicate_Suc)

lemma fields_plain: "list_all is_b64 s \<Longrightarrow> GoText.fields cur s = (if cur @ s = [] then [] else [cur @ s])"
proof (induction s arbitrary: cur)
  case (Cons c s)
  have "w = [] \<or> take (length w) (c # s) \<noteq> w" if "w \<in> set space_runes" for w
  proof (cases w)
    case (Cons b v)
    have "\<not> is_b64 (hd w)" using space_rune_heads(1) that by (simp add: list_all_iff)
    then have "b \<noteq> c" using \<open>list_all is_b64 (c # s)\<close> Cons by auto
    then show ?thesis using Cons by auto
  qed simp
  then have "find (\<lambda>w. w \<noteq> [] \<and> take (length w) (c # s) = w) space_runes = None" by (auto simp: find_None_iff)
  then show ?case using Cons by (subst GoText.fields.simps) simp
qed (simp add: GoText.fields.simps)

lemma sample_iban: "ValidIBAN (NormalizeIBAN (\<lambda>s. s) ''DE89370400440532013000'')"
proof -
  have "NormalizeIBAN (\<lambda>s. s) ''DE89370400440532013000'' = ''DE89370400440532013000''"
  proof -
    have "list_all is_b64 ''DE89370400440532013000''" by code_simp
    then show ?thesis by (simp only: NormalizeIBAN_def Fields_def fields_plain) (simp add: join_words_def)
  qed
  moreover have "WellFormedIBAN ''DE89370400440532013000''" by code_simp
  moreover have "mod97 ''370400440532013000DE89'' = 1"
    by (simp add: mod97_value iso_value_def upper_def digit_def in_range_def letter_value_def)
  ultimately show ?thesis by (simp add: ValidIBAN_def)
qed

lemma sample_debitable: "debitable (\<lambda>s. s) sample_dues ''f''" "due_now sample_dues ''f'' = 5000"
proof -
  have f: "fee_live sample_dues ''f'' = Some (fee_columns ''f'' sample_fee)"
    by (simp add: fee_live_def sample_dues_def fee_columns_def)
  show due: "due_now sample_dues ''f'' = 5000"
    by (simp add: due_now_def f) (simp add: fee_columns_def sample_fee_def links_def paidSinceReturn_def sample_dues_def no_dues_def)
  have m: "member_live sample_dues ''m'' = Some (m_ref (hd sample_members))" "mr_ID (m_ref (hd sample_members)) = ''m''"
    by (simp_all add: member_live_def sample_dues_def sample_members_def)
  have b: "bank_live sample_dues ''m'' = Some sample_bank" by (simp add: bank_live_def sample_dues_def sample_bank_def)
  have r: "mandate_live sample_dues ''m'' = Some \<lparr>md_member = ''m'', md_reference = ''M1'', md_deleted = False\<rparr>"
    by (simp add: mandate_live_def sample_dues_def)
  have v: "ValidMandateReference ''M1''" by code_simp
  have c: "f_paid (fee_columns ''f'' sample_fee) = None" "f_member (fee_columns ''f'' sample_fee) = ''m''" "\<not> inCollection sample_dues ''f''"
    by (simp_all add: fee_columns_def sample_fee_def inCollection_def sample_dues_def no_dues_def)
  show "debitable (\<lambda>s. s) sample_dues ''f''"
  proof -
    have f1: "fee_columns ''f'' sample_fee = x \<Longrightarrow> f_member x = ''m''" for x using c(2) by simp
    have bank: "bd_iban sample_bank = Some ''DE89370400440532013000''" "bd_bic sample_bank = None" "bd_mandate_date sample_bank = Some 0"
      by (simp_all add: sample_bank_def)
    show ?thesis unfolding debitable_def
      by (intro exI [of _ "fee_columns ''f'' sample_fee"] exI [of _ "m_ref (hd sample_members)"] exI [of _ sample_bank]
          exI [of _ "''DE89370400440532013000''"] exI [of _ "\<lparr>md_member = ''m'', md_reference = ''M1'', md_deleted = False\<rparr>"])
        (simp only: f c due m b r bank sample_iban, simp add: v)
  qed
qed

lemma sample_creates:
  obtains run d' where "CreateSEPARun (\<lambda>s. s) sample_id 0 7 sample_run sample_dues = Inr (run, d')" "length (du_items d') = 1"
    "unused_ids sample_id 0 sample_dues"
proof -
  have c: "du_creditor sample_dues = Some sample_creditor" "rn_FeeIDs sample_run \<noteq> []"
      "\<forall>i \<in> set (rn_FeeIDs sample_run). debitable (\<lambda>s. s) sample_dues i"
    using sample_debitable by (simp_all add: sample_run_def) (simp add: sample_dues_def)
  obtain u xs run where run: "CreateSEPARun (\<lambda>s. s) sample_id 0 7 sample_run sample_dues
        = Inr (run, sample_dues\<lparr>du_runs := du_runs sample_dues @ [u], du_items := du_items sample_dues @ xs\<rparr>)"
    and xs: "mset (map (\<lambda>x. (it_fee x, it_amount x)) xs) = image_mset (\<lambda>i. (i, due_now sample_dues i)) (mset_set (set (rn_FeeIDs sample_run)))"
    by (rule CreateSEPARun_runs [OF sample_dues_ok c])
  have "length xs = 1" using arg_cong [OF xs, of size] by (simp add: sample_run_def)
  then show thesis using that [OF run] sample_dues_ok(3) by (simp add: sample_dues_def no_dues_def)
qed

theorem CreateSEPARun_exact_witness:
  "case CreateSEPARun (\<lambda>s. s) sample_id 0 7 sample_run sample_dues of
      Inl e \<Rightarrow> False
    | Inr (run, d') \<Rightarrow> image_mset (\<lambda>x. (ri_FeeID x, ri_AmountCents x)) (mset (sr_Items run)) = {#(''f'', 5000)#}"
proof -
  obtain run d' where run: "CreateSEPARun (\<lambda>s. s) sample_id 0 7 sample_run sample_dues = Inr (run, d')" by (rule sample_creates)
  show ?thesis
    using CreateSEPARun_exact [OF sample_dues_ok, where U = "\<lambda>s. s" and k = 0 and now = 7 and r = sample_run] sample_debitable(2)
    unfolding run by (simp add: sample_run_def)
qed

theorem run_file_exact_witness:
  "case CreateSEPARun (\<lambda>s. s) sample_id 0 7 sample_run sample_dues of
      Inl e \<Rightarrow> False
    | Inr (run, d') \<Rightarrow> TotalCents run = 5000 \<and> (\<exists>doc. document_of (Initiation run) = Inr doc \<and> read_cents (doc_CtrlSum doc) = Some 5000)"
proof -
  obtain run d' where run: "CreateSEPARun (\<lambda>s. s) sample_id 0 7 sample_run sample_dues = Inr (run, d')" by (rule sample_creates)
  show ?thesis
    using run_file_exact [OF sample_dues_ok run] sample_debitable(2) unfolding run by (auto simp: sample_run_def)
qed

lemma sample_history: "(dues_step (\<lambda>s. s) T)\<^sup>*\<^sup>* no_dues sample_dues"
proof -
  let ?d1 = "no_dues\<lparr>du_members := sample_members, du_bank := [sample_bank], du_households := [], du_household_members := []\<rparr>"
  let ?d2 = "SetSEPACreditor sample_creditor ?d1"
  let ?d3 = "?d2\<lparr>du_mandates := [\<lparr>md_member = ''m'', md_reference = ''M1'', md_deleted = False\<rparr>]\<rparr>"
  have 1: "dues_step (\<lambda>s. s) T no_dues ?d1" by (rule step_people)
  have 2: "dues_step (\<lambda>s. s) T ?d1 ?d2" by (rule step_creditor)
  have "SetMandateReference ''m'' (Some ''M1'') ?d2 = Inr ?d3"
    by (simp add: SetMandateReference_def requireLiveMember_def member_live_def SetSEPACreditor_def no_dues_def sample_members_def)
  then have 3: "dues_step (\<lambda>s. s) T ?d2 ?d3" by (rule step_mandate)
  have "CreateFee ''f'' sample_fee ?d3 = Inr (?d3\<lparr>du_fees := [fee_columns ''f'' sample_fee]\<rparr>)"
    by (simp add: CreateFee_def requireLiveMember_def member_live_def SetSEPACreditor_def no_dues_def sample_members_def sample_fee_def)
  moreover have "?d3\<lparr>du_fees := [fee_columns ''f'' sample_fee]\<rparr> = sample_dues"
    by (simp add: sample_dues_def SetSEPACreditor_def no_dues_def)
  ultimately have "CreateFee ''f'' sample_fee ?d3 = Inr sample_dues" by simp
  then have 4: "dues_step (\<lambda>s. s) T ?d3 sample_dues" by (rule step_create_fee)
  have "(dues_step (\<lambda>s. s) T)\<^sup>*\<^sup>* no_dues ?d2" using 1 2 by (rule rtranclp.rtrancl_into_rtrancl [OF r_into_rtranclp])
  then have "(dues_step (\<lambda>s. s) T)\<^sup>*\<^sup>* no_dues ?d3" using 3 by (rule rtranclp.rtrancl_into_rtrancl)
  then show ?thesis using 4 by (rule rtranclp.rtrancl_into_rtrancl)
qed


end
