(* ===== verification/Spec2Isabelle.thy ===== *)
theory Spec2Isabelle
  imports Sync SyncSample FeeRun LoginSample Collections
begin

text \<open>
  A model of the core of Open Club Manager: the synchronisation of its databases (the code under
  \<open>server/internal/sync\<close> with the tables and local writes it rests on, \<open>server/internal/db/scopes.go\<close>,
  \<open>store/syncwrite.go\<close>, \<open>store/conflicts.go\<close>), its membership fees and their payment (\<open>fees\<close>,
  \<open>store/feemodels.go\<close>, \<open>store/reconciliation.go\<close>, \<open>reconcile\<close>, \<open>sepa\<close>), and its logins (\<open>auth\<close>, the accounts and tokens of \<open>store\<close>, the handlers for them).

  \<^bold>\<open>The program.\<close> Every device of a club keeps a complete SQLite database. A local write changes the
  row, stamps the changed columns with a clock (\<open>hlc\<close>) and puts a change op into the outbox. A sync
  writes the outbox into signed and encrypted segment files, numbered and chained per device and
  scope, uploads them to a synced folder that only knows complete files, and reads the segments of
  the other devices. Who may read and write which scope stands in a chain of signed access control
  lists that starts at the genesis file of the club. Ops are applied column by column, the newer clock
  wins. New devices and scopes start from snapshots.

  \<^bold>\<open>The theories\<close>, in the order of the code's layers:

  \<^item> \<open>Prelude\<close>: byte strings, Go maps as association lists, results, the locale of strict total orders.
  \<^item> \<open>GoLib\<close>: positional notation, hex, \<open>ParseUint\<close>, the machine arithmetic of \<open>uint64\<close> and \<open>int64\<close>.
  \<^item> \<open>Hlc\<close> (\<open>sync/hlc\<close>): timestamps on 64-bit words, their text form, and the clock as a state that
    \<open>Now\<close>, \<open>Observe\<close> and \<open>Restore\<close> change. The readings of the wall clock are a parameter, and \<open>clock_now\<close>
    takes as fuel how often it reads it: the liveness property says that the first reading after the last
    timestamp is enough.
  \<^item> \<open>Scopes\<close> (\<open>db/scopes.go\<close>): the registry of tables; \<open>Layout\<close> (\<open>sync/layout\<close>): file names.
  \<^item> \<open>Wire\<close>, \<open>GoJson\<close> (\<open>sync/wire\<close>): base64, hashes, signed messages, strict JSON. \<open>Identity\<close>
    (\<open>sync/identity\<close>): device ids and safety codes. \<open>Op\<close> (\<open>sync/op\<close>): change ops.
  \<^item> \<open>Acl\<close>, \<open>AclChain\<close> (\<open>sync/acl\<close>): the genesis file, one version and its verification against the version
    before, and the chain that is built from all files found; \<open>AclSample\<close> holds a concrete club.
  \<^item> \<open>Segment\<close> (\<open>sync/segment\<close>, the key checks of \<open>sync/keys\<close>): framing, headers, sealing, opening.
  \<^item> \<open>Replica\<close>, \<open>Snapshot\<close> (\<open>sync/replica\<close>): applying changes to the tables, waiting changes, snapshots
    and the upload queue. \<open>Conflicts\<close> (\<open>store/conflicts.go\<close>), \<open>SyncWrite\<close> (\<open>store/syncwrite.go\<close>).
  \<^item> \<open>Transport\<close> (\<open>sync/transport\<close>): the in-memory store and the local folder behind one interface, the
    locale \<open>file_store\<close>; what other clients do meanwhile is a function on the folder.
  \<^item> \<open>Engine\<close>, \<open>Sync\<close> (\<open>sync/engine\<close>): pulling streams, and flushing, bases, rebuilding and the whole
    round. \<open>SyncSample\<close> has the concrete runs.
  \<^item> \<open>GoTime\<close>: calendar dates as day numbers. \<open>Fees\<close> (\<open>fees/fees.go\<close>): the model for an age, billing periods,
    membership months and amounts. \<open>FeeRun\<close> (\<open>store/feemodels.go\<close>): planning and charging a billing run.
  \<^item> \<open>GoText\<close>: splitting text into words, and regular expressions as a backtracking matcher. \<open>Reconcile\<close>
    (\<open>reconcile/match.go\<close>): which fees a bank entry pays.
  \<^item> \<open>Dues\<close> (\<open>store/reconciliation.go\<close>, the writes of \<open>store/finance.go\<close>, the suggestions of
    \<open>handlers/reconciliation.go\<close>): fees, bank entries and the payments between them; \<open>Ledger\<close> proves how confirming,
    reopening and suggesting fit together.
  \<^item> \<open>Sepa\<close> (\<open>sepa/validate.go\<close>, \<open>sepa/pain008.go\<close>): checks of bank identifiers and the document of a direct debit.
    \<open>DebitRuns\<close> (\<open>store/sepa.go\<close>): creditor, mandates and direct debit runs over the tables of \<open>Dues\<close>. \<open>Collections\<close>: the
    histories of the ledger as a step relation.
  \<^item> \<open>GoNet\<close>, \<open>LoginLimit\<close> (\<open>handlers/loginlimit.go\<close>): throttling of logins. \<open>Accounts\<close> (\<open>store/users.go\<close>,
    \<open>refreshtokens.go\<close>, \<open>password_reset.go\<close>): the tables of logins. \<open>Session\<close> (\<open>auth/jwt.go\<close> and the handlers
    \<open>session.go\<close>, \<open>refresh.go\<close>, \<open>users.go\<close>, \<open>password_reset.go\<close>, \<open>password_policy.go\<close>, login and setup of \<open>api.go\<close>):
    one function per handler. \<open>Logins\<close>: histories of requests as a step relation, in which a refresh may
    finish long after it was looked up; \<open>LoginSample\<close> has a concrete instance.

  \<^bold>\<open>State.\<close> The database is a record that grows with the layers, as the tables do: \<open>rdb\<close> (rows, field
  clocks, waiting changes), \<open>cdb\<close> (with the conflicts), \<open>wdb\<close> (with clock, outbox and clock epochs),
  \<open>sdb\<close> (with uploads and bases), \<open>edb\<close> (with streams, history and warnings). Every operation is a
  function from a state to an error or a result with the new state; a transaction that fails has no new
  state. A table is an association list of rows in the order the database returns them. The schema
  (columns, foreign keys, the text SQLite compares) is a parameter, since the migrations are not modelled.

  \<^bold>\<open>What is shown.\<close> Clocks: ticks increase, follow accepted remote timestamps, and their text order is
  their order. File names and framing: \<open>Parse\<close> accepts exactly the canonical names and files. Access control:
  only administrators of the version before make a version; devices, epochs and revocations only grow, and
  the chain is the same for every order of the files. Convergence: applying is a last-writer-wins join per
  cell, so that the order and repetition of changes do not matter, references stay intact, no
  waiting change is left behind that could be applied, and a local update is the change other devices
  apply. Streams: what a pull accepts is a chained, signed and permitted continuation of the stream;
  what a flush writes is the outbox, once, in order, in bounded segments, and an upload loses nothing.
  Fees: the periods of an interval tile the calendar, an amount is the rounded share of the active months, and a
  run charges every month of a member exactly once. A suggestion for a bank entry never pays a fee twice or too
  much, and a certain one pays exactly; it can always be confirmed, all certain ones can be confirmed at once, and
  reopening an entry undoes its confirmation. A direct debit file holds every debit once with the right sums, and no slip
  of a typist turns one valid IBAN into another; a run collects what is due on each of its fees, and no fee is in two runs
  at once. Logins: a replaced token ends its login for good, a
  changed password ends all sessions of its account, a reset link works once and only the newest does,
  each login has one exchangeable token whatever refreshes race, and an undisturbed login stays usable.

  \<^bold>\<open>Bounds and fuel.\<close> The only fuel is that of the clock (above). All other loops are recursive functions
  with a termination proof: the retry loop ends since each round that goes on removes a waiting change,
  \<open>Resolve\<close> since a version number without candidates ends it, \<open>stream_loop\<close> and \<open>cutoff_loop\<close> since the
  numbers listed are finitely many, the cutting into segments since each takes at least one op, confirming certain
  suggestions since each entry is confirmed once.

  \<^bold>\<open>Parameters.\<close> SHA-256, Ed25519, XChaCha20-Poly1305, gzip, the text level of JSON (from bytes to a tree
  and back) and age are fields of the records \<open>crypto\<close>, \<open>libs\<close>, \<open>op_libs\<close>, \<open>seg_libs\<close>; \<open>crypto_ok\<close> and
  \<open>seg_libs_ok\<close> name what the code relies on, and the witnesses use concrete instances. bcrypt, the JWT library
  and the Unicode case tables are fields of \<open>auth_libs\<close>, with \<open>bcrypt_sane\<close> and \<open>jwt_ok\<close>. The rendering of XML, the
  case tables of names and the ids of new rows are arguments of the operations that use them.

  \<^bold>\<open>Not modelled.\<close> Creating and joining a club and its administration (\<open>sync/club\<close>), the storage of
  secrets (\<open>sync/identity/keystore.go\<close> and its siblings), the migrations and the import of old
  databases, the other queries of \<open>store\<close> over the local writes, donations,
  the other HTTP handlers, documents and exports, and the generated API. Mutexes, goroutines and contexts
  are left out: the engine runs one round at a time under its lock, and a handler other than that of a refresh
  is one step.
\<close>

end
